(* ===== verification/Prelude.thy ===== *)
theory Prelude
  imports Main "HOL-Library.Word" "HOL-Library.Signed_Division" "HOL-Library.AList"
    "HOL-Library.Multiset"
begin

text \<open>
  What the components share: outcomes of Go calls (a value, a returned error, a run-time
  panic), Go's fixed-width integers, Go maps as association lists with distinct keys and an
  iteration order chosen by the run time, and explicit stores for the variables and objects
  the program shares through pointers.
\<close>

named_theorems go_simps \<open>equations that run the Go primitives\<close>

section \<open>Outcomes of calls\<close>

text \<open>
  The run-time panics the program can raise. A panic in any goroutine ends the process.
\<close>

datatype panic =
    IndexOutOfRange
  | SliceBoundsOutOfRange
  | IntegerDivideByZero
  | NilMapWrite
  | NilDereference
  | CloseOfClosedChannel
  | CloseOfNilChannel
  | BadTypeAssertion
  | NonPositiveTicker

text \<open>
  Error values. The sentinels of common/errs/error.go are compared by identity, so they are
  constructors of their own; errors made by errors.New or fmt.Errorf carry their text, those
  of strconv the text that was read, and errors that come from outside the repository are opaque.
\<close>

datatype gerr =
    NO_SUFFICENT_DATA
  | UNREADY_TO_PREDICT
  | NewError string
  | NumError string
  | External string

datatype 'a go = Ret 'a | Err gerr | Panic panic

text \<open>A call followed by the usual \<open>if err != nil { return err }\<close>.\<close>

fun and_then :: "'a go \<Rightarrow> ('a \<Rightarrow> 'b go) \<Rightarrow> 'b go" where
  "and_then (Ret x) f = f x"
| "and_then (Err e) f = Err e"
| "and_then (Panic p) f = Panic p"

fun_cases and_then_RetE: "and_then m f = Ret y"

lemma and_then_eq_Ret [go_simps]:
  "and_then m f = Ret y \<longleftrightarrow> (\<exists>x. m = Ret x \<and> f x = Ret y)"
  by (cases m) auto

lemma and_then_no_panic:
  "(\<And>q. r \<noteq> Panic q) \<Longrightarrow> (\<And>a. f a \<noteq> Panic x) \<Longrightarrow> and_then r f \<noteq> Panic x"
  by (cases r) auto

lemma and_then_assoc: "and_then (and_then m f) g = and_then m (\<lambda>x. and_then (f x) g)"
  by (cases m) auto

lemma and_then_Ret_right [simp]: "and_then m Ret = m"
  by (cases m) auto

text \<open>Statements run in order over a slice: the first error or panic ends the loop.\<close>

fun fold_go :: "('a \<Rightarrow> 's \<Rightarrow> 's go) \<Rightarrow> 'a list \<Rightarrow> 's \<Rightarrow> 's go" where
  "fold_go f [] s = Ret s"
| "fold_go f (x # xs) s = and_then (f x s) (fold_go f xs)"

lemma fold_go_append: "fold_go f (xs @ ys) s = and_then (fold_go f xs s) (fold_go f ys)"
proof (induction xs arbitrary: s)
  case Nil
  then show ?case by simp
next
  case (Cons x xs)
  then show ?case by (cases "f x s") simp_all
qed

lemma fold_go_invariant:
  assumes "fold_go f xs s = Ret t" and "P s"
    and "\<And>x s s'. x \<in> set xs \<Longrightarrow> P s \<Longrightarrow> f x s = Ret s' \<Longrightarrow> P s'"
  shows "P t"
  using assms
proof (induction xs arbitrary: s)
  case Nil
  then show ?case by simp
next
  case (Cons x xs)
  then obtain s' where s': "f x s = Ret s'" "fold_go f xs s' = Ret t"
    by (auto simp: go_simps)
  with Cons.prems(2,3) have "P s'" by (meson list.set_intros(1))
  with s'(2) show ?case
  proof (rule Cons.IH)
    show "P u'" if "y \<in> set xs" "P u" "f y u = Ret u'" for y u u'
      using Cons.prems(3) that by (meson list.set_intros(2))
  qed
qed

lemma fold_go_total:
  assumes "\<And>x s. x \<in> set xs \<Longrightarrow> P s \<Longrightarrow> \<exists>s'. f x s = Ret s' \<and> P s'" and "P s"
  shows "\<exists>t. fold_go f xs s = Ret t \<and> P t"
  using assms
proof (induction xs arbitrary: s)
  case Nil
  then show ?case by simp
next
  case (Cons x xs)
  then obtain s' where "f x s = Ret s'" "P s'"
    by (metis list.set_intros(1))
  with Cons show ?case by simp
qed

lemma fold_go_upt:
  assumes "\<And>i s. i < n \<Longrightarrow> P i s \<Longrightarrow> \<exists>s'. f i s = Ret s' \<and> P (Suc i) s'" and "P 0 s"
  shows "\<exists>t. fold_go f [0..<n] s = Ret t \<and> P n t"
  using assms
proof (induction n)
  case (Suc n)
  then obtain u where u: "fold_go f [0..<n] s = Ret u" "P n u" by auto
  obtain t where "f n u = Ret t" "P (Suc n) t" using Suc.prems(1) [OF _ u(2)] by auto
  with u show ?case by (simp add: fold_go_append)
qed simp

lemma fold_go_upt_returns:
  "(\<And>i s. i < n \<Longrightarrow> \<exists>s'. f i s = Ret s') \<Longrightarrow> \<exists>t. fold_go f [0..<n] s = Ret t"
  using fold_go_upt [where P = "\<lambda>_ _. True"] by metis

lemma fold_go_Ret_each:
  "fold_go f xs s = Ret t \<Longrightarrow> x \<in> set xs \<Longrightarrow> \<exists>u u'. f x u = Ret u'"
  by (induction xs arbitrary: s) (auto simp: go_simps)

lemma fold_upt_invariant:
  assumes "\<And>i s. i < n \<Longrightarrow> P i s \<Longrightarrow> P (Suc i) (f i s)" and "P 0 s"
  shows "P n (fold f [0..<n] s)"
  using assms by (induction n) auto

section \<open>Integers\<close>

text \<open>
  \<open>int32\<close> wraps around; its order is the order of its signed reading. \<open>int\<close> is 64 bits wide
  on the platforms the images are built for; it is read as an integer in that range and
  \<open>wrap64\<close> is written where a sum or a product can leave it. Go's division and remainder
  truncate towards zero, as \<open>sdiv\<close> and \<open>smod\<close> do, and panic on a zero divisor.
\<close>

type_synonym int32 = "32 word"

definition wrap64 :: "int \<Rightarrow> int" where
  "wrap64 i = signed_take_bit 63 i"

definition in64 :: "int \<Rightarrow> bool" where
  "in64 i \<longleftrightarrow> - (2 ^ 63) \<le> i \<and> i < 2 ^ 63"

lemma wrap64_id: "in64 i \<Longrightarrow> wrap64 i = i"
  unfolding wrap64_def in64_def by (rule signed_take_bit_int_eq_self) auto

lemma wrap64_above:
  assumes "2 ^ 63 \<le> i" and "i < 2 ^ 64"
  shows "wrap64 i = i - 2 ^ 64"
proof -
  have "(i + 2 ^ 63) mod 2 ^ 64 = (i + 2 ^ 63 - 2 ^ 64) mod 2 ^ 64"
    using assms by (intro mod_pos_geq) auto
  also have "\<dots> = i + 2 ^ 63 - 2 ^ 64"
    using assms by (intro mod_pos_pos_trivial) auto
  finally show ?thesis
    by (simp add: wrap64_def signed_take_bit_eq_take_bit_shift take_bit_eq_mod)
qed

lemma in64_wrap64 [simp]: "in64 (wrap64 i)"
  unfolding in64_def wrap64_def using signed_take_bit_int_greater_eq_minus_exp [of 63 i] signed_take_bit_int_less_exp [of 63 i]
  by simp

definition gt32 :: "int32 \<Rightarrow> int32 \<Rightarrow> bool" where
  "gt32 a b \<longleftrightarrow> sint b < sint a"

definition max32 :: "int32 \<Rightarrow> int32 \<Rightarrow> int32" where
  "max32 a b = (if gt32 b a then b else a)"

definition min32 :: "int32 \<Rightarrow> int32 \<Rightarrow> int32" where
  "min32 a b = (if gt32 a b then b else a)"

lemma sint_max32 [simp]: "sint (max32 a b) = max (sint a) (sint b)"
  by (simp add: max32_def gt32_def max_def)

lemma sint_min32 [simp]: "sint (min32 a b) = min (sint a) (sint b)"
  by (simp add: min32_def gt32_def min_def)

definition quot32 :: "int32 \<Rightarrow> int32 \<Rightarrow> int32 go" where
  "quot32 a b = (if b = 0 then Panic IntegerDivideByZero else Ret (word_of_int (sint a sdiv sint b)))"

lemma sint32_bounds: "- (2 ^ 31) \<le> sint (a :: int32)" "sint (a :: int32) < 2 ^ 31"
  using sint_range_size [of a] by (auto simp: word_size)

lemma sint32_eq_iff: "sint (a :: int32) = sint b \<longleftrightarrow> a = b"
  by (metis signed_word_eqI)

lemma sint32_of_int:
  assumes "- (2 ^ 31) \<le> i" and "i < 2 ^ 31"
  shows "sint (word_of_int i :: int32) = i"
  using assms by (simp add: sint_sbintrunc' signed_take_bit_int_eq_self)


definition quot64 :: "int \<Rightarrow> int \<Rightarrow> int go" where
  "quot64 a b = (if b = 0 then Panic IntegerDivideByZero else Ret (wrap64 (a sdiv b)))"

section \<open>Slices\<close>

text \<open>\<open>xs[i]\<close> and \<open>xs[lo:]\<close>, with the run-time checks.\<close>

definition index :: "'a list \<Rightarrow> int \<Rightarrow> 'a go" where
  "index xs i = (if 0 \<le> i \<and> i < int (length xs) then Ret (xs ! nat i) else Panic IndexOutOfRange)"

definition slice :: "'a list \<Rightarrow> int \<Rightarrow> int \<Rightarrow> 'a list go" where
  "slice xs lo hi =
     (if 0 \<le> lo \<and> lo \<le> hi \<and> hi \<le> int (length xs) then Ret (take (nat (hi - lo)) (drop (nat lo) xs))
      else Panic SliceBoundsOutOfRange)"

lemma index_nat [simp]: "index xs (int i) = (if i < length xs then Ret (xs ! i) else Panic IndexOutOfRange)"
  by (simp add: index_def)

lemma slice_from: "0 \<le> n \<Longrightarrow> n \<le> int (length xs) \<Longrightarrow>
  slice xs (int (length xs) - n) (int (length xs)) = Ret (drop (length xs - nat n) xs)"
  by (simp add: slice_def nat_diff_distrib)

section \<open>Maps\<close>

text \<open>
  A Go map is an association list with distinct keys. Only the mapping is observable, and the
  order in which \<open>range\<close> visits it: Go leaves that order open, so every \<open>range\<close> over a map asks
  the iteration oracle for its own order of the keys. An oracle is described by the number of
  the \<open>range\<close> statement; the theorems hold for every oracle that permutes the keys.
\<close>

type_synonym ('k, 'v) gomap = "('k \<times> 'v) list"

definition keys :: "('k, 'v) gomap \<Rightarrow> 'k list" where
  "keys m = map fst m"

definition wf_map :: "('k, 'v) gomap \<Rightarrow> bool" where
  "wf_map m \<longleftrightarrow> distinct (keys m)"

type_synonym iter = "nat \<Rightarrow> string list \<Rightarrow> string list"

definition fair_iter :: "iter \<Rightarrow> bool" where
  "fair_iter it \<longleftrightarrow> (\<forall>n ks. mset (it n ks) = mset ks)"

lemma set_keys [simp]: "set (keys m) = dom (map_of m)"
  by (simp add: keys_def dom_map_of_conv_image_fst)

lemma keys_Nil [simp]: "keys [] = []"
  by (simp add: keys_def)

lemma wf_map_Nil [simp]: "wf_map []"
  by (simp add: wf_map_def)

lemma wf_map_update [simp]: "wf_map m \<Longrightarrow> wf_map (AList.update k v m)"
  by (simp add: wf_map_def keys_def distinct_update)

lemma wf_map_delete [simp]: "wf_map m \<Longrightarrow> wf_map (AList.delete k m)"
  by (simp add: wf_map_def keys_def distinct_delete)

lemma set_iter [simp]: "fair_iter it \<Longrightarrow> set (it n ks) = set ks"
  unfolding fair_iter_def by (metis set_mset_mset)

lemma distinct_iter: "fair_iter it \<Longrightarrow> distinct ks \<Longrightarrow> distinct (it n ks)"
  unfolding fair_iter_def by (metis mset_eq_imp_distinct_iff)

lemma length_iter [simp]: "fair_iter it \<Longrightarrow> length (it n ks) = length ks"
  unfolding fair_iter_def by (metis size_mset)

lemma fair_iter_id: "fair_iter (\<lambda>_ ks. ks)"
  by (simp add: fair_iter_def)

lemma fair_iter_rev: "fair_iter (\<lambda>_. rev)"
  by (simp add: fair_iter_def)

text \<open>The entries of a map in the order of one \<open>range\<close>.\<close>

definition entries :: "iter \<Rightarrow> nat \<Rightarrow> (string, 'v) gomap \<Rightarrow> (string \<times> 'v) list" where
  "entries it n m = map (\<lambda>k. (k, the (map_of m k))) (it n (keys m))"

lemma set_entries [simp]:
  assumes "fair_iter it" and "wf_map m"
  shows "set (entries it n m) = set m"
proof -
  have "(k, the (map_of m k)) \<in> set m" if "k \<in> dom (map_of m)" for k
    using that by (auto dest: map_of_SomeD)
  moreover have "(k, v) \<in> (\<lambda>k. (k, the (map_of m k))) ` dom (map_of m)" if "(k, v) \<in> set m" for k v
    using that assms(2) by (auto simp: wf_map_def keys_def image_iff intro!: bexI [of _ k])
  ultimately show ?thesis
    using assms(1) by (auto simp: entries_def)
qed

lemma length_entries [simp]: "fair_iter it \<Longrightarrow> length (entries it n m) = length m"
  by (simp add: entries_def keys_def)

lemma distinct_entries:
  "fair_iter it \<Longrightarrow> wf_map m \<Longrightarrow> distinct (map fst (entries it n m))"
  by (simp add: entries_def comp_def wf_map_def distinct_iter)

text \<open>Equality of two maps as \<open>reflect.DeepEqual\<close> computes it, whatever their layout.\<close>

definition map_eq :: "('k, 'v) gomap \<Rightarrow> ('k, 'v) gomap \<Rightarrow> bool" where
  "map_eq a b \<longleftrightarrow> (\<forall>k \<in> set (keys a @ keys b). map_of a k = map_of b k)"

lemma map_eq_iff: "map_eq a b \<longleftrightarrow> map_of a = map_of b"
proof
  assume "map_eq a b"
  then have "map_of a k = map_of b k" for k
    by (cases "k \<in> dom (map_of a) \<union> dom (map_of b)") (auto simp: map_eq_def domIff)
  then show "map_of a = map_of b" by (rule ext)
qed (simp add: map_eq_def)

section \<open>Stores\<close>

text \<open>
  Variables and objects that several places reach through a pointer live in a store: the
  address is the position in the list, allocation appends.
\<close>

type_synonym 'a store = "'a list"
type_synonym addr = nat

definition alloc :: "'a \<Rightarrow> 'a store \<Rightarrow> addr \<times> 'a store" where
  "alloc v st = (length st, st @ [v])"

definition deref :: "'a store \<Rightarrow> addr \<Rightarrow> 'a option" where
  "deref st a = (if a < length st then Some (st ! a) else None)"

definition assign :: "addr \<Rightarrow> 'a \<Rightarrow> 'a store \<Rightarrow> 'a store" where
  "assign a v st = st[a := v]"

lemma deref_alloc [simp]: "deref (snd (alloc v st)) (fst (alloc v st)) = Some v"
  by (simp add: alloc_def deref_def)

lemma deref_append: "a < length st \<Longrightarrow> deref (st @ ys) a = deref st a"
  by (simp add: deref_def nth_append)

lemma deref_assign: "deref (assign a v st) b = (if a = b \<and> a < length st then Some v else deref st b)"
  by (simp add: deref_def assign_def)

lemma length_assign [simp]: "length (assign a v st) = length st"
  by (simp add: assign_def)

lemma deref_eq_Some_iff: "deref st a = Some v \<longleftrightarrow> a < length st \<and> st ! a = v"
  by (simp add: deref_def)

end
