(* ===== verification/GoFloat.thy ===== *)
theory GoFloat
  imports Prelude Complex_Main
begin

text \<open>
  Go's \<open>float64\<close>: IEEE 754 binary64 with round-to-nearest-even, at the level of values. A finite
  number is its sign and its exact magnitude, so that \<open>-0\<close> and \<open>+0\<close> differ, and every
  arithmetic operation rounds the exact rational result. The conversions to and from
  integers and \<open>math.Ceil\<close> are those of the Go specification; where it leaves a conversion open
  (a value that does not fit), the value is a parameter. The compiler is taken not to fuse
  a product with a sum, as on amd64.
\<close>

section \<open>Rounding\<close>

text \<open>The binary logarithm, rounded down, of a positive integer and of a positive rational.\<close>

function int_log2 :: "int \<Rightarrow> int" where
  "int_log2 p = (if p < 2 then 0 else 1 + int_log2 (p div 2))"
  by pat_completeness auto
termination
  by (relation "measure nat") (auto intro: nat_mono_iff [THEN iffD2])

declare int_log2.simps [simp del]

definition ilog2 :: "rat \<Rightarrow> int" where
  "ilog2 x = (if 1 \<le> x then int_log2 \<lfloor>x\<rfloor> else - 1 - int_log2 (\<lceil>1 / x\<rceil> - 1))"

definition round_half_even :: "rat \<Rightarrow> int" where
  "round_half_even x =
     (let f = \<lfloor>x\<rfloor>; d = x - of_int f
      in if d < 1 / 2 then f else if 1 / 2 < d then f + 1 else if even f then f else f + 1)"

text \<open>The weight of the last bit of the result: 53 significant bits, or the subnormal step.\<close>

definition expo :: "rat \<Rightarrow> int" where
  "expo x = max (ilog2 x - 52) (- 1074)"

definition rnd :: "rat \<Rightarrow> rat" where
  "rnd x = (if x \<le> 0 then 0
            else of_int (round_half_even (x / 2 powi expo x)) * 2 powi expo x)"

lemma int_log2_nonneg: "0 \<le> int_log2 p"
proof (induction p rule: int_log2.induct)
  case (1 p)
  then show ?case by (subst int_log2.simps) auto
qed

lemma int_log2_bounds:
  "1 \<le> p \<Longrightarrow> 2 ^ nat (int_log2 p) \<le> p \<and> p < 2 ^ nat (int_log2 p + 1)"
proof (induction p rule: int_log2.induct)
  case (1 p)
  show ?case
  proof (cases "p < 2")
    case True
    with "1.prems" show ?thesis by (subst (1 2) int_log2.simps) auto
  next
    case False
    let ?k = "nat (int_log2 (p div 2))"
    from False "1.IH" have "2 ^ ?k \<le> p div 2" "p div 2 < 2 * 2 ^ ?k"
      by (auto simp: nat_add_distrib int_log2_nonneg)
    then have "2 * 2 ^ ?k \<le> p" "p < 2 * (2 * 2 ^ ?k)" by auto
    with False show ?thesis
      by (subst (1 2) int_log2.simps) (simp add: nat_add_distrib int_log2_nonneg)
  qed
qed

lemma int_log2_powi:
  assumes "1 \<le> p"
  shows "(2 :: rat) powi int_log2 p \<le> of_int p" and "of_int p + 1 \<le> (2 :: rat) powi (int_log2 p + 1)"
proof -
  from int_log2_bounds [OF assms]
  have "2 ^ nat (int_log2 p) \<le> p" "p + 1 \<le> 2 ^ nat (int_log2 p + 1)" by auto
  then have "of_int (2 ^ nat (int_log2 p)) \<le> (of_int p :: rat)"
    "of_int (p + 1) \<le> (of_int (2 ^ nat (int_log2 p + 1)) :: rat)"
    by (simp_all only: of_int_le_iff)
  with int_log2_nonneg [of p]
  show "(2 :: rat) powi int_log2 p \<le> of_int p" and "of_int p + 1 \<le> (2 :: rat) powi (int_log2 p + 1)"
    by (simp_all add: power_int_nonneg_exp)
qed

lemma ilog2_bounds:
  assumes "0 < x"
  shows "2 powi ilog2 x \<le> x" and "x < 2 powi (ilog2 x + 1)"
proof -
  have "2 powi ilog2 x \<le> x \<and> x < 2 powi (ilog2 x + 1)"
  proof (cases "1 \<le> x")
    case True
    have "of_int \<lfloor>x\<rfloor> \<le> x" "x < of_int \<lfloor>x\<rfloor> + 1" by linarith+
    moreover have "1 \<le> \<lfloor>x\<rfloor>" "ilog2 x = int_log2 \<lfloor>x\<rfloor>" using True by (simp_all add: ilog2_def)
    moreover note int_log2_powi [OF this(1)]
    ultimately show ?thesis by (auto intro: order_trans less_le_trans)
  next
    case False
    let ?p = "\<lceil>1 / x\<rceil> - 1"
    define k where "k = int_log2 ?p"
    from False assms have "1 < 1 / x" by simp
    then have "1 \<le> ?p" by linarith
    from int_log2_powi [OF this, folded k_def]
    have "2 powi k < 1 / x" "1 / x \<le> 2 powi (k + 1)" by linarith+
    then have "2 powi (- 1 - k) \<le> x" "x < 2 powi (- k)"
      using assms by (simp_all add: power_int_diff power_int_minus power_int_add field_simps)
    moreover have "ilog2 x = - 1 - k" using False by (simp add: ilog2_def k_def)
    ultimately show ?thesis by simp
  qed
  then show "2 powi ilog2 x \<le> x" and "x < 2 powi (ilog2 x + 1)" by auto
qed

lemma powi_less_imp: "(2 :: rat) powi a < 2 powi b \<Longrightarrow> a < b"
  using power_int_increasing [of b a "2 :: rat"] by (cases "a < b") auto

lemma ilog2_less: "0 < x \<Longrightarrow> x < 2 powi e \<Longrightarrow> ilog2 x < e"
  using ilog2_bounds(1) [of x] by (intro powi_less_imp) linarith

lemma ilog2_ge: "0 < x \<Longrightarrow> 2 powi e \<le> x \<Longrightarrow> e \<le> ilog2 x"
  using ilog2_bounds(2) [of x] powi_less_imp [of e "ilog2 x + 1"] by linarith

lemma ilog2_mono: "0 < x \<Longrightarrow> x \<le> y \<Longrightarrow> ilog2 x \<le> ilog2 y"
  using ilog2_bounds(1) [of x] by (intro ilog2_ge) auto

lemma expo_mono: "0 < x \<Longrightarrow> x \<le> y \<Longrightarrow> expo x \<le> expo y"
  using ilog2_mono [of x y] by (simp add: expo_def)

lemma round_half_even_int [simp]: "round_half_even (of_int n) = n"
  by (simp add: round_half_even_def)

lemma round_half_even_bounds: "\<lfloor>x\<rfloor> \<le> round_half_even x" "round_half_even x \<le> \<lfloor>x\<rfloor> + 1"
  by (simp_all add: round_half_even_def Let_def)

lemma round_half_even_error: "\<bar>of_int (round_half_even x) - x\<bar> \<le> 1 / 2"
proof -
  have "of_int \<lfloor>x\<rfloor> \<le> x" "x < of_int \<lfloor>x\<rfloor> + 1" by linarith+
  then show ?thesis by (auto simp: round_half_even_def Let_def abs_le_iff)
qed

lemma round_half_even_mono: "x \<le> y \<Longrightarrow> round_half_even x \<le> round_half_even y"
proof -
  assume le: "x \<le> y"
  then have f: "\<lfloor>x\<rfloor> \<le> \<lfloor>y\<rfloor>" by (rule floor_mono)
  show ?thesis
  proof (cases "\<lfloor>x\<rfloor> = \<lfloor>y\<rfloor>")
    case True
    with le show ?thesis by (auto simp: round_half_even_def Let_def)
  next
    case False
    with f round_half_even_bounds [of x] round_half_even_bounds [of y] show ?thesis by linarith
  qed
qed

lemma round_half_even_ge: "of_int n \<le> x \<Longrightarrow> n \<le> round_half_even x"
  using round_half_even_mono [of "of_int n" x] by simp

lemma round_half_even_le: "x \<le> of_int n \<Longrightarrow> round_half_even x \<le> n"
  using round_half_even_mono [of x "of_int n"] by simp

lemma rnd_0 [simp]: "rnd 0 = 0"
  by (simp add: rnd_def)

lemma rnd_nonneg [simp]: "0 \<le> rnd x"
  using round_half_even_ge [of 0 "x / 2 powi expo x"] by (simp add: rnd_def)


lemma scale_less: "0 < x \<Longrightarrow> x / 2 powi expo x < 2 ^ 53"
proof -
  assume x: "0 < x"
  have "x < 2 powi (ilog2 x + 1)" using x by (rule ilog2_bounds)
  also have "\<dots> \<le> 2 powi (expo x + 53)" by (rule power_int_increasing) (auto simp: expo_def)
  finally show ?thesis by (simp add: power_int_add field_simps)
qed

lemma scale_ge: "0 < x \<Longrightarrow> - 1074 < expo x \<Longrightarrow> 2 ^ 52 \<le> x / 2 powi expo x"
proof -
  assume x: "0 < x" and "- 1074 < expo x"
  then have e: "expo x = ilog2 x - 52" by (simp add: expo_def max_def split: if_splits)
  have "2 ^ 52 * 2 powi expo x = (2 :: rat) powi ilog2 x" by (simp add: e power_int_diff)
  also have "\<dots> \<le> x" using x by (rule ilog2_bounds)
  finally show ?thesis by (simp add: field_simps)
qed

lemma rnd_mono:
  assumes "x \<le> y"
  shows "rnd x \<le> rnd y"
proof (cases "x \<le> 0")
  case True
  then show ?thesis by (simp add: rnd_def [of x])
next
  case False
  with assms have x: "0 < x" and y: "0 < y" by auto
  let ?a = "expo x" and ?b = "expo y"
  from x assms have "?a \<le> ?b" by (rule expo_mono)
  then consider "?a = ?b" | "?a < ?b" by linarith
  then show ?thesis
  proof cases
    case 1
    then have "round_half_even (x / 2 powi ?a) \<le> round_half_even (y / 2 powi ?b)"
      using assms by (intro round_half_even_mono) (simp add: divide_right_mono)
    with 1 x y show ?thesis by (simp add: rnd_def)
  next
    case 2
    then have b: "- 1074 < ?b" by (simp add: expo_def)
    have "rnd x \<le> 2 ^ 53 * 2 powi ?a"
      using round_half_even_le [of "x / 2 powi ?a" "2 ^ 53"] scale_less [OF x] x
      by (simp add: rnd_def mult_right_mono)
    also have "\<dots> = 2 powi (?a + 53)" by (simp add: power_int_add)
    also have "\<dots> \<le> 2 powi (?b + 52)" using 2 by (intro power_int_increasing) auto
    also have "\<dots> = 2 ^ 52 * 2 powi ?b" by (simp add: power_int_add)
    also have "\<dots> \<le> rnd y"
      using round_half_even_ge [of "2 ^ 52" "y / 2 powi ?b"] scale_ge [OF y b] y
      by (simp add: rnd_def mult_right_mono)
    finally show ?thesis .
  qed
qed

lemma rnd_representable_aux:
  assumes "0 < k" "k < 2 ^ 53" "- 1074 \<le> e"
  shows "rnd (of_int k * 2 powi e) = of_int k * 2 powi e"
proof -
  define x :: rat where "x = of_int k * 2 powi e"
  have x: "0 < x" using assms by (simp add: x_def)
  have "of_int k < (2 :: rat) ^ 53"
    using assms(2) by (metis of_int_less_iff of_int_numeral of_int_power)
  then have "x < 2 powi (e + 53)"
    by (simp add: x_def power_int_add)
  with x have "ilog2 x < e + 53" by (rule ilog2_less)
  with assms(3) have e: "expo x \<le> e" by (simp add: expo_def)
  have "x / 2 powi expo x = of_int k * 2 powi (e - expo x)"
    by (simp add: x_def power_int_diff)
  also have "\<dots> = of_int (k * 2 ^ nat (e - expo x))"
    using e by (simp add: power_int_nonneg_exp)
  finally show ?thesis
    using x by (simp add: rnd_def x_def [symmetric] del: of_int_mult of_int_power) (simp add: field_simps)
qed

lemma rnd_representable:
  assumes "0 \<le> k" "k \<le> 2 ^ 53" "- 1074 \<le> e"
  shows "rnd (of_int k * 2 powi e) = of_int k * 2 powi e"
proof -
  consider "k = 0" | "0 < k" "k < 2 ^ 53" | "k = 2 ^ 53" using assms by linarith
  then show ?thesis
  proof cases
    case 3
    then have "of_int k * 2 powi e = (of_int (2 ^ 52) * 2 powi (e + 1) :: rat)"
      by (simp add: power_int_add)
    with assms rnd_representable_aux [of "2 ^ 52" "e + 1"] show ?thesis by simp
  qed (use assms rnd_representable_aux in auto)
qed

lemma rnd_of_int: "0 \<le> k \<Longrightarrow> k \<le> 2 ^ 53 \<Longrightarrow> rnd (of_int k) = of_int k"
  using rnd_representable [of k 0] by simp

lemma rnd_rnd [simp]: "rnd (rnd x) = rnd x"
proof (cases "x \<le> 0")
  case False
  then have x: "0 < x" by simp
  have "round_half_even (x / 2 powi expo x) \<le> 2 ^ 53"
    using scale_less [OF x] by (intro round_half_even_le) simp
  moreover have "0 \<le> round_half_even (x / 2 powi expo x)"
    using x by (intro round_half_even_ge) simp
  ultimately show ?thesis
    using x by (simp add: rnd_def [of x] rnd_representable expo_def)
qed (simp add: rnd_def)

lemma rnd_error:
  assumes "2 powi (- 1022) \<le> x"
  shows "\<bar>rnd x - x\<bar> \<le> x / 2 ^ 53"
proof -
  have x: "0 < x" using assms by (rule less_le_trans [rotated]) simp
  then have "- 1022 \<le> ilog2 x" using assms by (rule ilog2_ge)
  then have e: "expo x = ilog2 x - 52" by (simp add: expo_def)
  let ?u = "2 powi expo x :: rat"
  have "rnd x - x = (of_int (round_half_even (x / ?u)) - x / ?u) * ?u"
    using x by (simp add: rnd_def field_simps)
  then have "\<bar>rnd x - x\<bar> = \<bar>of_int (round_half_even (x / ?u)) - x / ?u\<bar> * ?u"
    by (simp add: abs_mult)
  also have "\<dots> \<le> 1 / 2 * ?u"
    by (intro mult_right_mono round_half_even_error) simp
  also have "\<dots> = 2 powi ilog2 x / 2 ^ 53" by (simp add: e power_int_diff)
  also have "\<dots> \<le> x / 2 ^ 53" using ilog2_bounds(1) [OF x] by simp
  finally show ?thesis .
qed


section \<open>Values\<close>

text \<open>\<open>Inf s\<close> and \<open>Fin s m\<close> carry the sign bit \<open>s\<close>; \<open>m\<close> is the magnitude.\<close>

datatype f64 = NaN | Inf bool | Fin bool rat

text \<open>A rounded magnitude of \<open>2 ^ 1024\<close> or more has no finite representation.\<close>

definition overflows :: "rat \<Rightarrow> bool" where
  "overflows r \<longleftrightarrow> 0 < r \<and> 1024 \<le> ilog2 r"

fun wf64 :: "f64 \<Rightarrow> bool" where
  "wf64 (Fin s m) \<longleftrightarrow> rnd m = m \<and> \<not> overflows m"
| "wf64 _ \<longleftrightarrow> True"

fun is_finite :: "f64 \<Rightarrow> bool" where
  "is_finite (Fin s m) = True"
| "is_finite _ = False"

fun val :: "f64 \<Rightarrow> rat" where
  "val (Fin s m) = (if s then - m else m)"
| "val _ = 0"

definition mk_f64 :: "bool \<Rightarrow> rat \<Rightarrow> f64" where
  "mk_f64 s m = (let r = rnd m in if overflows r then Inf s else Fin s r)"

text \<open>Round an exact result; \<open>z\<close> is the sign an exact zero takes.\<close>

definition of_rat64 :: "bool \<Rightarrow> rat \<Rightarrow> f64" where
  "of_rat64 z r = mk_f64 (if r = 0 then z else r < 0) \<bar>r\<bar>"

definition f64_of_int :: "int \<Rightarrow> f64" where
  "f64_of_int i = of_rat64 False (of_int i)"

abbreviation zero64 :: f64 where
  "zero64 \<equiv> Fin False 0"

fun fneg :: "f64 \<Rightarrow> f64" where
  "fneg NaN = NaN"
| "fneg (Inf s) = Inf (\<not> s)"
| "fneg (Fin s m) = Fin (\<not> s) m"

fun fadd :: "f64 \<Rightarrow> f64 \<Rightarrow> f64" where
  "fadd NaN _ = NaN"
| "fadd _ NaN = NaN"
| "fadd (Inf s) (Inf t) = (if s = t then Inf s else NaN)"
| "fadd (Inf s) (Fin _ _) = Inf s"
| "fadd (Fin _ _) (Inf t) = Inf t"
| "fadd (Fin s m) (Fin t n) = of_rat64 (s \<and> t) (val (Fin s m) + val (Fin t n))"

definition fsub :: "f64 \<Rightarrow> f64 \<Rightarrow> f64" where
  "fsub a b = fadd a (fneg b)"

fun fmul :: "f64 \<Rightarrow> f64 \<Rightarrow> f64" where
  "fmul NaN _ = NaN"
| "fmul _ NaN = NaN"
| "fmul (Inf s) (Inf t) = Inf (s \<noteq> t)"
| "fmul (Inf s) (Fin t n) = (if n = 0 then NaN else Inf (s \<noteq> t))"
| "fmul (Fin s m) (Inf t) = (if m = 0 then NaN else Inf (s \<noteq> t))"
| "fmul (Fin s m) (Fin t n) = mk_f64 (s \<noteq> t) (m * n)"

fun fdiv :: "f64 \<Rightarrow> f64 \<Rightarrow> f64" where
  "fdiv NaN _ = NaN"
| "fdiv _ NaN = NaN"
| "fdiv (Inf s) (Inf t) = NaN"
| "fdiv (Inf s) (Fin t n) = Inf (s \<noteq> t)"
| "fdiv (Fin s m) (Inf t) = Fin (s \<noteq> t) 0"
| "fdiv (Fin s m) (Fin t n) =
     (if n = 0 then (if m = 0 then NaN else Inf (s \<noteq> t)) else mk_f64 (s \<noteq> t) (m / n))"

fun flt :: "f64 \<Rightarrow> f64 \<Rightarrow> bool" where
  "flt NaN _ = False"
| "flt _ NaN = False"
| "flt (Inf s) (Inf t) = (s \<and> \<not> t)"
| "flt (Inf s) (Fin _ _) = s"
| "flt (Fin _ _) (Inf t) = (\<not> t)"
| "flt (Fin s m) (Fin t n) = (val (Fin s m) < val (Fin t n))"

text \<open>\<open>math.Ceil\<close>; its result is always representable.\<close>

fun fceil :: "f64 \<Rightarrow> f64" where
  "fceil (Fin s m) = Fin s (of_int (if s then \<lfloor>m\<rfloor> else \<lceil>m\<rceil>))"
| "fceil x = x"

text \<open>
  \<open>int32(x)\<close> truncates towards zero. Where the result does not fit in 32 bits, and for NaN
  and the infinities, the Go specification leaves the value to the implementation: it is
  \<open>oob x\<close>.
\<close>

fun int32_of_f64 :: "(f64 \<Rightarrow> int32) \<Rightarrow> f64 \<Rightarrow> int32" where
  "int32_of_f64 oob (Fin s m) =
     (let i = (if s then - \<lfloor>m\<rfloor> else \<lfloor>m\<rfloor>)
      in if - (2 ^ 31) \<le> i \<and> i < 2 ^ 31 then word_of_int i else oob (Fin s m))"
| "int32_of_f64 oob x = oob x"

lemma overflows_iff: "overflows r \<longleftrightarrow> 2 ^ 1024 \<le> r"
proof
  assume "overflows r"
  then have "0 < r" "1024 \<le> ilog2 r" by (simp_all add: overflows_def)
  from this(2) have "(2 :: rat) powi 1024 \<le> 2 powi ilog2 r"
    by (rule power_int_increasing) simp
  also have "\<dots> \<le> r" using \<open>0 < r\<close> by (rule ilog2_bounds)
  finally show "2 ^ 1024 \<le> r" by (simp only: power_int_numeral)
next
  assume r: "2 ^ 1024 \<le> r"
  then have "0 < r" by (rule less_le_trans [rotated]) simp
  moreover from this r have "1024 \<le> ilog2 r" by (intro ilog2_ge) (simp_all only: power_int_numeral)
  ultimately show "overflows r" by (simp add: overflows_def)
qed

lemma not_overflows_small: "r < 2 powi e \<Longrightarrow> e \<le> 1024 \<Longrightarrow> \<not> overflows r"
  using ilog2_less [of r e] by (auto simp: overflows_def)

lemma not_overflows_0 [simp]: "\<not> overflows 0"
  by (simp add: overflows_def)

lemma wf64_mk_f64 [simp]: "wf64 (mk_f64 s m)"
  by (simp add: mk_f64_def Let_def)

lemma wf64_of_rat64 [simp]: "wf64 (of_rat64 z r)"
  by (simp add: of_rat64_def)

lemma wf64_of_int [simp]: "wf64 (f64_of_int i)"
  by (simp add: f64_of_int_def)

lemma wf64_zero [simp]: "wf64 (Fin s 0)"
  by simp

lemma wf64_fneg [simp]: "wf64 (fneg x) = wf64 x"
  by (cases x) auto

lemma wf64_fadd [simp]: "wf64 (fadd a b)"
  by (cases "(a, b)" rule: fadd.cases) (auto simp del: val.simps)

lemma wf64_fsub [simp]: "wf64 (fsub a b)"
  by (simp add: fsub_def)

lemma wf64_fmul [simp]: "wf64 (fmul a b)"
  by (cases "(a, b)" rule: fmul.cases) (auto simp del: wf64.simps(1))

lemma wf64_fdiv [simp]: "wf64 (fdiv a b)"
  by (cases "(a, b)" rule: fdiv.cases) (auto simp del: wf64.simps(1))

lemma wf64_nonneg: "wf64 (Fin s m) \<Longrightarrow> 0 \<le> m"
  using rnd_nonneg [of m] by simp

lemma mk_f64_exact: "wf64 (Fin s m) \<Longrightarrow> mk_f64 t m = Fin t m"
  by (simp add: mk_f64_def)

lemma mk_f64_0 [simp]: "mk_f64 s 0 = Fin s 0"
  by (simp add: mk_f64_def)

lemma mk_f64_of_int:
  assumes "0 \<le> k" and "k \<le> 2 ^ 53"
  shows "mk_f64 s (of_int k) = Fin s (of_int k)"
proof -
  have "of_int k \<le> (2 :: rat) ^ 53"
    using assms(2) by (metis of_int_le_iff of_int_numeral of_int_power)
  then have "of_int k < (2 :: rat) powi 54" by simp
  then have "\<not> overflows (of_int k)" by (rule not_overflows_small) simp
  then show ?thesis using assms by (simp add: mk_f64_def rnd_of_int)
qed

lemma f64_of_int_exact:
  assumes "0 \<le> k" and "k \<le> 2 ^ 53"
  shows "f64_of_int k = Fin False (of_int k)"
  using mk_f64_of_int [OF assms, of False] assms(1) by (simp add: f64_of_int_def of_rat64_def)

lemma fdiv_fin: "0 < n \<Longrightarrow> fdiv (Fin s m) (Fin t n) = mk_f64 (s \<noteq> t) (m / n)"
  by simp

lemma sint_int32_of_f64:
  assumes "0 \<le> m" and "m < 2 ^ 31"
  shows "sint (int32_of_f64 oob (Fin False m)) = \<lfloor>m\<rfloor>"
proof -
  have "\<lfloor>m\<rfloor> < 2 ^ 31" using assms by (simp add: floor_less_iff)
  moreover have "0 \<le> \<lfloor>m\<rfloor>" using assms by simp
  ultimately show ?thesis by (simp add: sint32_of_int)
qed

end
