(* ===== verification/GoStrings.thy ===== *)
theory GoStrings
  imports GoFloat "HOL-Library.Char_ord" "HOL-Library.List_Lexorder"
begin

text \<open>
  The parts of Go's \<open>strings\<close>, \<open>strconv\<close> and \<open>encoding/json\<close> the program uses. A Go string is its
  bytes, so a \<open>string\<close> here is a list of bytes.
\<close>

section \<open>strings.Split and strings.Join\<close>

fun split :: "char \<Rightarrow> string \<Rightarrow> string list" where
  "split c [] = [[]]"
| "split c (x # xs) =
     (if x = c then [] # split c xs
      else (case split c xs of [] \<Rightarrow> [[x]] | w # ws \<Rightarrow> (x # w) # ws))"

fun join :: "char \<Rightarrow> string list \<Rightarrow> string" where
  "join c [] = []"
| "join c [w] = w"
| "join c (w # ws) = w @ c # join c ws"

lemma split_nonempty [simp]: "split c s \<noteq> []"
  by (induction s) (auto split: list.splits)

lemma split_absent: "c \<notin> set s \<Longrightarrow> split c s = [s]"
  by (induction s) auto

lemma split_sep: "split c (a @ c # b) = split c a @ split c b"
  by (induction a) (auto split: list.splits)

lemma join_Cons: "ws \<noteq> [] \<Longrightarrow> join c (w # ws) = w @ c # join c ws"
  by (cases ws) auto

lemma join_split [simp]: "join c (split c s) = s"
proof (induction s)
  case (Cons x xs)
  obtain w ws where "split c xs = w # ws" by (meson neq_Nil_conv split_nonempty)
  with Cons show ?case by (cases ws) (auto simp: join_Cons)
qed simp

lemma split_butlast_absent: "c \<notin> set b \<Longrightarrow> join c (butlast (split c (a @ c # b))) = a"
  by (simp add: split_sep split_absent)

lemma split_last_absent: "c \<notin> set b \<Longrightarrow> last (split c (a @ c # b)) = b"
  by (simp add: split_sep split_absent)

lemma sep_unique:
  fixes c :: char
  assumes "a @ c # b = a' @ c # b'" and "c \<notin> set a" and "c \<notin> set a'"
  shows "a = a' \<and> b = b'"
proof -
  have "split c a @ split c b = split c a' @ split c b'"
    using assms(1) by (metis split_sep)
  with assms(2,3) have "a = a'" by (simp add: split_absent)
  with assms(1) show ?thesis by simp
qed

section \<open>strconv.Atoi\<close>

definition digit :: "char \<Rightarrow> int option" where
  "digit c = (let n = of_char c in if 48 \<le> n \<and> n \<le> 57 then Some (n - 48) else None)"

fun decimal :: "int \<Rightarrow> string \<Rightarrow> int option" where
  "decimal acc [] = Some acc"
| "decimal acc (c # cs) = (case digit c of None \<Rightarrow> None | Some d \<Rightarrow> decimal (10 * acc + d) cs)"

fun sign_of :: "string \<Rightarrow> bool \<times> string" where
  "sign_of (c # cs) = (if c = CHR ''-'' then (True, cs) else if c = CHR ''+'' then (False, cs) else (False, c # cs))"
| "sign_of [] = (False, [])"

definition Atoi :: "string \<Rightarrow> int go" where
  "Atoi s =
     (let (neg, ds) = sign_of s
      in if ds = [] then Err (NumError s)
         else (case decimal 0 ds of
                 None \<Rightarrow> Err (NumError s)
               | Some n \<Rightarrow> (let i = (if neg then - n else n)
                            in if in64 i then Ret i else Err (NumError s))))"

lemma Atoi_no_panic: "Atoi s \<noteq> Panic p"
  by (simp add: Atoi_def Let_def split: prod.splits option.splits)

lemma Atoi_in64: "Atoi s = Ret i \<Longrightarrow> in64 i"
  by (auto simp: Atoi_def Let_def split: prod.splits option.splits if_splits)

section \<open>strconv.ParseFloat\<close>

definition lower :: "char \<Rightarrow> char" where
  "lower c = (let n = of_char c :: nat in if 65 \<le> n \<and> n \<le> 90 then char_of (n + 32) else c)"

definition hex_digit :: "char \<Rightarrow> int option" where
  "hex_digit c =
     (let n = of_char (lower c)
      in if 97 \<le> n \<and> n \<le> 102 then Some (n - 87) else digit c)"

record mant =
  saw_dot :: bool
  saw_digits :: bool
  underscores :: bool
  mantissa :: int
  places :: int

text \<open>The mantissa loop of \<open>readFloat\<close>: what it has read, and the rest of the input.\<close>

fun scan_mant :: "bool \<Rightarrow> mant \<Rightarrow> string \<Rightarrow> mant \<times> string" where
  "scan_mant hex m [] = (m, [])"
| "scan_mant hex m (c # cs) =
     (if c = CHR ''_'' then scan_mant hex (m\<lparr>underscores := True\<rparr>) cs
      else if c = CHR ''.'' then
        (if saw_dot m then (m, c # cs) else scan_mant hex (m\<lparr>saw_dot := True\<rparr>) cs)
      else (case (if hex then hex_digit c else digit c) of
              None \<Rightarrow> (m, c # cs)
            | Some d \<Rightarrow>
                scan_mant hex
                  (m\<lparr>saw_digits := True, mantissa := (if hex then 16 else 10) * mantissa m + d,
                     places := (if saw_dot m then places m + 1 else places m)\<rparr>) cs))"

text \<open>The exponent's digits; the value stops growing at 10000, as in \<open>readFloat\<close>.\<close>

fun scan_exp :: "int \<Rightarrow> bool \<Rightarrow> string \<Rightarrow> int \<times> bool \<times> string" where
  "scan_exp e u [] = (e, u, [])"
| "scan_exp e u (c # cs) =
     (if c = CHR ''_'' then scan_exp e True cs
      else (case digit c of
              None \<Rightarrow> (e, u, c # cs)
            | Some d \<Rightarrow> scan_exp (if e < 10000 then 10 * e + d else e) u cs))"

text \<open>\<open>underscoreOK\<close>: an underscore stands between digits, or between a base prefix and a digit.\<close>

datatype saw = Start | Digit | Underscore | Other

fun underscores_ok :: "bool \<Rightarrow> saw \<Rightarrow> string \<Rightarrow> bool" where
  "underscores_ok hex s [] \<longleftrightarrow> s \<noteq> Underscore"
| "underscores_ok hex s (c # cs) =
     (if (if hex then hex_digit c else digit c) \<noteq> None then underscores_ok hex Digit cs
      else if c = CHR ''_'' then s = Digit \<and> underscores_ok hex Underscore cs
      else s \<noteq> Underscore \<and> underscores_ok hex Other cs)"

definition underscoreOK :: "string \<Rightarrow> bool" where
  "underscoreOK s =
     (case snd (sign_of s) of
        z # x # cs \<Rightarrow>
          (if z = CHR ''0'' \<and> lower x \<in> set ''box'' then underscores_ok (lower x = CHR ''x'') Digit cs
           else underscores_ok False Start (z # x # cs))
      | r \<Rightarrow> underscores_ok False Start r)"

definition special_float :: "string \<Rightarrow> f64 option" where
  "special_float s =
     (let (neg, r) = sign_of s; l = List.map lower r
      in if l = ''inf'' \<or> l = ''infinity'' then Some (Inf neg)
         else if List.map lower s = ''nan'' then Some NaN
         else None)"

definition hex_prefix :: "string \<Rightarrow> bool \<times> string" where
  "hex_prefix r =
     (case r of
        z # x # c # cs \<Rightarrow> (if z = CHR ''0'' \<and> lower x = CHR ''x'' then (True, c # cs) else (False, r))
      | _ \<Rightarrow> (False, r))"

text \<open>The number \<open>readFloat\<close> reads, if the whole input is one: its sign and exact magnitude.\<close>

definition read_float :: "string \<Rightarrow> (bool \<times> rat) option" where
  "read_float s =
     (let (neg, r) = sign_of s;
          (hex, r) = hex_prefix r;
          (m, r) = scan_mant hex \<lparr>saw_dot = False, saw_digits = False, underscores = False,
                                   mantissa = 0, places = 0\<rparr> r;
          base = (if hex then 16 else 10 :: rat);
          exact = (\<lambda>e. of_int (mantissa m) * base powi (- places m) * (if hex then 2 else 10) powi e)
      in if \<not> saw_digits m then None
         else (case r of
                 [] \<Rightarrow> if hex \<or> (underscores m \<and> \<not> underscoreOK s) then None else Some (neg, exact 0)
               | c # cs \<Rightarrow>
                   if lower c \<noteq> (if hex then CHR ''p'' else CHR ''e'') then None
                   else (let (eneg, ds) = sign_of cs
                         in case ds of
                              [] \<Rightarrow> None
                            | d # _ \<Rightarrow>
                                if digit d = None then None
                                else (let (e, u, rest) = scan_exp 0 (underscores m) ds
                                      in if rest \<noteq> [] \<or> (u \<and> \<not> underscoreOK s) then None
                                         else Some (neg, exact (if eneg then - e else e))))))"

definition ParseFloat :: "string \<Rightarrow> f64 go" where
  "ParseFloat s =
     (case special_float s of
        Some x \<Rightarrow> Ret x
      | None \<Rightarrow>
          (case read_float s of
             None \<Rightarrow> Err (NumError s)
           | Some (neg, q) \<Rightarrow>
               (case mk_f64 neg q of Inf _ \<Rightarrow> Err (NumError s) | x \<Rightarrow> Ret x)))"

lemma ParseFloat_no_panic: "ParseFloat s \<noteq> Panic p"
  by (simp add: ParseFloat_def split: option.splits prod.splits f64.splits)

lemma ParseFloat_wf: "ParseFloat s = Ret x \<Longrightarrow> wf64 x"
proof -
  have "wf64 x" if "mk_f64 neg q = x" for neg q
    using wf64_mk_f64 [of neg q] that by simp
  then show "ParseFloat s = Ret x \<Longrightarrow> wf64 x"
    by (auto simp: ParseFloat_def special_float_def Let_def split: option.splits prod.splits f64.splits if_splits)
qed

section \<open>A string map read into a struct of strings\<close>

text \<open>
  \<open>json.Marshal\<close> writes the map's keys in byte order and \<open>json.Unmarshal\<close> stores each into the
  field whose name it is up to case, a later key over an earlier one; a field no key names keeps
  its zero value. Case folding identifies the ASCII cases, and the long s and the Kelvin sign
  with s and k. The strings are valid UTF-8, as every string of an API object is.
\<close>

fun json_fold :: "string \<Rightarrow> string" where
  "json_fold [] = []"
| "json_fold (a # r) =
     (case r of
        b # r' \<Rightarrow>
          if a = CHR 0xC5 \<and> b = CHR 0xBF then CHR ''s'' # json_fold r'
          else (case r' of
                  c # r'' \<Rightarrow>
                    if a = CHR 0xE2 \<and> b = CHR 0x84 \<and> c = CHR 0xAA then CHR ''k'' # json_fold r''
                    else lower a # json_fold r
                | [] \<Rightarrow> lower a # json_fold r)
      | [] \<Rightarrow> [lower a])"

definition json_field :: "(string, string) gomap \<Rightarrow> string \<Rightarrow> string" where
  "json_field m name =
     fold (\<lambda>(k, v) acc. if json_fold k = name then v else acc) (sort_key fst m) []"

end
