(* ===== verification/Basetype.thy ===== *)
theory Basetype
  imports GoStrings
begin

text \<open>
  common/basetype and the key functions of utils/common.go: metrics and models as the API
  object carries them, and the string keys under which every map of the program files them.
\<close>

record ScaleDownConf =
  Threshold :: string
  Duration :: int

record Metric =
  scaleDownConf :: ScaleDownConf
  Target :: string
  Weight :: int32
  Name :: string
  Unit :: string
  Query :: string

text \<open>\<open>Attr\<close> is \<open>None\<close> for a nil map.\<close>

record Model =
  Type :: string
  NeedTrain :: bool
  UpdateInterval :: int
  Attr :: "(string, string) gomap option"

abbreviation dollar :: char where
  "dollar \<equiv> CHR ''$''"

definition NoModelKey :: "Metric \<Rightarrow> string" where
  "NoModelKey m = Name m @ ''$'' @ Unit m @ ''$'' @ Query m"

definition WithModelKey :: "Metric \<Rightarrow> string \<Rightarrow> string" where
  "WithModelKey m modelType = NoModelKey m @ ''$'' @ modelType"

definition GetWithModelKey :: "string \<Rightarrow> string \<Rightarrow> string" where
  "GetWithModelKey noModelKey model = noModelKey @ ''$'' @ model"

definition GetNoModelKey :: "string \<Rightarrow> string" where
  "GetNoModelKey withModelKey = join dollar (butlast (split dollar withModelKey))"

definition GetModelType :: "string \<Rightarrow> string" where
  "GetModelType withModelType = last (split dollar withModelType)"

text \<open>\<open>reflect.DeepEqual\<close> on models: a nil map differs from an empty one.\<close>

definition Model_DeepEqual :: "Model \<Rightarrow> Model \<Rightarrow> bool" where
  "Model_DeepEqual a b \<longleftrightarrow>
     Type a = Type b \<and> NeedTrain a = NeedTrain b \<and> UpdateInterval a = UpdateInterval b \<and>
     (case (Attr a, Attr b) of
        (None, None) \<Rightarrow> True
      | (Some x, Some y) \<Rightarrow> map_eq x y
      | _ \<Rightarrow> False)"

lemma Model_DeepEqual_refl [simp]: "Model_DeepEqual a a"
  by (simp add: Model_DeepEqual_def map_eq_iff split: option.splits)

section \<open>Keys\<close>

text \<open>A model type with no separator in it: the two the program knows are such.\<close>

definition plain :: "string \<Rightarrow> bool" where
  "plain s \<longleftrightarrow> dollar \<notin> set s"

lemma GetNoModelKey_sep: "plain t \<Longrightarrow> GetNoModelKey (k @ dollar # t) = k"
  by (simp add: GetNoModelKey_def plain_def split_butlast_absent)

lemma GetModelType_sep: "plain t \<Longrightarrow> GetModelType (k @ dollar # t) = t"
  by (simp add: GetModelType_def plain_def split_last_absent)

lemma plain_pieces: "w \<in> set (split dollar s) \<Longrightarrow> plain w"
  by (induction s arbitrary: w) (auto simp: plain_def split: if_splits list.splits)

lemma plain_GetModelType [simp]: "plain (GetModelType s)"
  unfolding GetModelType_def by (rule plain_pieces [where s = s]) simp

lemma WithModelKey_eq: "WithModelKey m t = GetWithModelKey (NoModelKey m) t"
  by (simp add: WithModelKey_def GetWithModelKey_def)

lemma readers_GetWithModelKey [simp]:
  "plain t \<Longrightarrow> GetNoModelKey (GetWithModelKey k t) = k"
  "plain t \<Longrightarrow> GetModelType (GetWithModelKey k t) = t"
  by (simp_all add: GetWithModelKey_def GetNoModelKey_sep GetModelType_sep)

lemma GetWithModelKey_inject:
  "plain t \<Longrightarrow> plain t' \<Longrightarrow> GetWithModelKey k t = GetWithModelKey k' t' \<longleftrightarrow> k = k' \<and> t = t'"
  by (metis readers_GetWithModelKey)

text \<open>C40: a key built from a metric key and a model type is taken apart again by the two readers
  exactly when the model type holds no separator.\<close>

theorem key_roundtrip:
  "GetNoModelKey (GetWithModelKey k t) = k \<and> GetModelType (GetWithModelKey k t) = t \<longleftrightarrow> plain t"
  by (metis plain_GetModelType readers_GetWithModelKey)

text \<open>The key of a metric determines its name, its unit and its query when neither the name
  nor the unit holds a separator, so that two different metrics then never share a collector.\<close>

lemma NoModelKey_injective:
  assumes "plain (Name m)" "plain (Unit m)" "plain (Name m')" "plain (Unit m')"
    and "NoModelKey m = NoModelKey m'"
  shows "Name m = Name m' \<and> Unit m = Unit m' \<and> Query m = Query m'"
proof -
  have eq: "Name m @ dollar # (Unit m @ dollar # Query m) = Name m' @ dollar # (Unit m' @ dollar # Query m')"
    using assms(5) by (simp add: NoModelKey_def)
  from sep_unique [OF eq] assms(1,3)
  have "Name m = Name m'" and tail: "Unit m @ dollar # Query m = Unit m' @ dollar # Query m'"
    by (auto simp: plain_def)
  with sep_unique [OF tail] assms(2,4) show ?thesis by (auto simp: plain_def)
qed

definition sample_metric :: "string \<Rightarrow> string \<Rightarrow> int32 \<Rightarrow> Metric" where
  "sample_metric name target weight =
     \<lparr>scaleDownConf = \<lparr>Threshold = ''100'', Duration = 500\<rparr>, Target = target, Weight = weight,
      Name = name, Unit = ''num'', Query = ''sum(delta(http_requests_total[30s]))''\<rparr>"

end
