(* ===== verification/K8s.thy ===== *)
theory K8s
  imports Prelude
begin

text \<open>
  clients/k8s/k8s_client.go. The Kubernetes client libraries and the cluster behind them are not
  part of the repository: the library calls of \<open>newClient\<close> and the scale API are parameters, with
  opaque handles for the values the code only passes on. The state of the cluster has the type
  \<open>'c\<close>; a call can change it, since others act on the cluster too.
\<close>

type_synonym handle = nat

record CrossVersionObjectReference =
  Kind :: string
  refName :: string
  APIVersion :: string

text \<open>The scale subresource: the name of its object, its \<open>Spec.Replicas\<close>, and all its other fields as
  one opaque part.\<close>

record Scale =
  scale_name :: string
  Replicas :: int32
  other_fields :: handle

text \<open>\<open>ScalesGetter\<close>: the namespace, the group and resource, and the name (or the object).\<close>

record 'c ScalesGetter =
  scales_Get :: "'c \<Rightarrow> string \<Rightarrow> string \<times> string \<Rightarrow> string \<Rightarrow> (gerr + Scale) \<times> 'c"
  scales_Update :: "'c \<Rightarrow> string \<Rightarrow> string \<times> string \<Rightarrow> Scale \<Rightarrow> (gerr + Scale) \<times> 'c"

record 'c Client =
  Config :: handle
  ClientSet :: handle
  ScaleGetter :: "'c ScalesGetter"

record 'c k8s_libs =
  BuildConfigFromFlags :: "gerr + handle"
  NewForConfig :: "handle \<Rightarrow> gerr + handle"
  GetAPIGroupResources :: "handle \<Rightarrow> gerr + handle"
  scale_NewForConfig :: "handle \<Rightarrow> handle \<Rightarrow> handle \<Rightarrow> gerr + 'c ScalesGetter"
  group_of :: "string \<Rightarrow> string"

text \<open>The package's two variables.\<close>

record 'c k8s_state =
  GlobalClient :: "'c Client option"
  once_done :: bool

definition newClient :: "'c k8s_libs \<Rightarrow> 'c k8s_state \<Rightarrow> unit go \<times> 'c k8s_state" where
  "newClient lib st =
     (case BuildConfigFromFlags lib of Inl e \<Rightarrow> (Err e, st) | Inr conf \<Rightarrow>
      (case NewForConfig lib conf of Inl e \<Rightarrow> (Err e, st) | Inr clientSet \<Rightarrow>
       (case GetAPIGroupResources lib clientSet of Inl e \<Rightarrow> (Err e, st) | Inr resources \<Rightarrow>
        (case scale_NewForConfig lib conf resources clientSet of Inl e \<Rightarrow> (Err e, st) | Inr getter \<Rightarrow>
         (Ret (), st\<lparr>GlobalClient := Some \<lparr>Config = conf, ClientSet = clientSet, ScaleGetter = getter\<rparr>\<rparr>)))))"

text \<open>\<open>sync.Once\<close> counts a call as done even when the function it ran failed.\<close>

definition NewClient :: "'c k8s_libs \<Rightarrow> 'c k8s_state \<Rightarrow> unit go \<times> 'c k8s_state" where
  "NewClient lib st =
     (if once_done st then (Ret (), st)
      else (let (r, st') = newClient lib st in (r, st'\<lparr>once_done := True\<rparr>)))"

text \<open>
  \<open>NewScaleClient\<close>, which nothing in the program calls: a scale client whose mapper discovers the groups when
  it is used. \<open>discover\<close> is the library's constructor with that mapper.
\<close>

definition NewScaleClient ::
  "(handle \<Rightarrow> handle \<Rightarrow> gerr + 'c ScalesGetter) \<Rightarrow> 'c Client option \<Rightarrow> 'c ScalesGetter go" where
  "NewScaleClient discover c =
     (case c of
        None \<Rightarrow> Panic NilDereference
      | Some c \<Rightarrow> (case discover (Config c) (ClientSet c) of Inl e \<Rightarrow> Err e | Inr scaleClient \<Rightarrow> Ret scaleClient))"

text \<open>
  \<open>GetReplica\<close> on its receiver \<open>c\<close>, \<open>None\<close> for a nil pointer; \<open>SetReplica\<close> reads the package's
  client whatever its receiver is.
\<close>

definition GetReplica ::
  "'c k8s_libs \<Rightarrow> 'c Client option \<Rightarrow> string \<Rightarrow> CrossVersionObjectReference \<Rightarrow> 'c \<Rightarrow> int32 go \<times> 'c" where
  "GetReplica lib c namespace ref cl =
     (case c of
        None \<Rightarrow> (Panic NilDereference, cl)
      | Some client \<Rightarrow>
          (case scales_Get (ScaleGetter client) cl namespace (group_of lib (APIVersion ref), Kind ref) (refName ref) of
             (Inl e, cl') \<Rightarrow> (Err e, cl')
           | (Inr scaleObj, cl') \<Rightarrow> (Ret (Replicas scaleObj), cl')))"

definition SetReplica ::
  "'c k8s_libs \<Rightarrow> 'c k8s_state \<Rightarrow> string \<Rightarrow> CrossVersionObjectReference \<Rightarrow> int32 \<Rightarrow> 'c \<Rightarrow> unit go \<times> 'c" where
  "SetReplica lib st namespace ref replica cl =
     (case GlobalClient st of
        None \<Rightarrow> (Panic NilDereference, cl)
      | Some client \<Rightarrow>
          (let gr = (group_of lib (APIVersion ref), Kind ref)
           in case scales_Get (ScaleGetter client) cl namespace gr (refName ref) of
                (Inl e, cl') \<Rightarrow> (Err e, cl')
              | (Inr scaleObj, cl') \<Rightarrow>
                  (case scales_Update (ScaleGetter client) cl' namespace gr (scaleObj\<lparr>Replicas := replica\<rparr>) of
                     (Inl e, cl'') \<Rightarrow> (Err e, cl'')
                   | (Inr _, cl'') \<Rightarrow> (Ret (), cl''))))"

lemma newClient_Ret: "newClient lib st = (Ret (), st') \<Longrightarrow> GlobalClient st' \<noteq> None"
  by (auto simp: newClient_def split: sum.splits)

lemma newClient_no_Ret: "newClient lib st = (r, st') \<Longrightarrow> r \<noteq> Ret () \<Longrightarrow> st' = st"
  by (auto simp: newClient_def split: sum.splits)

lemma NewClient_once: "once_done (snd (NewClient lib st))"
  by (simp add: NewClient_def split: prod.splits)

text \<open>Calling \<open>NewClient\<close> any number of times.\<close>

fun NewClient_calls :: "'c k8s_libs list \<Rightarrow> 'c k8s_state \<Rightarrow> unit go list \<times> 'c k8s_state" where
  "NewClient_calls [] st = ([], st)"
| "NewClient_calls (lib # libs) st =
     (let (r, st1) = NewClient lib st; (rs, st2) = NewClient_calls libs st1 in (r # rs, st2))"

lemma NewClient_calls_done:
  "once_done st \<Longrightarrow> NewClient_calls libs st = (replicate (length libs) (Ret ()), st)"
  by (induction libs) (auto simp: NewClient_def)


section \<open>The documented behaviour of the scale API\<close>

text \<open>
  What the code relies on: a read of an existing object returns its replica count and changes
  nothing, an update of an object that was read stores the count it carries and changes no
  other object. \<open>view\<close> is the replica count of every object of the cluster. The hypothesis describes
  a cluster that nothing else writes to during the call.
\<close>

type_synonym target = "string \<times> (string \<times> string) \<times> string"

definition scale_service :: "'c ScalesGetter \<Rightarrow> ('c \<Rightarrow> target \<Rightarrow> int32 option) \<Rightarrow> bool" where
  "scale_service g view \<longleftrightarrow>
     (\<forall>cl ns gr n r. view cl (ns, gr, n) = Some r \<longrightarrow>
        (\<exists>sc. scales_Get g cl ns gr n = (Inr sc, cl) \<and> Replicas sc = r \<and> scale_name sc = n)) \<and>
     (\<forall>cl ns gr sc. view cl (ns, gr, scale_name sc) \<noteq> None \<longrightarrow>
        (\<exists>sc' cl'. scales_Update g cl ns gr sc = (Inr sc', cl') \<and>
           view cl' = (view cl)((ns, gr, scale_name sc) \<mapsto> Replicas sc)))"

definition target_of :: "'c k8s_libs \<Rightarrow> string \<Rightarrow> CrossVersionObjectReference \<Rightarrow> target" where
  "target_of lib namespace ref = (namespace, (group_of lib (APIVersion ref), Kind ref), refName ref)"

text \<open>A client is set up and its cluster serves the target.\<close>

definition serving ::
  "'c k8s_libs \<Rightarrow> 'c k8s_state \<Rightarrow> ('c \<Rightarrow> target \<Rightarrow> int32 option) \<Rightarrow> bool" where
  "serving lib st view \<longleftrightarrow>
     (\<exists>client. GlobalClient st = Some client \<and> scale_service (ScaleGetter client) view)"

lemma GetReplica_serving:
  assumes "serving lib st view" and "view cl (target_of lib ns ref) = Some r"
  shows "GetReplica lib (GlobalClient st) ns ref cl = (Ret r, cl)"
  using assms unfolding serving_def scale_service_def GetReplica_def target_of_def by fastforce

lemma SetReplica_serving:
  assumes "serving lib st view" and "view cl (target_of lib ns ref) = Some r"
  shows "\<exists>cl'. SetReplica lib st ns ref n cl = (Ret (), cl') \<and>
               view cl' = (view cl)(target_of lib ns ref \<mapsto> n)"
proof -
  obtain client where c: "GlobalClient st = Some client" "scale_service (ScaleGetter client) view"
    using assms(1) by (auto simp: serving_def)
  let ?gr = "(group_of lib (APIVersion ref), Kind ref)"
  from c(2) assms(2) obtain sc where sc: "scales_Get (ScaleGetter client) cl ns ?gr (refName ref) = (Inr sc, cl)"
    "scale_name sc = refName ref"
    unfolding scale_service_def target_of_def by blast
  have "view cl (ns, ?gr, scale_name (sc\<lparr>Replicas := n\<rparr>)) \<noteq> None"
    using assms(2) sc(2) by (simp add: target_of_def)
  with c(2) obtain sc' cl' where "scales_Update (ScaleGetter client) cl ns ?gr (sc\<lparr>Replicas := n\<rparr>) = (Inr sc', cl')"
    "view cl' = (view cl)((ns, ?gr, refName ref) \<mapsto> n)"
    unfolding scale_service_def using sc(2)
    by (metis (mono_tags) Scale.select_convs(2) Scale.surjective Scale.update_convs(2) Scale.select_convs(1))
  with c(1) sc(1) show ?thesis by (simp add: SetReplica_def target_of_def Let_def)
qed

section \<open>Property\<close>

text \<open>C23: when the first attempt to set the client up fails, its error is returned once only: every later
  call reports success, whatever the libraries would answer by then, the client stays nil, and
  reading a replica count through it panics.\<close>

theorem NewClient_failure_sticks:
  assumes "\<not> once_done st" and "GlobalClient st = None" and "fst (newClient lib st) \<noteq> Ret ()"
    and "NewClient_calls (lib # libs) st = (rs, st')"
  shows "rs = fst (newClient lib st) # replicate (length libs) (Ret ()) \<and> GlobalClient st' = None \<and>
    (\<forall>lib ns ref cl. GetReplica lib (GlobalClient st') ns ref cl = (Panic NilDereference, cl))"
proof -
  obtain r st1 where r: "newClient lib st = (r, st1)" by force
  with assms(3) have "st1 = st" using newClient_no_Ret by auto
  with r assms(1,4) have "rs = r # replicate (length libs) (Ret ())" "st' = st\<lparr>once_done := True\<rparr>"
    by (auto simp: NewClient_def NewClient_calls_done)
  then show ?thesis using r assms(2) by (simp add: GetReplica_def)
qed

definition failing_libs :: "gerr \<Rightarrow> unit k8s_libs" where
  "failing_libs e =
     \<lparr>BuildConfigFromFlags = Inl e, NewForConfig = Inr, GetAPIGroupResources = Inr,
      scale_NewForConfig = (\<lambda>_ _ _. Inl e), group_of = (\<lambda>v. v)\<rparr>"

theorem NewClient_failure_sticks_witness:
  "fst (NewClient_calls [failing_libs (External ''no kubeconfig''), failing_libs (External ''no kubeconfig'')] \<lparr>GlobalClient = None, once_done = False\<rparr>) = [Err (External ''no kubeconfig''), Ret ()]"
  using NewClient_failure_sticks [of "\<lparr>GlobalClient = None, once_done = False\<rparr>" "failing_libs (External ''no kubeconfig'')" "[failing_libs (External ''no kubeconfig'')]"]
  by (cases "NewClient_calls [failing_libs (External ''no kubeconfig''), failing_libs (External ''no kubeconfig'')] \<lparr>GlobalClient = None, once_done = False\<rparr>")
    (simp add: newClient_def failing_libs_def)

end
