(* ===== verification/Collector.thy ===== *)
theory Collector
  imports Basetype K8s
begin

text \<open>
  collector/, collector/prometheus_collector/ and fake/: the metric collectors. The Prometheus
  client is not part of the repository: creating one and running a query are parameters, times
  are in nanoseconds. The interfaces are locales: what every \<open>MetricCollector\<close> does, and what one
  that hands over what it has gathered does.
\<close>

section \<open>Data\<close>

text \<open>\<open>collector.Metric\<close>: a sample.\<close>

record sample =
  Value :: f64
  TimeStamp :: int

record MetricType =
  mt_Name :: string
  mt_Unit :: string

definition MetricType_String :: "MetricType \<Rightarrow> string" where
  "MetricType_String m = mt_Name m @ ''/'' @ mt_Unit m"

text \<open>A query's result: an error, a vector, or a value of another type.\<close>

datatype query_result = QueryError gerr | Vector "sample list" | OtherValue

record prom_libs =
  api_NewClient :: "string \<Rightarrow> gerr + handle"
  api_Query :: "handle \<Rightarrow> string \<Rightarrow> int \<Rightarrow> query_result"

section \<open>The Prometheus collector\<close>

record Promc =
  MetricQL :: "(Metric, string) gomap"
  ServerAddress :: string
  client :: "handle option"

definition cpuAVG :: Metric where
  "cpuAVG =
     \<lparr>scaleDownConf = \<lparr>Threshold = [], Duration = 0\<rparr>, Target = [], Weight = 0,
      Name = ''avg_node_cpu_usage'', Unit = ''%'', Query = []\<rparr>"

definition Promc_New :: Promc where
  "Promc_New =
     \<lparr>MetricQL = [(cpuAVG, ''100 - (avg(irate(node_cpu_seconds_total{mode=\"idle\"}[30m])) * 100)'')],
      ServerAddress = [], client = None\<rparr>"

definition SetServerAddress :: "prom_libs \<Rightarrow> string \<Rightarrow> Promc \<Rightarrow> unit go \<times> Promc" where
  "SetServerAddress lib url p =
     (let p = p\<lparr>ServerAddress := url\<rparr>
      in case api_NewClient lib (ServerAddress p) of
           Inl e \<Rightarrow> (Err e, p)
         | Inr c \<Rightarrow> (Ret (), p\<lparr>client := Some c\<rparr>))"

text \<open>The order of the result is the run time's: \<open>perm\<close> is the order it visits the keys in.\<close>

definition ListMetricTypes :: "(Metric list \<Rightarrow> Metric list) \<Rightarrow> Promc \<Rightarrow> Metric list" where
  "ListMetricTypes perm p = perm (keys (MetricQL p))"

definition AddCustomMetrics :: "Metric \<Rightarrow> Promc \<Rightarrow> Promc" where
  "AddCustomMetrics metricType p = p\<lparr>MetricQL := AList.update metricType (Query metricType) (MetricQL p)\<rparr>"

record worker =
  w_type :: MetricType
  promql :: string
  data :: "sample list"
  w_client :: "handle option"

definition CreateWorker :: "Metric \<Rightarrow> Promc \<Rightarrow> worker go" where
  "CreateWorker metricType p =
     (case map_of (MetricQL p) metricType of
        None \<Rightarrow> Err (NewError ''undefined metric type'')
      | Some ql \<Rightarrow>
          Ret \<lparr>w_type = \<lparr>mt_Name = Name metricType, mt_Unit = Unit metricType\<rparr>,
               promql = ql, data = [], w_client = client p\<rparr>)"

definition worker_Collect :: "prom_libs \<Rightarrow> int \<Rightarrow> worker \<Rightarrow> unit go \<times> worker" where
  "worker_Collect lib now w =
     (case w_client w of
        None \<Rightarrow> (Panic NilDereference, w)
      | Some c \<Rightarrow>
          (case api_Query lib c (promql w) now of
             QueryError e \<Rightarrow> (Err e, w)
           | OtherValue \<Rightarrow> (Panic BadTypeAssertion, w)
           | Vector vector \<Rightarrow> (Ret (), fold (\<lambda>sample w. w\<lparr>data := data w @ [sample]\<rparr>) vector w)))"

definition worker_Send :: "worker \<Rightarrow> sample list \<times> worker" where
  "worker_Send w = (data w, w\<lparr>data := []\<rparr>)"

definition worker_DataCap :: "worker \<Rightarrow> int" where
  "worker_DataCap w = int (length (data w))"

definition worker_NoModelKey :: "worker \<Rightarrow> string" where
  "worker_NoModelKey w = mt_Name (w_type w) @ ''$'' @ mt_Unit (w_type w) @ ''$'' @ promql w"

section \<open>The generated collector of fake/\<close>

record CollectorWorker =
  fake_N :: int
  fake_Function :: "int \<Rightarrow> f64"
  fake_Start :: int
  fake_Interval :: int

definition fake_Send :: "CollectorWorker \<Rightarrow> sample list \<times> CollectorWorker" where
  "fake_Send c =
     (List.map (\<lambda>i. \<lparr>Value = fake_Function c i, TimeStamp = fake_Start c + wrap64 (i * fake_Interval c)\<rparr>)
        [0..fake_N c - 1], c)"

definition fake_NoModelKey :: "CollectorWorker \<Rightarrow> string" where
  "fake_NoModelKey c = ''fake$%$test_fake''"

definition fake_DataCap :: "CollectorWorker \<Rightarrow> int" where
  "fake_DataCap c = 2 ^ 32 - 1"

definition fake_Collect :: "int \<Rightarrow> CollectorWorker \<Rightarrow> unit go \<times> CollectorWorker" where
  "fake_Collect now c = (Ret (), c)"

section \<open>The interfaces\<close>

text \<open>Calls on a collector: one \<open>Collect\<close> at a time, or one \<open>Send\<close>.\<close>

datatype collector_call = CallCollect int | CallSend

fun run_calls ::
  "(int \<Rightarrow> 'w \<Rightarrow> unit go \<times> 'w) \<Rightarrow> ('w \<Rightarrow> sample list \<times> 'w) \<Rightarrow> collector_call list \<Rightarrow> 'w \<Rightarrow> 'w" where
  "run_calls collect send [] w = w"
| "run_calls collect send (CallCollect t # cs) w = run_calls collect send cs (snd (collect t w))"
| "run_calls collect send (CallSend # cs) w = run_calls collect send cs (snd (send w))"

text \<open>Everything the sends of a sequence of calls hand over.\<close>

fun sends_of ::
  "(int \<Rightarrow> 'w \<Rightarrow> unit go \<times> 'w) \<Rightarrow> ('w \<Rightarrow> sample list \<times> 'w) \<Rightarrow> collector_call list \<Rightarrow> 'w \<Rightarrow> sample list" where
  "sends_of collect send [] w = []"
| "sends_of collect send (CallCollect t # cs) w = sends_of collect send cs (snd (collect t w))"
| "sends_of collect send (CallSend # cs) w = fst (send w) @ sends_of collect send cs (snd (send w))"

locale metric_collector =
  fixes collect :: "int \<Rightarrow> 'w \<Rightarrow> unit go \<times> 'w"
    and send :: "'w \<Rightarrow> sample list \<times> 'w"
    and key :: "'w \<Rightarrow> string"
    and data_cap :: "'w \<Rightarrow> int"
  assumes key_collect: "key (snd (collect now w)) = key w"
    and key_send: "key (snd (send w)) = key w"
    and cap_nonneg: "0 \<le> data_cap w"
begin

lemma key_after_calls:
  "key (run_calls collect send cs w) = key w"
proof (induction cs arbitrary: w)
  case (Cons c cs)
  then show ?case by (cases c) (simp_all add: key_collect key_send)
qed simp

end

locale draining_collector = metric_collector +
  fixes pending :: "'w \<Rightarrow> sample list"
  assumes send_pending: "fst (send w) = pending w"
    and send_empties: "pending (snd (send w)) = []"
    and cap_pending: "data_cap w = int (length (pending w))"
    and collect_appends: "\<exists>xs. pending (snd (collect now w)) = pending w @ xs"
begin

text \<open>
  Over any sequence of calls: what the sends handed over, in order, followed by what is still
  pending, is what was pending at the start followed by what each collection appended.
\<close>

lemma no_sample_lost:
  "\<exists>brought. sends_of collect send cs w @ pending (run_calls collect send cs w) = pending w @ brought"
proof (induction cs arbitrary: w)
  case (Cons c cs)
  show ?case
  proof (cases c)
    case (CallCollect t)
    obtain xs where "pending (snd (collect t w)) = pending w @ xs" using collect_appends by blast
    with Cons [of "snd (collect t w)"] CallCollect show ?thesis by auto
  next
    case CallSend
    with Cons [of "snd (send w)"] show ?thesis by (auto simp: send_pending send_empties)
  qed
qed simp

lemma cap_after_send [simp]: "data_cap (snd (send w)) = 0"
  by (simp add: cap_pending send_empties)

lemma length_send: "int (length (fst (send w))) = data_cap w"
  by (simp add: cap_pending send_pending)

lemma cap_collect: "data_cap w \<le> data_cap (snd (collect now w))"
  using collect_appends [of now w] by (auto simp: cap_pending)

end

lemma fold_samples: "fold (\<lambda>sample w. w\<lparr>data := data w @ [sample]\<rparr>) v w = w\<lparr>data := data w @ v\<rparr>"
  for w :: worker
  by (induction v arbitrary: w) auto

text \<open>The samples one \<open>Collect\<close> brings in.\<close>

definition collected :: "prom_libs \<Rightarrow> int \<Rightarrow> worker \<Rightarrow> sample list" where
  "collected lib now w =
     (case w_client w of
        None \<Rightarrow> []
      | Some c \<Rightarrow> (case api_Query lib c (promql w) now of Vector v \<Rightarrow> v | _ \<Rightarrow> []))"

lemma worker_Collect_state: "snd (worker_Collect lib now w) = w\<lparr>data := data w @ collected lib now w\<rparr>"
  by (simp add: worker_Collect_def collected_def fold_samples split: option.splits query_result.splits)

interpretation prom: draining_collector "worker_Collect lib" worker_Send worker_NoModelKey worker_DataCap data
  for lib
  by unfold_locales
    (simp_all add: worker_Send_def worker_NoModelKey_def worker_DataCap_def worker_Collect_state)

interpretation fake: metric_collector fake_Collect fake_Send fake_NoModelKey fake_DataCap
  by unfold_locales (simp_all add: fake_Collect_def fake_Send_def fake_NoModelKey_def fake_DataCap_def)

section \<open>Dynamic dispatch\<close>

text \<open>A value of the interface type: one of its two implementations.\<close>

datatype MetricCollector = PromWorker worker | FakeWorker CollectorWorker

fun mc_Collect :: "prom_libs \<Rightarrow> int \<Rightarrow> MetricCollector \<Rightarrow> unit go \<times> MetricCollector" where
  "mc_Collect lib now (PromWorker w) = map_prod id PromWorker (worker_Collect lib now w)"
| "mc_Collect lib now (FakeWorker c) = map_prod id FakeWorker (fake_Collect now c)"

fun mc_Send :: "MetricCollector \<Rightarrow> sample list \<times> MetricCollector" where
  "mc_Send (PromWorker w) = map_prod id PromWorker (worker_Send w)"
| "mc_Send (FakeWorker c) = map_prod id FakeWorker (fake_Send c)"

fun mc_NoModelKey :: "MetricCollector \<Rightarrow> string" where
  "mc_NoModelKey (PromWorker w) = worker_NoModelKey w"
| "mc_NoModelKey (FakeWorker c) = fake_NoModelKey c"

fun mc_DataCap :: "MetricCollector \<Rightarrow> int" where
  "mc_DataCap (PromWorker w) = worker_DataCap w"
| "mc_DataCap (FakeWorker c) = fake_DataCap c"

interpretation mc: metric_collector "mc_Collect lib" mc_Send mc_NoModelKey mc_DataCap for lib
proof
  show "mc_NoModelKey (snd (mc_Collect lib now w)) = mc_NoModelKey w" for now w
    by (cases w) (simp_all add: prom.key_collect fake.key_collect)
  show "mc_NoModelKey (snd (mc_Send w)) = mc_NoModelKey w" for w
    by (cases w) (simp_all add: prom.key_send fake.key_send)
  show "0 \<le> mc_DataCap w" for w
    by (cases w) (simp_all add: prom.cap_nonneg fake.cap_nonneg)
qed


section \<open>Properties\<close>

text \<open>The samples the collections of a sequence of calls bring in, in order.\<close>

fun brought :: "prom_libs \<Rightarrow> collector_call list \<Rightarrow> worker \<Rightarrow> sample list" where
  "brought lib [] w = []"
| "brought lib (CallCollect t # cs) w = collected lib t w @ brought lib cs w"
| "brought lib (CallSend # cs) w = brought lib cs w"

lemma brought_data [simp]: "brought lib cs (w\<lparr>data := d\<rparr>) = brought lib cs w"
  by (induction lib cs w rule: brought.induct)
    (simp_all add: collected_def split: option.splits query_result.splits)

text \<open>C27: a worker loses no sample, duplicates none and keeps their order: over any sequence of
  collections and sends, what the sends hand over followed by what the worker still holds is
  what it held followed by every sample the collections brought in.\<close>

theorem worker_conserves_samples:
  "sends_of (worker_Collect lib) worker_Send cs w @ data (run_calls (worker_Collect lib) worker_Send cs w)
     = data w @ brought lib cs w"
proof (induction cs arbitrary: w)
  case (Cons c cs)
  then show ?case by (cases c) (simp_all add: worker_Collect_state worker_Send_def)
qed simp

text \<open>A metric added to the collector can be collected: creating its worker succeeds, the
  worker asks the metric's own query, starts empty, and is filed under the metric's key.\<close>

lemma CreateWorker_after_AddCustomMetrics:
  "\<exists>w. CreateWorker m (AddCustomMetrics m p) = Ret w \<and> promql w = Query m \<and> data w = [] \<and>
     w_client w = client p \<and> worker_NoModelKey w = NoModelKey m"
  by (simp add: CreateWorker_def AddCustomMetrics_def update_conv' worker_NoModelKey_def NoModelKey_def)

end
