(* ===== verification/HoltWinter.thy ===== *)
theory HoltWinter
  imports Collector
begin

text \<open>
  algorithms/holt_winter/holt_winter.go: triple exponential smoothing over the samples of a
  collector. The predictor holds the address of its collector; \<open>Predict\<close> is given the collector
  found there and returns it after the call. Plotting in debug mode writes a picture and does
  not touch the result.
\<close>

record PredictResult =
  StartMetric :: f64
  Loss :: f64
  PredictMetric :: "f64 list"

record HoltWinter =
  hw_debug :: bool
  slen :: int
  lookForward :: int
  lookBackward :: int
  alpha :: f64
  beta :: f64
  gamma :: f64
  hw_withModelKey :: string
  hw_collectorWorker :: addr

definition one64 :: f64 where
  "one64 = Fin False 1"

section \<open>Construction\<close>

definition hw_New :: "addr \<Rightarrow> (string, string) gomap \<Rightarrow> string \<Rightarrow> HoltWinter go" where
  "hw_New collectorWorker model withModelKey =
     and_then (Atoi (json_field model ''slen'')) (\<lambda>slen.
     and_then (Atoi (json_field model ''look_forward'')) (\<lambda>lookForward.
     and_then (Atoi (json_field model ''look_backward'')) (\<lambda>lookBack.
     and_then (ParseFloat (json_field model ''alpha'')) (\<lambda>alpha.
     and_then (ParseFloat (json_field model ''beta'')) (\<lambda>beta.
     and_then (ParseFloat (json_field model ''gamma'')) (\<lambda>gamma.
       Ret \<lparr>hw_debug = (json_field model ''debug'' = ''true''), slen = slen, lookForward = lookForward,
            lookBackward = lookBack, alpha = alpha, beta = beta, gamma = gamma,
            hw_withModelKey = withModelKey, hw_collectorWorker = collectorWorker\<rparr>))))))"

section \<open>Smoothing\<close>

definition initialTrend :: "HoltWinter \<Rightarrow> f64 list \<Rightarrow> f64 go" where
  "initialTrend p series =
     and_then
       (fold_go (\<lambda>i sum.
            and_then (index series (wrap64 (int i + slen p))) (\<lambda>a.
            and_then (index series (int i)) (\<lambda>b.
              Ret (fadd sum (fdiv (fsub a b) (f64_of_int (slen p)))))))
          [0..<nat (slen p)] zero64)
       (\<lambda>sum. Ret (fdiv sum (f64_of_int (slen p))))"

text \<open>A map from int to float64 read with the zero value for absent keys is a total function.\<close>

definition seasonAverages :: "HoltWinter \<Rightarrow> f64 list \<Rightarrow> int \<Rightarrow> f64 list go" where
  "seasonAverages p series nSeasons =
     fold_go (\<lambda>j averages.
         and_then (slice series (wrap64 (slen p * int j)) (wrap64 (slen p * int j + slen p))) (\<lambda>season.
           Ret (averages @ [fdiv (fold (\<lambda>value sum. fadd sum value) season zero64) (f64_of_int (slen p))])))
       [0..<nat nSeasons] []"

definition initialSeasonalComponents :: "HoltWinter \<Rightarrow> f64 list \<Rightarrow> (int \<Rightarrow> f64) go" where
  "initialSeasonalComponents p series =
     and_then (quot64 (int (length series)) (slen p)) (\<lambda>nSeasons.
     and_then (seasonAverages p series nSeasons) (\<lambda>averages.
       fold_go (\<lambda>i seasonals.
           and_then
             (fold_go (\<lambda>j sum.
                  and_then (index series (wrap64 (slen p * int j + int i))) (\<lambda>v.
                  and_then (index averages (int j)) (\<lambda>a. Ret (fadd sum (fsub v a)))))
                [0..<nat nSeasons] zero64)
             (\<lambda>sum. Ret (seasonals(int i := fdiv sum (f64_of_int nSeasons)))))
         [0..<nat (slen p)] (\<lambda>_. zero64)))"

record smoothing =
  result :: "f64 list"
  smooth :: f64
  trend :: f64
  seasonals :: "int \<Rightarrow> f64"

definition smooth_step :: "HoltWinter \<Rightarrow> f64 list \<Rightarrow> nat \<Rightarrow> smoothing \<Rightarrow> smoothing" where
  "smooth_step p series i s =
     (if i = 0 then s\<lparr>result := result s @ [series ! 0]\<rparr>
      else if length series \<le> i then
        (let m = i - length series + 1
         in s\<lparr>result := result s @
                [fadd (fadd (smooth s) (fmul (f64_of_int (int m)) (trend s))) (seasonals s (int i smod slen p))]\<rparr>)
      else
        (let val = series ! i;
             k = int i smod slen p;
             lastSmooth = smooth s;
             smooth' = fadd (fmul (alpha p) (fsub val (seasonals s k)))
                            (fmul (fsub one64 (alpha p)) (fadd (smooth s) (trend s)));
             trend' = fadd (fmul (beta p) (fsub smooth' lastSmooth)) (fmul (fsub one64 (beta p)) (trend s));
             season' = fadd (fmul (gamma p) (fsub val smooth')) (fmul (fsub one64 (gamma p)) (seasonals s k))
         in \<lparr>result = result s @ [fadd (fadd smooth' trend') season'],
             smooth = smooth', trend = trend', seasonals = (seasonals s)(k := season')\<rparr>))"

definition tripleExponentialSmoothing :: "HoltWinter \<Rightarrow> f64 list \<Rightarrow> f64 list go" where
  "tripleExponentialSmoothing p series =
     and_then (initialSeasonalComponents p series) (\<lambda>seasonals.
     and_then (index series 0) (\<lambda>smooth.
     and_then (initialTrend p series) (\<lambda>trend.
       Ret (result (fold (smooth_step p series) [0..<nat (wrap64 (int (length series) + lookForward p))]
              \<lparr>result = [], smooth = smooth, trend = trend, seasonals = seasonals\<rparr>)))))"

section \<open>The predictor's methods\<close>

definition hw_Predict :: "HoltWinter \<Rightarrow> MetricCollector \<Rightarrow> PredictResult go \<times> MetricCollector" where
  "hw_Predict p c =
     (if mc_DataCap c < lookBackward p then (Err NO_SUFFICENT_DATA, c)
      else (let (metrics, c') = mc_Send c
            in (and_then (slice metrics (wrap64 (int (length metrics) - lookBackward p)) (int (length metrics))) (\<lambda>metrics.
                let series = List.map Value metrics
                in and_then (tripleExponentialSmoothing p series) (\<lambda>predMetrics.
                   and_then (index series (int (length series) - 1)) (\<lambda>start.
                     Ret \<lparr>StartMetric = start, Loss = Fin True 1, PredictMetric = predMetrics\<rparr>))), c')))"

definition hw_GetType :: "HoltWinter \<Rightarrow> string" where
  "hw_GetType p = ''holt_winter''"

definition hw_Train :: "HoltWinter \<Rightarrow> unit go" where
  "hw_Train p = Ret ()"

definition hw_Key :: "HoltWinter \<Rightarrow> string" where
  "hw_Key p = hw_withModelKey p"

lemma hw_New_no_panic: "hw_New c m k \<noteq> Panic x"
  unfolding hw_New_def by (intro and_then_no_panic) (auto simp: Atoi_no_panic ParseFloat_no_panic)

lemma hw_New_Key: "hw_New c m k = Ret p \<Longrightarrow> hw_Key p = k \<and> hw_collectorWorker p = c"
  by (auto simp: hw_New_def hw_Key_def go_simps)

end
