(* ===== verification/HoltWinterSpec.thy ===== *)
theory HoltWinterSpec
  imports HoltWinter
begin

text \<open>
  When triple exponential smoothing returns, and what: the length of its result, and the
  equivalence of the loop, which keeps one slot per season position, with the textbook recurrence
  over time.
\<close>

section \<open>When it returns\<close>

lemma initialTrend_Ret:
  assumes "in64 (int (length series))" and "0 < slen p" and "2 * slen p \<le> int (length series)"
  shows "\<exists>t. initialTrend p series = Ret t"
proof -
  have step: "\<exists>s'. and_then (index series (wrap64 (int i + slen p))) (\<lambda>a.
            and_then (index series (int i)) (\<lambda>b.
              Ret (fadd sum (fdiv (fsub a b) (f64_of_int (slen p)))))) = Ret s'"
    if "i < nat (slen p)" for i sum
  proof -
    have "wrap64 (int i + slen p) = int i + slen p" "i < length series"
      using assms that by (auto intro!: wrap64_id simp: in64_def)
    then show ?thesis using assms that by (auto simp: index_def)
  qed
  show ?thesis
    using fold_go_upt [of "nat (slen p)" "\<lambda>_ _. True"] step
    unfolding initialTrend_def by (metis (no_types, lifting) and_then.simps(1))
qed

lemma initialTrend_negative: "slen p < 0 \<Longrightarrow> \<exists>t. initialTrend p series = Ret t"
  by (simp add: initialTrend_def)

lemma initialTrend_short:
  assumes "in64 (slen p)" and "0 < slen p" and "int (length series) < 2 * slen p"
  shows "initialTrend p series \<noteq> Ret t"
proof
  assume "initialTrend p series = Ret t"
  then obtain u where "fold_go (\<lambda>i sum.
            and_then (index series (wrap64 (int i + slen p))) (\<lambda>a.
            and_then (index series (int i)) (\<lambda>b.
              Ret (fadd sum (fdiv (fsub a b) (f64_of_int (slen p)))))))
          [0..<nat (slen p)] zero64 = Ret u"
    unfolding initialTrend_def by (auto simp: go_simps)
  moreover have "nat (slen p - 1) \<in> set [0..<nat (slen p)]" using assms(2) by auto
  ultimately have "\<exists>a. index series (wrap64 (int (nat (slen p - 1)) + slen p)) = Ret a"
    using fold_go_Ret_each [where x = "nat (slen p - 1)"] by (fastforce simp: go_simps)
  then have "0 \<le> wrap64 (2 * slen p - 1)" "wrap64 (2 * slen p - 1) < int (length series)"
    using assms(2) by (auto simp: index_def split: if_splits)
  moreover have "wrap64 (2 * slen p - 1) = 2 * slen p - 1 \<or> wrap64 (2 * slen p - 1) < 0"
  proof (cases "2 * slen p - 1 < 2 ^ 63")
    case True
    then show ?thesis using assms(2) by (intro disjI1 wrap64_id) (simp add: in64_def)
  next
    case False
    then have "wrap64 (2 * slen p - 1) = 2 * slen p - 1 - 2 ^ 64"
      using assms(1) by (intro wrap64_above) (auto simp: in64_def)
    then show ?thesis using assms(1) by (simp add: in64_def)
  qed
  ultimately show False using assms(3) by linarith
qed

lemma quot_len:
  assumes "in64 (int (length series))" and "0 < k"
  shows "quot64 (int (length series)) k = Ret (int (length series) div k)"
proof -
  have "0 \<le> int (length series) div k" "int (length series) div k \<le> int (length series)"
    using assms(2) zdiv_mono2 [of "int (length series)" 1 k] by (auto simp: pos_imp_zdiv_nonneg_iff)
  with assms show ?thesis
    by (auto simp: quot64_def signed_divide_int_def sgn_if intro!: wrap64_id) (auto simp: in64_def)
qed

lemma season_bounds:
  assumes "in64 (int (length series))" and "0 < k" and "j < nat (int (length series) div k)"
  shows "k * int j + k \<le> int (length series)" and "wrap64 (k * int j) = k * int j"
    and "wrap64 (k * int j + k) = k * int j + k"
    and "0 \<le> i \<Longrightarrow> i < k \<Longrightarrow> wrap64 (k * int j + i) = k * int j + i"
proof -
  have "int j + 1 \<le> int (length series) div k" using assms(3) by linarith
  then have "k * (int j + 1) \<le> k * (int (length series) div k)" using assms(2) by simp
  also have "\<dots> \<le> int (length series)"
    using assms(2) minus_mod_eq_mult_div [of "int (length series)" k] pos_mod_sign [of k "int (length series)"]
    by linarith
  finally show le: "k * int j + k \<le> int (length series)" by (simp add: algebra_simps)
  have "0 \<le> k * int j" using assms(2) by simp
  then have low: "- (2 ^ 63) \<le> k * int j" by (rule order_trans [rotated]) simp
  then have "- (2 ^ 63) \<le> k * int j + k" "0 \<le> i \<Longrightarrow> - (2 ^ 63) \<le> k * int j + i"
    using assms(2) by linarith+
  note this low
  with le assms(1,2) show "wrap64 (k * int j) = k * int j" "wrap64 (k * int j + k) = k * int j + k"
    and "0 \<le> i \<Longrightarrow> i < k \<Longrightarrow> wrap64 (k * int j + i) = k * int j + i"
    by (auto intro!: wrap64_id simp: in64_def)
qed

lemma seasonAverages_Ret:
  assumes "in64 (int (length series))" and "0 < slen p"
  shows "\<exists>av. seasonAverages p series (int (length series) div slen p) = Ret av \<and>
              length av = nat (int (length series) div slen p)"
  unfolding seasonAverages_def
proof (rule fold_go_upt [where P = "\<lambda>j av. length av = j"])
  fix j and av :: "f64 list"
  assume j: "j < nat (int (length series) div slen p)" and "length av = j"
  then show "\<exists>s'. and_then (slice series (wrap64 (slen p * int j)) (wrap64 (slen p * int j + slen p))) (\<lambda>season.
           Ret (av @ [fdiv (fold (\<lambda>value sum. fadd sum value) season zero64) (f64_of_int (slen p))])) = Ret s' \<and>
           length s' = Suc j"
    using season_bounds [OF assms j] assms(2) by (simp add: slice_def)
qed simp

lemma initialSeasonalComponents_negative:
  assumes "in64 (int (length series))" and neg: "slen p < 0"
  shows "\<exists>s. initialSeasonalComponents p series = Ret s"
proof -
  have "int (length series) sdiv slen p \<le> 0"
    using neg by (auto simp: signed_divide_int_def sgn_if pos_imp_zdiv_nonneg_iff)
  moreover have "- int (length series) \<le> int (length series) sdiv slen p"
    using neg zdiv_mono2 [of "int (length series)" 1 "\<bar>slen p\<bar>"] by (auto simp: signed_divide_int_def sgn_if)
  ultimately have "wrap64 (int (length series) sdiv slen p) = int (length series) sdiv slen p"
    using assms(1) by (intro wrap64_id) (auto simp: in64_def)
  with neg \<open>int (length series) sdiv slen p \<le> 0\<close> show ?thesis
    by (simp add: initialSeasonalComponents_def quot64_def seasonAverages_def)
qed

lemma season_sum_Ret:
  assumes "in64 (int (length series))" and L: "0 < slen p" and av: "length av = nat (int (length series) div slen p)"
    and i: "i < nat (slen p)"
  shows "\<exists>sum. fold_go (\<lambda>j sum.
      and_then (index series (wrap64 (slen p * int j + int i))) (\<lambda>v.
      and_then (index av (int j)) (\<lambda>a. Ret (fadd sum (fsub v a)))))
    [0..<nat (int (length series) div slen p)] z = Ret sum"
proof -
  have "\<exists>s'. and_then (index series (wrap64 (slen p * int j + int i))) (\<lambda>v.
                and_then (index av (int j)) (\<lambda>a. Ret (fadd s (fsub v a)))) = Ret s'"
    if j: "j < nat (int (length series) div slen p)" for j s
  proof -
    have i: "int i < slen p" using i by linarith
    have "0 \<le> slen p * int j" using L by simp
    then have "0 \<le> slen p * int j + int i" "slen p * int j + int i < int (length series)"
      using season_bounds(1) [OF assms(1) L j] i by linarith+
    moreover have "wrap64 (slen p * int j + int i) = slen p * int j + int i"
      using season_bounds(4) [OF assms(1) L j] i by simp
    moreover have "int j < int (length av)" unfolding av using j by linarith
    ultimately show ?thesis by (simp add: index_def)
  qed
  then show ?thesis
    using fold_go_upt [of "nat (int (length series) div slen p)" "\<lambda>_ _. True"] by (metis (no_types, lifting))
qed

lemma initialSeasonalComponents_Ret:
  assumes "in64 (int (length series))" and "slen p \<noteq> 0"
  shows "\<exists>s. initialSeasonalComponents p series = Ret s"
proof (cases "0 < slen p")
  case False
  with assms show ?thesis by (intro initialSeasonalComponents_negative) simp_all
next
  case True
  let ?n = "int (length series) div slen p"
  obtain av where av: "seasonAverages p series ?n = Ret av" "length av = nat ?n"
    using seasonAverages_Ret [OF assms(1) True] by blast
  have "\<exists>s'. and_then (fold_go (\<lambda>j sum.
                  and_then (index series (wrap64 (slen p * int j + int i))) (\<lambda>v.
                  and_then (index av (int j)) (\<lambda>a. Ret (fadd sum (fsub v a)))))
                [0..<nat ?n] zero64)
             (\<lambda>sum. Ret (s(int i := fdiv sum (f64_of_int ?n)))) = Ret s'" if "i < nat (slen p)" for i s
    using season_sum_Ret [OF assms(1) True av(2) that, of zero64] by auto
  then show ?thesis
    unfolding initialSeasonalComponents_def quot_len [OF assms(1) True] and_then.simps av(1)
    by (intro fold_go_upt_returns)
qed

lemma smoothing_returns:
  assumes "in64 (int (length series))" and "in64 (slen p)"
  shows "(\<exists>r. tripleExponentialSmoothing p series = Ret r) \<longleftrightarrow>
    series \<noteq> [] \<and> slen p \<noteq> 0 \<and> (0 < slen p \<longrightarrow> 2 * slen p \<le> int (length series))"
proof
  assume "\<exists>r. tripleExponentialSmoothing p series = Ret r"
  then obtain s x t where *: "initialSeasonalComponents p series = Ret s" "index series 0 = Ret x"
    "initialTrend p series = Ret t"
    by (auto simp: tripleExponentialSmoothing_def go_simps)
  from *(2) have "series \<noteq> []" by (auto simp: index_def split: if_splits)
  moreover from *(1) have "slen p \<noteq> 0"
    by (auto simp: initialSeasonalComponents_def quot64_def)
  moreover from *(3) have "0 < slen p \<longrightarrow> 2 * slen p \<le> int (length series)"
    using initialTrend_short [OF assms(2)] by (metis not_less)
  ultimately show "series \<noteq> [] \<and> slen p \<noteq> 0 \<and> (0 < slen p \<longrightarrow> 2 * slen p \<le> int (length series))" by blast
next
  assume *: "series \<noteq> [] \<and> slen p \<noteq> 0 \<and> (0 < slen p \<longrightarrow> 2 * slen p \<le> int (length series))"
  then obtain s where "initialSeasonalComponents p series = Ret s"
    using initialSeasonalComponents_Ret [OF assms(1)] by blast
  moreover obtain t where "initialTrend p series = Ret t"
    using initialTrend_Ret [OF assms(1)] initialTrend_negative [of p series] * by (cases "0 < slen p") auto
  moreover have "index series 0 = Ret (series ! 0)" using * by (simp add: index_def)
  ultimately show "\<exists>r. tripleExponentialSmoothing p series = Ret r"
    by (simp add: tripleExponentialSmoothing_def)
qed

section \<open>The recurrence over time\<close>

text \<open>
  The method as it is usually written, indexed by time: level, trend and season at time \<open>t\<close> from
  the values of the series, the initial trend \<open>b\<close> and the initial seasonal components \<open>c\<close>. The
  season that time \<open>t\<close> starts from is the one computed a period earlier, or the initial one in
  the first period.
\<close>

definition period :: "HoltWinter \<Rightarrow> nat" where
  "period p = nat (slen p)"

function hw_level :: "HoltWinter \<Rightarrow> f64 list \<Rightarrow> f64 \<Rightarrow> (int \<Rightarrow> f64) \<Rightarrow> nat \<Rightarrow> f64"
  and hw_trend :: "HoltWinter \<Rightarrow> f64 list \<Rightarrow> f64 \<Rightarrow> (int \<Rightarrow> f64) \<Rightarrow> nat \<Rightarrow> f64"
  and hw_season :: "HoltWinter \<Rightarrow> f64 list \<Rightarrow> f64 \<Rightarrow> (int \<Rightarrow> f64) \<Rightarrow> nat \<Rightarrow> f64"
  and hw_prior :: "HoltWinter \<Rightarrow> f64 list \<Rightarrow> f64 \<Rightarrow> (int \<Rightarrow> f64) \<Rightarrow> nat \<Rightarrow> f64" where
  "hw_level p y b c t =
     (if t = 0 then y ! 0
      else fadd (fmul (alpha p) (fsub (y ! t) (hw_prior p y b c t)))
                (fmul (fsub one64 (alpha p)) (fadd (hw_level p y b c (t - 1)) (hw_trend p y b c (t - 1)))))"
| "hw_trend p y b c t =
     (if t = 0 then b
      else fadd (fmul (beta p) (fsub (hw_level p y b c t) (hw_level p y b c (t - 1))))
                (fmul (fsub one64 (beta p)) (hw_trend p y b c (t - 1))))"
| "hw_season p y b c t =
     (if t = 0 then c 0
      else fadd (fmul (gamma p) (fsub (y ! t) (hw_level p y b c t)))
                (fmul (fsub one64 (gamma p)) (hw_prior p y b c t)))"
| "hw_prior p y b c t =
     (if period p = 0 \<or> t < period p then c (int t) else hw_season p y b c (t - period p))"
  by pat_completeness auto
termination
  by (relation "measure (case_sum
        (case_sum (\<lambda>(p, y, b, c, t). 4 * t + 1) (\<lambda>(p, y, b, c, t). 4 * t + 2))
        (case_sum (\<lambda>(p, y, b, c, t). 4 * t + 3) (\<lambda>(p, y, b, c, t). 4 * t)))") auto

text \<open>The value reported for time \<open>t\<close>: the fitted one inside the series, the forecast after it.\<close>

definition hw_value :: "HoltWinter \<Rightarrow> f64 list \<Rightarrow> f64 \<Rightarrow> (int \<Rightarrow> f64) \<Rightarrow> nat \<Rightarrow> f64" where
  "hw_value p y b c t =
     (let n = length y in
      if t = 0 then y ! 0
      else if t < n then fadd (fadd (hw_level p y b c t) (hw_trend p y b c t)) (hw_season p y b c t)
      else fadd (fadd (hw_level p y b c (n - 1)) (fmul (f64_of_int (int (t - n + 1))) (hw_trend p y b c (n - 1))))
                (hw_prior p y b c (n + (t - n) mod period p)))"

declare hw_level.simps [simp del] hw_trend.simps [simp del] hw_season.simps [simp del] hw_prior.simps [simp del]

lemmas recurrence = hw_level.simps hw_trend.simps hw_season.simps

definition slots_ok :: "HoltWinter \<Rightarrow> f64 list \<Rightarrow> f64 \<Rightarrow> (int \<Rightarrow> f64) \<Rightarrow> nat \<Rightarrow> smoothing \<Rightarrow> bool" where
  "slots_ok p y b c i s \<longleftrightarrow>
     smooth s = hw_level p y b c (i - 1) \<and> trend s = hw_trend p y b c (i - 1) \<and>
     (\<forall>t \<in> {i..<i + period p}. seasonals s (int (t mod period p)) = hw_prior p y b c t)"

lemma smod_period: "0 < slen p \<Longrightarrow> int i smod slen p = int (i mod period p)"
  by (simp add: period_def signed_modulo_int_def signed_divide_int_def sgn_if zmod_int minus_div_mult_eq_mod)

lemma slots_ok_init:
  assumes "0 < slen p"
  shows "slots_ok p y b c 0 \<lparr>result = [], smooth = y ! 0, trend = b, seasonals = c\<rparr>"
  using assms by (simp add: slots_ok_def recurrence hw_prior.simps)

lemma slots_ok_first:
  assumes "0 < slen p" and "slots_ok p y b c 0 s"
  shows "slots_ok p y b c 1 (s\<lparr>result := r\<rparr>)"
proof -
  have L: "0 < period p" using assms(1) by (simp add: period_def)
  have "seasonals s (int (t mod period p)) = hw_prior p y b c t" if "t \<in> {1..<1 + period p}" for t
  proof (cases "t = period p")
    case True
    then have "hw_prior p y b c t = hw_prior p y b c 0"
      using L by (simp add: hw_prior.simps hw_season.simps)
    moreover have "seasonals s (int (0 mod period p)) = hw_prior p y b c 0"
      using assms(2) L unfolding slots_ok_def by (metis add_0 atLeastLessThan_iff zero_le)
    ultimately show ?thesis using True by simp
  qed (use that assms(2) in \<open>simp add: slots_ok_def\<close>)
  with assms(2) show ?thesis by (simp add: slots_ok_def)
qed

lemma slots_ok_step:
  assumes "0 < slen p" and "0 < i" and "i < length y" and s: "slots_ok p y b c i s"
  shows "slots_ok p y b c (Suc i) (smooth_step p y i s) \<and>
    result (smooth_step p y i s) = result s @ [hw_value p y b c i]"
proof -
  have L: "0 < period p" using assms(1) by (simp add: period_def)
  have k: "int i smod slen p = int (i mod period p)" using assms(1) by (rule smod_period)
  have now: "seasonals s (int (i mod period p)) = hw_prior p y b c i"
    using s L by (simp add: slots_ok_def)
  have step: "smooth_step p y i s = \<lparr>result = result s @ [hw_value p y b c i],
      smooth = hw_level p y b c i, trend = hw_trend p y b c i,
      seasonals = (seasonals s)(int (i mod period p) := hw_season p y b c i)\<rparr>"
    using assms(2,3) s now
    by (simp add: smooth_step_def k Let_def slots_ok_def hw_value_def
        hw_level.simps [of _ _ _ _ i] hw_trend.simps [of _ _ _ _ i] hw_season.simps [of _ _ _ _ i])
  have "((seasonals s)(int (i mod period p) := hw_season p y b c i)) (int (t mod period p)) = hw_prior p y b c t"
    if t: "t \<in> {Suc i..<Suc i + period p}" for t
  proof (cases "t = i + period p")
    case True
    then show ?thesis using L by (simp add: hw_prior.simps)
  next
    case False
    with t have "i < t" "t < i + period p" by auto
    then have "\<not> period p dvd t - i" by (intro nat_dvd_not_less) auto
    then have "t mod period p \<noteq> i mod period p" using \<open>i < t\<close> mod_eq_dvd_iff_nat [of i t] by auto
    then show ?thesis using s t False by (simp add: slots_ok_def)
  qed
  then show ?thesis by (simp add: step slots_ok_def)
qed

lemma hw_value_forecast:
  assumes "0 < slen p" and "length y \<le> i" and "y \<noteq> []" and s: "slots_ok p y b c (length y) s"
  shows "smooth_step p y i s = s\<lparr>result := result s @ [hw_value p y b c i]\<rparr>"
proof -
  have L: "0 < period p" using assms(1) by (simp add: period_def)
  have i: "0 < i" using assms(2,3) by (cases y) auto
  let ?t = "length y + (i - length y) mod period p"
  have "?t mod period p = i mod period p" using assms(2) by (simp add: mod_add_right_eq)
  moreover have "seasonals s (int (?t mod period p)) = hw_prior p y b c ?t"
    using s L by (simp add: slots_ok_def)
  ultimately have "seasonals s (int i smod slen p) = hw_prior p y b c ?t"
    using smod_period [OF assms(1)] by simp
  with s i assms(2) show ?thesis
    by (simp add: smooth_step_def hw_value_def slots_ok_def Let_def Suc_diff_le)
qed

lemma smoothing_loop:
  assumes "0 < slen p" and "y \<noteq> []"
  shows "result (fold (smooth_step p y) [0..<n]
           \<lparr>result = [], smooth = y ! 0, trend = b, seasonals = c\<rparr>) = map (hw_value p y b c) [0..<n]"
proof -
  let ?P = "\<lambda>i s. result s = map (hw_value p y b c) [0..<i] \<and> slots_ok p y b c (min i (length y)) s"
  have "?P n (fold (smooth_step p y) [0..<n] \<lparr>result = [], smooth = y ! 0, trend = b, seasonals = c\<rparr>)"
  proof (rule fold_upt_invariant)
    fix i s assume P: "?P i s"
    consider "i = 0" | "0 < i" "i < length y" | "length y \<le> i" by linarith
    then show "?P (Suc i) (smooth_step p y i s)"
    proof cases
      case 1
      then have "smooth_step p y i s = s\<lparr>result := result s @ [y ! 0]\<rparr>" by (simp add: smooth_step_def)
      moreover have "min (Suc i) (length y) = 1" using 1 assms(2) by (cases y) auto
      ultimately show ?thesis using 1 P slots_ok_first [OF assms(1)] by (simp add: hw_value_def)
    next
      case 2
      then show ?thesis using P slots_ok_step [OF assms(1), of i y b c s] by (simp add: min_def split: if_splits)
    next
      case 3
      then have *: "min i (length y) = length y" "min (Suc i) (length y) = length y" by simp_all
      with P have "slots_ok p y b c (length y) s" by simp
      with hw_value_forecast [OF assms(1) 3 assms(2)]
      have "smooth_step p y i s = s\<lparr>result := result s @ [hw_value p y b c i]\<rparr>" by blast
      then show ?thesis using P * by (simp add: slots_ok_def)
    qed
  qed (use slots_ok_init [OF assms(1)] in simp)
  then show ?thesis by blast
qed

lemma smoothing_refines:
  assumes "in64 (int (length y))" and "0 < slen p" and "2 * slen p \<le> int (length y)"
  shows "\<exists>b c. initialTrend p y = Ret b \<and> initialSeasonalComponents p y = Ret c \<and>
    tripleExponentialSmoothing p y =
      Ret (map (hw_value p y b c) [0..<nat (wrap64 (int (length y) + lookForward p))])"
proof -
  obtain b where b: "initialTrend p y = Ret b" using initialTrend_Ret [OF assms] by blast
  obtain c where c: "initialSeasonalComponents p y = Ret c"
    using initialSeasonalComponents_Ret [OF assms(1)] assms(2) by force
  have "y \<noteq> []" using assms(2,3) by auto
  then have "index y 0 = Ret (y ! 0)" by (simp add: index_def)
  with b c show ?thesis
    using smoothing_loop [OF assms(2) \<open>y \<noteq> []\<close>] by (simp add: tripleExponentialSmoothing_def)
qed

text \<open>C26: triple exponential smoothing with a positive season length computes the recurrence over
  time: when the series holds at least two seasons, the call returns, for each time up to the
  horizon, the fitted value inside the series and the forecast after it, from the initial trend and
  the initial seasonal components of the code.\<close>

theorem smoothing_refines_recurrence:
  "in64 (int (length y)) \<Longrightarrow> 0 < slen p \<Longrightarrow> 2 * slen p \<le> int (length y) \<Longrightarrow>
   \<exists>b c. initialTrend p y = Ret b \<and> initialSeasonalComponents p y = Ret c \<and>
    tripleExponentialSmoothing p y =
      Ret (map (hw_value p y b c) [0..<nat (wrap64 (int (length y) + lookForward p))])"
  by (rule smoothing_refines)

text \<open>A configuration with two seasons of two samples and a series of four.\<close>

definition demo_hw :: HoltWinter where
  "demo_hw = \<lparr>hw_debug = False, slen = 2, lookForward = 3, lookBackward = 4,
     alpha = Fin False (1 / 2), beta = Fin False (1 / 2), gamma = Fin False (1 / 2),
     hw_withModelKey = ''cpu$m$q/holt_winter'', hw_collectorWorker = 0\<rparr>"

definition demo_series :: "f64 list" where
  "demo_series = map f64_of_int [10, 20, 12, 22]"

theorem smoothing_refines_recurrence_witness:
  "\<exists>b c. initialTrend demo_hw demo_series = Ret b \<and> initialSeasonalComponents demo_hw demo_series = Ret c \<and>
    tripleExponentialSmoothing demo_hw demo_series =
      Ret (map (hw_value demo_hw demo_series b c) [0..<7])"
proof -
  have "wrap64 7 = 7" by (rule wrap64_id) (simp add: in64_def)
  then show ?thesis
    using smoothing_refines_recurrence [of demo_series demo_hw]
    by (simp add: demo_hw_def demo_series_def in64_def)
qed

text \<open>C28: triple exponential smoothing returns exactly when the series is not empty, the season
  length is not zero, and a positive season length fits twice into the series; otherwise it
  panics.\<close>

theorem smoothing_returns_iff:
  "in64 (int (length series)) \<Longrightarrow> in64 (slen p) \<Longrightarrow>
    (\<exists>r. tripleExponentialSmoothing p series = Ret r) \<longleftrightarrow>
    series \<noteq> [] \<and> slen p \<noteq> 0 \<and> (0 < slen p \<longrightarrow> 2 * slen p \<le> int (length series))"
  by (rule smoothing_returns)

theorem smoothing_returns_iff_witness:
  "(\<exists>r. tripleExponentialSmoothing demo_hw demo_series = Ret r) \<and>
   \<not> (\<exists>r. tripleExponentialSmoothing demo_hw (take 3 demo_series) = Ret r)"
  using smoothing_returns_iff [of demo_series demo_hw] smoothing_returns_iff [of "take 3 demo_series" demo_hw]
  by (simp add: demo_hw_def demo_series_def in64_def)

section \<open>A service without load\<close>

definition is_zero :: "f64 \<Rightarrow> bool" where
  "is_zero x \<longleftrightarrow> x = Fin True 0 \<or> x = Fin False 0"

definition unit_factor :: "f64 \<Rightarrow> bool" where
  "unit_factor x \<longleftrightarrow> (\<exists>m. x = Fin False m \<and> m \<le> 1)"

lemma is_zero_fadd: "is_zero a \<Longrightarrow> is_zero b \<Longrightarrow> is_zero (fadd a b)"
  by (auto simp: is_zero_def of_rat64_def)

lemma is_zero_fsub: "is_zero a \<Longrightarrow> is_zero b \<Longrightarrow> is_zero (fsub a b)"
  by (auto simp: is_zero_def fsub_def of_rat64_def)

lemma is_zero_fmul: "is_finite a \<Longrightarrow> is_zero b \<Longrightarrow> is_zero (fmul a b)"
  by (cases a) (auto simp: is_zero_def)

lemma is_zero_fdiv:
  assumes "is_zero a" and "b = Fin s m" and "m \<noteq> 0"
  shows "is_zero (fdiv a b)"
  using assms by (auto simp: is_zero_def)

lemma f64_of_int_pos:
  assumes "0 < k" and "in64 k"
  shows "\<exists>m. f64_of_int k = Fin False m \<and> m \<noteq> 0"
proof -
  have "rnd (of_int 1) \<le> rnd (of_int k)" using assms(1) by (intro rnd_mono) simp
  then have pos: "rnd (of_int k) \<noteq> 0" using rnd_of_int [of 1] by auto
  have "of_int k \<le> (2 :: rat) ^ 63" using assms(2) unfolding in64_def
    by (metis less_imp_le of_int_le_iff of_int_numeral of_int_power)
  then have "rnd (of_int k) \<le> rnd (of_int 1 * 2 powi 63)" by (intro rnd_mono) simp
  also have "\<dots> = 2 powi 63" by (subst rnd_representable) simp_all
  finally have "\<not> overflows (rnd (of_int k))"
    using not_overflows_small [of "rnd (of_int k)" 64] by simp
  with pos assms(1) show ?thesis by (simp add: f64_of_int_def of_rat64_def mk_f64_def)
qed

lemma unit_factor_finite:
  assumes "unit_factor x" and "wf64 x"
  shows "is_finite x" and "is_finite (fsub one64 x)"
proof -
  obtain m where x: "x = Fin False m" "m \<le> 1" using assms(1) by (auto simp: unit_factor_def)
  then have "0 \<le> m" using assms(2) wf64_nonneg by blast
  then have "rnd \<bar>1 - m\<bar> \<le> rnd (of_int 1)" using x(2) by (intro rnd_mono) simp
  then have "rnd \<bar>1 - m\<bar> \<le> 1" using rnd_of_int [of 1] by simp
  then have "\<not> overflows (rnd \<bar>1 - m\<bar>)" using not_overflows_small [of "rnd \<bar>1 - m\<bar>" 1] by simp
  with x show "is_finite x" "is_finite (fsub one64 x)"
    by (auto simp: fsub_def one64_def of_rat64_def mk_f64_def Let_def)
qed

lemmas is_zero_ops = is_zero_fadd is_zero_fsub is_zero_fmul

definition idle :: "f64 list \<Rightarrow> bool" where
  "idle y \<longleftrightarrow> (\<forall>v \<in> set y. is_zero v)"

lemma idle_index: "idle y \<Longrightarrow> index y i = Ret v \<Longrightarrow> is_zero v"
  by (auto simp: idle_def index_def split: if_splits)

lemma idle_slice: "idle y \<Longrightarrow> slice y lo hi = Ret v \<Longrightarrow> idle v"
  by (auto simp: idle_def slice_def split: if_splits dest: in_set_takeD in_set_dropD)

lemma idle_total: "idle y \<Longrightarrow> is_zero z \<Longrightarrow> is_zero (fold (\<lambda>v sum. fadd sum v) y z)"
  by (induction y arbitrary: z) (auto simp: idle_def is_zero_fadd)

lemma is_zero_zero64 [simp]: "is_zero zero64"
  by (simp add: is_zero_def)

lemma is_zero_fdiv_int: "is_zero a \<Longrightarrow> 0 < k \<Longrightarrow> in64 k \<Longrightarrow> is_zero (fdiv a (f64_of_int k))"
  using f64_of_int_pos is_zero_fdiv by blast

lemma idle_initialTrend:
  assumes "idle y" and "0 < slen p" and "in64 (slen p)" and "initialTrend p y = Ret b"
  shows "is_zero b"
proof -
  obtain s where s: "fold_go (\<lambda>i sum.
            and_then (index y (wrap64 (int i + slen p))) (\<lambda>a.
            and_then (index y (int i)) (\<lambda>b.
              Ret (fadd sum (fdiv (fsub a b) (f64_of_int (slen p)))))))
          [0..<nat (slen p)] zero64 = Ret s" "b = fdiv s (f64_of_int (slen p))"
    using assms(4) by (auto simp: initialTrend_def and_then_eq_Ret simp del: index_nat)
  from s(1) have "is_zero s"
    by (rule fold_go_invariant)
      (use assms(1-3) in \<open>auto simp: and_then_eq_Ret simp del: index_nat
        intro!: is_zero_fadd is_zero_fdiv_int is_zero_fsub dest: idle_index\<close>)
  with s(2) assms(2,3) show ?thesis by (simp add: is_zero_fdiv_int)
qed

lemma idle_seasonAverages:
  assumes "idle y" and "0 < slen p" and "in64 (slen p)" and "seasonAverages p y n = Ret av"
  shows "idle av"
  using assms(4) unfolding seasonAverages_def
proof (rule fold_go_invariant)
  fix j s s'
  assume "idle s" and "and_then (slice y (wrap64 (slen p * int j)) (wrap64 (slen p * int j + slen p))) (\<lambda>season.
           Ret (s @ [fdiv (fold (\<lambda>value sum. fadd sum value) season zero64) (f64_of_int (slen p))])) = Ret s'"
  then obtain season where "slice y (wrap64 (slen p * int j)) (wrap64 (slen p * int j + slen p)) = Ret season"
    "s' = s @ [fdiv (fold (\<lambda>value sum. fadd sum value) season zero64) (f64_of_int (slen p))]"
    by (auto simp: and_then_eq_Ret)
  with assms(1-3) \<open>idle s\<close> idle_total [OF idle_slice, of y _ _ season zero64] show "idle s'"
    by (simp add: idle_def is_zero_fdiv_int)
qed (simp add: idle_def)

lemma idle_initialSeasonalComponents:
  assumes y: "idle y" and L: "0 < slen p" "in64 (slen p)" "slen p \<le> int (length y)" "in64 (int (length y))"
    and c: "initialSeasonalComponents p y = Ret c"
  shows "is_zero (c k)"
proof -
  let ?n = "int (length y) div slen p"
  have n: "0 < ?n" using L by (simp add: pos_imp_zdiv_pos_iff)
  have "?n \<le> int (length y)" using L(1) zdiv_mono2 [of "int (length y)" 1 "slen p"] by simp
  with n L(4) have n64: "in64 ?n" by (simp add: in64_def)
  obtain av where av: "seasonAverages p y ?n = Ret av"
    using seasonAverages_Ret [OF L(4) L(1)] by blast
  have zav: "idle av" using idle_seasonAverages [OF y L(1,2) av] .
  have "\<forall>k. is_zero (c k)"
    using c unfolding initialSeasonalComponents_def quot_len [OF L(4) L(1)] and_then.simps av
  proof (rule fold_go_invariant)
    fix i and s s' :: "int \<Rightarrow> f64"
    assume s: "\<forall>k. is_zero (s k)"
      and "and_then (fold_go (\<lambda>j sum.
                  and_then (index y (wrap64 (slen p * int j + int i))) (\<lambda>v.
                  and_then (index av (int j)) (\<lambda>a. Ret (fadd sum (fsub v a)))))
                [0..<nat ?n] zero64)
             (\<lambda>sum. Ret (s(int i := fdiv sum (f64_of_int ?n)))) = Ret s'"
    then obtain t where t: "fold_go (\<lambda>j sum.
                  and_then (index y (wrap64 (slen p * int j + int i))) (\<lambda>v.
                  and_then (index av (int j)) (\<lambda>a. Ret (fadd sum (fsub v a)))))
                [0..<nat ?n] zero64 = Ret t" and s': "s' = s(int i := fdiv t (f64_of_int ?n))"
      by (auto simp: and_then_eq_Ret simp del: index_nat)
    from t have "is_zero t"
      by (rule fold_go_invariant)
        (use y zav in \<open>auto simp: and_then_eq_Ret simp del: index_nat
          intro!: is_zero_fadd is_zero_fsub dest: idle_index\<close>)
    with s s' n n64 show "\<forall>k. is_zero (s' k)" by (simp add: is_zero_fdiv_int)
  qed simp
  then show ?thesis by blast
qed

definition idle_state :: "smoothing \<Rightarrow> bool" where
  "idle_state s \<longleftrightarrow>
     idle (result s) \<and> is_zero (smooth s) \<and> is_zero (trend s) \<and> (\<forall>k. is_zero (seasonals s k))"

text \<open>The three smoothing factors of a sensible configuration.\<close>

definition unit_factors :: "HoltWinter \<Rightarrow> bool" where
  "unit_factors p \<longleftrightarrow> (\<forall>x \<in> {alpha p, beta p, gamma p}. unit_factor x \<and> wf64 x)"

lemma idle_step:
  assumes "idle y" and "y \<noteq> []" and "unit_factors p" and "in64 (int i)" and s: "idle_state s"
  shows "idle_state (smooth_step p y i s)"
proof -
  have fin: "is_finite x" "is_finite (fsub one64 x)" if "x \<in> {alpha p, beta p, gamma p}" for x
    using assms(3) that unit_factor_finite by (auto simp: unit_factors_def)
  consider "i = 0" | "0 < i" "i < length y" | "0 < i" "length y \<le> i" by linarith
  then show ?thesis
  proof cases
    case 1
    then show ?thesis using s assms(1,2) by (auto simp: idle_state_def smooth_step_def idle_def)
  next
    case 2
    then have "is_zero (y ! i)" using assms(1) by (simp add: idle_def)
    then show ?thesis using 2 s fin
      by (auto simp: idle_state_def smooth_step_def Let_def idle_def intro!: is_zero_ops)
  next
    case 3
    have "0 < int (i - length y + 1)" by simp
    moreover have "in64 (int (i - length y + 1))"
      using assms(2,4) 3 by (cases y) (auto simp: in64_def)
    ultimately have "is_finite (f64_of_int (int (i - length y + 1)))"
      using f64_of_int_pos by fastforce
    then show ?thesis using 3 s
      by (auto simp: idle_state_def smooth_step_def Let_def idle_def intro!: is_zero_ops)
  qed
qed

text \<open>A series of zeros, smoothed with factors between 0 and 1, is predicted to stay zero: the
  prediction for a service without load asks for no replicas.\<close>

lemma idle_series_predicts_zero:
  assumes y: "idle y" "in64 (int (length y))" and L: "in64 (slen p)" "0 < slen p" "2 * slen p \<le> int (length y)"
    and f: "unit_factors p"
  shows "\<exists>r. tripleExponentialSmoothing p y = Ret r \<and> idle r"
proof -
  have ne: "y \<noteq> []" using L(2,3) by auto
  obtain b where b: "initialTrend p y = Ret b" using initialTrend_Ret [OF y(2) L(2,3)] by blast
  obtain c where c: "initialSeasonalComponents p y = Ret c"
    using initialSeasonalComponents_Ret [OF y(2)] L(2) by force
  let ?n = "nat (wrap64 (int (length y) + lookForward p))"
  let ?s = "\<lparr>result = [], smooth = y ! 0, trend = b, seasonals = c\<rparr>"
  have "idle_state ?s"
    using idle_initialTrend [OF y(1) L(2,1) b] idle_initialSeasonalComponents [OF y(1) L(2,1) _ y(2) c] L(2,3) ne y(1)
    by (auto simp: idle_state_def idle_def)
  moreover have "in64 (int i)" if "i < ?n" for i
    using that in64_wrap64 [of "int (length y) + lookForward p"] by (auto simp: in64_def)
  ultimately have "idle_state (fold (smooth_step p y) [0..<?n] ?s)"
    using idle_step [OF y(1) ne f] by (intro fold_upt_invariant [where P = "\<lambda>_. idle_state"]) auto
  with b c ne show ?thesis
    by (auto simp: tripleExponentialSmoothing_def index_def idle_state_def)
qed

section \<open>Prediction from a collector\<close>

text \<open>\<open>Predict\<close> asked before the collector holds \<open>look_backward\<close> samples returns the error
  NO_SUFFICENT_DATA and leaves the samples in the collector.\<close>

lemma hw_Predict_insufficient:
  "mc_DataCap c < lookBackward p \<Longrightarrow> hw_Predict p c = (Err NO_SUFFICENT_DATA, c)"
  by (simp add: hw_Predict_def)

definition demo_worker :: "sample list \<Rightarrow> MetricCollector" where
  "demo_worker d = PromWorker \<lparr>w_type = \<lparr>mt_Name = ''cpu'', mt_Unit = ''m''\<rparr>, promql = ''up'', data = d, w_client = None\<rparr>"

lemma hw_Predict_window:
  assumes "lookBackward p \<le> int (length (data w))" and "in64 (int (length (data w)))"
    and "0 < slen p" and "2 * slen p \<le> lookBackward p"
    and "0 \<le> lookForward p" and "in64 (lookBackward p + lookForward p)"
  shows "\<exists>r. hw_Predict p (PromWorker w) = (Ret r, PromWorker (w\<lparr>data := []\<rparr>)) \<and>
    (let window = map Value (drop (length (data w) - nat (lookBackward p)) (data w))
     in tripleExponentialSmoothing p window = Ret (PredictMetric r) \<and> StartMetric r = last window \<and>
        hd (PredictMetric r) = hd window \<and> length (PredictMetric r) = nat (lookBackward p + lookForward p))"
proof -
  let ?m = "drop (length (data w) - nat (lookBackward p)) (data w)"
  let ?y = "map Value ?m"
  have len: "int (length ?m) = lookBackward p" using assms(1,3,4) by simp
  then have ne: "?m \<noteq> []" and y: "in64 (int (length ?y))" "2 * slen p \<le> int (length ?y)"
    using assms(1-4) by (auto simp: in64_def)
  obtain b c where r: "tripleExponentialSmoothing p ?y =
      Ret (map (hw_value p ?y b c) [0..<nat (lookBackward p + lookForward p)])"
    using smoothing_refines [OF y(1) assms(3) y(2)] wrap64_id [OF assms(6)] len
    by (metis length_map)
  have "slice (data w) (wrap64 (int (length (data w)) - lookBackward p)) (int (length (data w))) = Ret ?m"
    using assms(1-4) by (subst wrap64_id) (auto simp: in64_def slice_from)
  moreover have "index ?y (int (length ?y) - 1) = Ret (last ?y)"
    using ne by (simp add: index_def last_conv_nth nat_diff_distrib Suc_le_eq)
  moreover have "hd (map (hw_value p ?y b c) [0..<nat (lookBackward p + lookForward p)]) = hd ?y"
    using ne len assms(3-5) by (simp add: hd_map hw_value_def hd_conv_nth upt_conv_Cons)
  ultimately show ?thesis
    using r assms(1) by (auto simp: hw_Predict_def worker_DataCap_def worker_Send_def Let_def)
qed

text \<open>C29: with enough samples and a season that fits twice into \<open>look_backward\<close>, \<open>Predict\<close> succeeds:
  it smooths the values of the last \<open>look_backward\<close> samples, reports the newest one as the start,
  returns \<open>look_backward + look_forward\<close> values of which the first is the oldest sample of the
  window, and takes every sample from the collector.\<close>

theorem hw_Predict_succeeds:
  assumes "lookBackward p \<le> int (length (data w))" and "in64 (int (length (data w)))"
    and "0 < slen p" and "2 * slen p \<le> lookBackward p"
    and "0 \<le> lookForward p" and "in64 (lookBackward p + lookForward p)"
  shows "\<exists>r. hw_Predict p (PromWorker w) = (Ret r, PromWorker (w\<lparr>data := []\<rparr>)) \<and>
    (let window = map Value (drop (length (data w) - nat (lookBackward p)) (data w))
     in tripleExponentialSmoothing p window = Ret (PredictMetric r) \<and> StartMetric r = last window \<and>
        hd (PredictMetric r) = hd window \<and> length (PredictMetric r) = nat (lookBackward p + lookForward p))"
  using assms by (rule hw_Predict_window)

definition demo_samples :: "sample list" where
  "demo_samples = map (\<lambda>i. \<lparr>Value = f64_of_int i, TimeStamp = i\<rparr>) [5, 10, 20, 12, 22]"

theorem hw_Predict_succeeds_witness:
  "\<exists>r w. hw_Predict demo_hw (demo_worker demo_samples) = (Ret r, PromWorker w) \<and> data w = [] \<and>
     StartMetric r = f64_of_int 22 \<and> hd (PredictMetric r) = f64_of_int 10 \<and> length (PredictMetric r) = 7"
  using hw_Predict_succeeds [of demo_hw "\<lparr>w_type = \<lparr>mt_Name = ''cpu'', mt_Unit = ''m''\<rparr>, promql = ''up'',
    data = demo_samples, w_client = None\<rparr>"]
  by (auto simp: demo_hw_def demo_samples_def demo_worker_def in64_def Let_def)

end
