(* ===== verification/Utils.thy ===== *)
theory Utils
  imports Prelude
begin

text \<open>
  The slice helpers of utils/common.go at the type the program uses them at, \<open>int32\<close>. An index
  out of range panics.
\<close>

definition utils_Max :: "int32 list \<Rightarrow> int32 go" where
  "utils_Max x =
     (case x of
        [] \<Rightarrow> Panic IndexOutOfRange
      | x0 # rest \<Rightarrow> Ret (fold (\<lambda>y m. if gt32 y m then y else m) rest x0))"

definition utils_Min :: "int32 list \<Rightarrow> int32 go" where
  "utils_Min x =
     (case x of
        [] \<Rightarrow> Panic IndexOutOfRange
      | x0 # rest \<Rightarrow> Ret (fold (\<lambda>y m. if gt32 m y then y else m) rest x0))"

definition MulSlice :: "int32 \<Rightarrow> int32 list \<Rightarrow> int32 list" where
  "MulSlice k nums = List.map (\<lambda>n. n * k) nums"

text \<open>
  \<open>AddSlice\<close> ranges over its arguments and adds to position \<open>i\<close> of the result the element \<open>i\<close> of
  argument \<open>i\<close>.
\<close>

definition AddSlice :: "int32 list list \<Rightarrow> int32 list go" where
  "AddSlice nums =
     (case nums of
        [] \<Rightarrow> Panic IndexOutOfRange
      | n0 # _ \<Rightarrow>
          fold_go (\<lambda>(i, num) res.
                     if i < length res \<and> i < length num then Ret (res[i := res ! i + num ! i])
                     else Panic IndexOutOfRange)
            (List.enumerate 0 nums) (replicate (length n0) 0))"

lemma utils_Max2 [simp]: "utils_Max [a, b] = Ret (max32 a b)"
  by (simp add: utils_Max_def max32_def)

lemma utils_Min2 [simp]: "utils_Min [a, b] = Ret (min32 a b)"
  by (simp add: utils_Min_def min32_def)

lemma fold_max_sint:
  "sint (fold (\<lambda>y m. if gt32 y m then y else m) ys x) = Max (sint ` set (x # ys))"
proof (induction ys arbitrary: x)
  case (Cons y ys)
  have "sint (if gt32 y x then y else x) = max (sint x) (sint y)"
    by (auto simp: gt32_def)
  with Cons [of "if gt32 y x then y else x"] show ?case
    by (cases "ys = []") (simp_all add: Max.insert_not_elem max.assoc)
qed simp

lemma utils_Max_sint:
  assumes "xs \<noteq> []"
  shows "\<exists>m. utils_Max xs = Ret m \<and> m \<in> set xs \<and> sint m = Max (sint ` set xs)"
proof -
  obtain x ys where xs: "xs = x # ys" using assms by (cases xs) auto
  let ?m = "fold (\<lambda>y m. if gt32 y m then y else m) ys x"
  have "?m \<in> set xs"
    unfolding xs by (induction ys arbitrary: x) auto
  with xs show ?thesis by (auto simp: utils_Max_def fold_max_sint)
qed

lemma utils_Max_Ret_iff: "(\<exists>m. utils_Max xs = Ret m) \<longleftrightarrow> xs \<noteq> []"
  by (cases xs) (auto simp: utils_Max_def)

text \<open>What \<open>AddSlice\<close> computes: the diagonal of its arguments.\<close>

definition diagonal :: "int32 list list \<Rightarrow> int32 list" where
  "diagonal nums = List.map (\<lambda>i. if i < length nums then nums ! i ! i else 0) [0..<length (hd nums)]"

lemma AddSlice_loop:
  assumes "i + length nums \<le> length res" and "\<forall>j < length nums. i + j < length (nums ! j)"
  shows "fold_go (\<lambda>(i, num) res.
                     if i < length res \<and> i < length num then Ret (res[i := res ! i + num ! i])
                     else Panic IndexOutOfRange)
            (List.enumerate i nums) res
       = Ret (List.map (\<lambda>j. if i \<le> j \<and> j < i + length nums then res ! j + nums ! (j - i) ! j else res ! j)
               [0..<length res])"
  using assms
proof (induction nums arbitrary: i res)
  case Nil
  then show ?case by (auto intro!: nth_equalityI)
next
  case (Cons num nums)
  let ?r = "res[i := res ! i + num ! i]"
  have "i < length num" "i < length res" using Cons.prems(1) Cons.prems(2) [rule_format, of 0] by auto
  moreover have "\<forall>j < length nums. Suc i + j < length (nums ! j)"
    using Cons.prems(2) by force
  with Cons.prems(1) have "fold_go (\<lambda>(i, num) res.
                     if i < length res \<and> i < length num then Ret (res[i := res ! i + num ! i])
                     else Panic IndexOutOfRange) (List.enumerate (Suc i) nums) ?r
       = Ret (List.map (\<lambda>j. if Suc i \<le> j \<and> j < Suc i + length nums then ?r ! j + nums ! (j - Suc i) ! j else ?r ! j)
               [0..<length ?r])"
    by (intro Cons.IH) auto
  ultimately show ?case
    by (auto simp: nth_list_update nth_Cons' intro!: arg_cong [where f = Ret])
qed

lemma AddSlice_diagonal:
  assumes "nums \<noteq> []" and "length nums \<le> length (hd nums)"
    and "\<forall>i < length nums. i < length (nums ! i)"
  shows "AddSlice nums = Ret (diagonal nums)"
proof -
  obtain n0 r where nums: "nums = n0 # r" using assms(1) by (cases nums) auto
  have "AddSlice nums = Ret (List.map (\<lambda>j. if j < length nums then replicate (length n0) 0 ! j + nums ! j ! j
            else replicate (length n0) 0 ! j) [0..<length n0])"
    using AddSlice_loop [of 0 nums "replicate (length n0) 0"] assms nums
    by (simp add: AddSlice_def)
  then show ?thesis
    by (auto simp: diagonal_def nums intro!: arg_cong [where f = Ret] cong: map_cong)
qed

end
