(* ===== verification/Socket.thy ===== *)
theory Socket
  imports Utils
begin

text \<open>
  utils/socket.go: one request over a socket, one response. The network is the standard library's:
  a connection is described by what its calls return. A read may be asked for ever, so the calls
  that read in a loop are partial: None is a call that does not return.
\<close>

section \<open>Connections\<close>

definition EOF :: gerr where
  "EOF = External ''EOF''"

text \<open>
  \<open>conn_read sent k n\<close> is the result of the \<open>k\<close>-th read into a buffer of \<open>n\<close> bytes when \<open>sent\<close> has been
  written on the connection: the bytes and the error. What the peer answers depends on what it was sent.
\<close>

record conn =
  conn_write :: "string \<Rightarrow> gerr option"
  conn_read :: "string \<Rightarrow> nat \<Rightarrow> int \<Rightarrow> string \<times> gerr option"
  conn_close :: "gerr option"

type_synonym dialer = "string \<Rightarrow> string \<Rightarrow> gerr + conn"

section \<open>Requests\<close>

record SocketReq =
  address :: string
  network :: string
  body :: string
  bufferSize :: int

text \<open>The setters are methods of a pointer; the nil pointer is returned as it is.\<close>

definition SetAddress :: "string \<Rightarrow> SocketReq option \<Rightarrow> SocketReq option" where
  "SetAddress a r = (case r of None \<Rightarrow> None | Some q \<Rightarrow> Some (q\<lparr>address := a\<rparr>))"

definition SetNetwork :: "string \<Rightarrow> SocketReq option \<Rightarrow> SocketReq option" where
  "SetNetwork n r = (case r of None \<Rightarrow> None | Some q \<Rightarrow> Some (q\<lparr>network := n\<rparr>))"

definition SetBody :: "string \<Rightarrow> SocketReq option \<Rightarrow> SocketReq option" where
  "SetBody b r = (case r of None \<Rightarrow> None | Some q \<Rightarrow> Some (q\<lparr>body := b @ [CHR 0x0A]\<rparr>))"

definition SetBufferSize :: "int \<Rightarrow> SocketReq option \<Rightarrow> SocketReq option" where
  "SetBufferSize n r = (case r of None \<Rightarrow> None | Some q \<Rightarrow> Some (q\<lparr>bufferSize := n\<rparr>))"

definition empty_SocketReq :: SocketReq where
  "empty_SocketReq = \<lparr>address = [], network = [], body = [], bufferSize = 0\<rparr>"

definition fixSocketReq :: "SocketReq \<Rightarrow> SocketReq" where
  "fixSocketReq req =
     (let req = (if bufferSize req \<le> 0 then req\<lparr>bufferSize := 1024\<rparr> else req)
      in if network req \<noteq> ''tcp'' \<and> network req \<noteq> ''udp'' \<and> network req \<noteq> ''unix''
         then req\<lparr>network := ''tcp''\<rparr> else req)"

section \<open>Sending\<close>

text \<open>
  The results are named, and the deferred close assigns the error result: whatever error a return
  statement names is replaced by the one of \<open>Close\<close>. The functions below give the response
  and the error as the return statement names them; \<open>SocketSendReq\<close> applies the deferred close.
\<close>

partial_function (option) read_rest ::
  "conn \<Rightarrow> string \<Rightarrow> int \<Rightarrow> nat \<Rightarrow> int \<Rightarrow> string \<Rightarrow> (string \<times> gerr option) option" where
  "read_rest c sent sz k n rsp =
     (if n \<noteq> sz then Some (rsp, None)
      else (let (bytes, err) = conn_read c sent k sz
            in if err = Some EOF then Some (rsp, err)
               else if err \<noteq> None then Some ([], err)
               else read_rest c sent sz (k + 1) (int (length bytes)) (rsp @ bytes)))"

declare read_rest.simps [code]

definition converse_with :: "SocketReq \<Rightarrow> conn \<Rightarrow> (string \<times> gerr option) option" where
  "converse_with req c =
     (case conn_write c (body req) of
        Some e \<Rightarrow> Some ([], Some e)
      | None \<Rightarrow>
          (let (bytes, err) = conn_read c (body req) 0 (bufferSize req)
           in if err \<noteq> None then Some ([], err)
              else read_rest c (body req) (bufferSize req) 1 (int (length bytes)) bytes))"

definition SocketSendReq :: "dialer \<Rightarrow> SocketReq \<Rightarrow> (string \<times> gerr option) option" where
  "SocketSendReq dial req =
     (let req = fixSocketReq req
      in case dial (network req) (address req) of
           Inl e \<Rightarrow> Some ([], Some e)
         | Inr c \<Rightarrow>
             (case converse_with req c of
                None \<Rightarrow> None
              | Some (rsp, err) \<Rightarrow> Some (rsp, conn_close c)))"

section \<open>Lemmas\<close>

lemma fixSocketReq_valid:
  "0 < bufferSize (fixSocketReq r) \<and> network (fixSocketReq r) \<in> {''tcp'', ''udp'', ''unix''} \<and>
   address (fixSocketReq r) = address r \<and> body (fixSocketReq r) = body r"
  by (simp add: fixSocketReq_def Let_def)

lemma fixSocketReq_idem: "fixSocketReq (fixSocketReq r) = fixSocketReq r"
  by (simp add: fixSocketReq_def Let_def)

section \<open>What a peer sends\<close>

text \<open>
  A read returns what has arrived, at most the room of its buffer and possibly less, so a peer is described by the
  chunks that the reads of it return, in a row, and by the read that ends them, with its error (EOF
  when the peer has closed) and the bytes it may still bring.
\<close>

definition delivers :: "conn \<Rightarrow> string \<Rightarrow> int \<Rightarrow> string list \<Rightarrow> string \<Rightarrow> gerr \<Rightarrow> bool" where
  "delivers c sent sz chunks tail final \<longleftrightarrow>
     (\<forall>k. conn_read c sent k sz = (if k < length chunks then (chunks ! k, None) else (tail, Some final))) \<and>
     (\<forall>b \<in> set chunks. int (length b) \<le> sz)"

text \<open>The chunks up to the first that does not fill the buffer.\<close>

fun up_to_short :: "int \<Rightarrow> string list \<Rightarrow> string list" where
  "up_to_short sz [] = []"
| "up_to_short sz (b # bs) = (if int (length b) = sz then b # up_to_short sz bs else [b])"

definition all_full :: "int \<Rightarrow> string list \<Rightarrow> bool" where
  "all_full sz bs \<longleftrightarrow> (\<forall>b \<in> set bs. int (length b) = sz)"

lemma all_full_simps [simp]:
  "all_full sz []" "all_full sz (b # bs) \<longleftrightarrow> int (length b) = sz \<and> all_full sz bs"
  by (simp_all add: all_full_def)

lemma up_to_short_full: "all_full sz bs \<Longrightarrow> up_to_short sz bs = bs"
  by (induction bs) simp_all

text \<open>Nothing is left out exactly if no chunk before the last one is short.\<close>

lemma up_to_short_all:
  "\<forall>b \<in> set chunks. b \<noteq> [] \<Longrightarrow> concat (up_to_short sz chunks) = concat chunks \<longleftrightarrow> all_full sz (butlast chunks)"
  by (induction chunks) auto

lemma nth_drop_Cons: "drop k xs = b # bs \<Longrightarrow> k < length xs \<and> xs ! k = b \<and> drop (Suc k) xs = bs"
  by (metis Cons_nth_drop_Suc drop_all list.inject list.simps(3) not_le)

lemma read_rest_delivers:
  assumes "delivers c sent sz chunks tail final" and "drop k chunks = bs"
  shows "read_rest c sent sz k n rsp =
    Some (if n \<noteq> sz then (rsp, None)
          else if all_full sz bs \<and> final \<noteq> EOF then ([], Some final)
          else (rsp @ concat (up_to_short sz bs), if all_full sz bs then Some EOF else None))"
  using assms(2)
proof (induction bs arbitrary: k n rsp)
  case Nil
  then show ?case using assms(1) by (subst read_rest.simps) (simp add: delivers_def)
next
  case (Cons b bs)
  then have k: "k < length chunks" "chunks ! k = b" "drop (Suc k) chunks = bs"
    using nth_drop_Cons [OF Cons.prems] by simp_all
  then have "conn_read c sent k sz = (b, None)" using assms(1) by (simp add: delivers_def)
  then show ?case using Cons.IH [OF k(3), of "int (length b)" "rsp @ b"] by (subst read_rest.simps) simp
qed

text \<open>A whole exchange: what the return statements name.\<close>

lemma converse_delivers:
  assumes "conn_write c (body q) = None" and "delivers c (body q) (bufferSize q) chunks tail final"
  shows "converse_with q c =
    Some (if chunks = [] \<or> all_full (bufferSize q) chunks \<and> final \<noteq> EOF then ([], Some final)
          else (concat (up_to_short (bufferSize q) chunks), if all_full (bufferSize q) chunks then Some EOF else None))"
proof (cases chunks)
  case Nil
  with assms show ?thesis by (simp add: converse_with_def delivers_def)
next
  case (Cons b bs)
  then have "conn_read c (body q) 0 (bufferSize q) = (b, None)" using assms(2) by (simp add: delivers_def)
  with assms(1) read_rest_delivers [OF assms(2), of 1 bs] Cons show ?thesis by (simp add: converse_with_def)
qed

lemma SocketSendReq_delivers:
  assumes "dial (network (fixSocketReq q)) (address q) = Inr c" and "conn_write c (body q) = None"
    and "delivers c (body q) (bufferSize (fixSocketReq q)) chunks tail final"
  shows "SocketSendReq dial q =
    Some (if chunks = [] \<or> all_full (bufferSize (fixSocketReq q)) chunks \<and> final \<noteq> EOF then []
          else concat (up_to_short (bufferSize (fixSocketReq q)) chunks), conn_close c)"
  using converse_delivers [of c "fixSocketReq q" chunks tail final] assms fixSocketReq_valid [of q]
  by (simp add: SocketSendReq_def Let_def)

text \<open>A peer that sends the chunks, and one whose chunks depend on what it was sent.\<close>

definition script :: "(string \<Rightarrow> string list) \<Rightarrow> gerr \<Rightarrow> gerr option \<Rightarrow> conn" where
  "script reply final closing =
     \<lparr>conn_write = (\<lambda>_. None),
      conn_read = (\<lambda>sent k n. if k < length (reply sent) then (reply sent ! k, None) else ([], Some final)),
      conn_close = closing\<rparr>"

lemma script_delivers:
  "\<forall>b \<in> set (reply sent). int (length b) \<le> sz \<Longrightarrow> delivers (script reply final closing) sent sz (reply sent) [] final"
  by (simp add: delivers_def script_def)

lemma script_simps [simp]: "conn_write (script reply final closing) b = None" "conn_close (script reply final closing) = closing"
  by (simp_all add: script_def)

section \<open>Properties\<close>

text \<open>C37: when the write succeeds and the peer sends \<open>chunks\<close>, as the reads return them, and closes or falls
  silent behind a chunk that does not fill the buffer, the call returns after finitely many reads, with
  the error of the close alone and with the chunks up to the first that does not fill the buffer. Of
  non-empty chunks this is all that was sent exactly if no chunk but the last is short: an answer
  that arrives in smaller pieces is cut, although the peer has not closed.\<close>

theorem SocketSendReq_stops_at_short_read:
  assumes "dial (network (fixSocketReq q)) (address q) = Inr c" and "conn_write c (body q) = None"
    and "delivers c (body q) (bufferSize (fixSocketReq q)) chunks tail final" and "chunks \<noteq> []"
    and "final = EOF \<or> \<not> all_full (bufferSize (fixSocketReq q)) chunks"
  shows "\<exists>rsp. SocketSendReq dial q = Some (rsp, conn_close c) \<and> rsp = concat (up_to_short (bufferSize (fixSocketReq q)) chunks) \<and>
    ((\<forall>b \<in> set chunks. b \<noteq> []) \<longrightarrow> (rsp = concat chunks \<longleftrightarrow> all_full (bufferSize (fixSocketReq q)) (butlast chunks)))"
  using SocketSendReq_delivers [where dial = dial, OF assms(1-3)] assms(4,5) up_to_short_all by auto

definition demo_req :: SocketReq where
  "demo_req = empty_SocketReq\<lparr>bufferSize := 4\<rparr>"

text \<open>The same answer in two ways: in full buffers it arrives whole, with a short read first it is cut.\<close>

theorem SocketSendReq_stops_at_short_read_witness:
  "SocketSendReq (\<lambda>_ _. Inr (script (\<lambda>_. [''{tra'', ''ined'', ''}'']) EOF None)) demo_req = Some (''{trained}'', None) \<and>
   SocketSendReq (\<lambda>_ _. Inr (script (\<lambda>_. [''{tr'', ''aine'', ''d}'']) EOF None)) demo_req = Some (''{tr'', None)"
proof
  have use: "SocketSendReq (\<lambda>_ _. Inr (script (\<lambda>_. chunks) EOF None)) demo_req = Some (concat (up_to_short 4 chunks), None)"
    if "\<forall>b \<in> set chunks. int (length b) \<le> 4" "chunks \<noteq> []" for chunks
  proof -
    have buf: "bufferSize (fixSocketReq demo_req) = 4" by (simp add: demo_req_def fixSocketReq_def empty_SocketReq_def)
    have "delivers (script (\<lambda>_. chunks) EOF None) (body demo_req) 4 chunks [] EOF" by (rule script_delivers) (use that in simp)
    from SocketSendReq_stops_at_short_read [where dial = "\<lambda>_ _. Inr (script (\<lambda>_. chunks) EOF None)", OF refl script_simps(1),
        of demo_req, unfolded buf, OF this that(2)] show ?thesis by simp
  qed
  show "SocketSendReq (\<lambda>_ _. Inr (script (\<lambda>_. [''{tra'', ''ined'', ''}'']) EOF None)) demo_req = Some (''{trained}'', None)"
    by (subst use) simp_all
  show "SocketSendReq (\<lambda>_ _. Inr (script (\<lambda>_. [''{tr'', ''aine'', ''d}'']) EOF None)) demo_req = Some (''{tr'', None)"
    by (subst use) simp_all
qed

text \<open>C38: whatever error ends the exchange - of the write, of the first read (EOF included), or of a later
  read after any number of full buffers (EOF excepted, which is the regular end) - it does not reach the
  caller, and neither does what was read before it: the call returns the empty response with the error
  of the close, which is nil when the close succeeds.\<close>

theorem SocketSendReq_drops_errors:
  assumes "dial (network (fixSocketReq q)) (address q) = Inr c"
    and "conn_write c (body q) \<noteq> None \<or>
      delivers c (body q) (bufferSize (fixSocketReq q)) chunks tail final \<and> all_full (bufferSize (fixSocketReq q)) chunks \<and>
      (chunks = [] \<or> final \<noteq> EOF)"
  shows "SocketSendReq dial q = Some ([], conn_close c)"
proof (cases "conn_write c (body q)")
  case None
  with assms(2) show ?thesis using SocketSendReq_delivers [where dial = dial, OF assms(1) None, of chunks tail final] by auto
next
  case (Some e)
  with assms(1) show ?thesis using fixSocketReq_valid [of q] by (simp add: SocketSendReq_def converse_with_def Let_def)
qed

theorem SocketSendReq_drops_errors_witness:
  "SocketSendReq (\<lambda>_ _. Inr (script (\<lambda>_. [''{tra'', ''ined'']) (External ''connection reset by peer'') None)) demo_req = Some ([], None) \<and>
   SocketSendReq (\<lambda>_ _. Inr ((script (\<lambda>_. []) EOF None)\<lparr>conn_write := \<lambda>_. Some (External ''broken pipe'')\<rparr>)) demo_req = Some ([], None)"
proof
  let ?chunks = "[''{tra'', ''ined'']" and ?e = "External ''connection reset by peer''"
  have buf: "bufferSize (fixSocketReq demo_req) = 4" by (simp add: demo_req_def fixSocketReq_def empty_SocketReq_def)
  have "delivers (script (\<lambda>_. ?chunks) ?e None) (body demo_req) 4 ?chunks [] ?e" by (rule script_delivers) simp
  then show "SocketSendReq (\<lambda>_ _. Inr (script (\<lambda>_. ?chunks) ?e None)) demo_req = Some ([], None)"
    using SocketSendReq_drops_errors [where dial = "\<lambda>_ _. Inr (script (\<lambda>_. ?chunks) ?e None)", OF refl, of demo_req ?chunks "[]" ?e]
    by (simp add: buf EOF_def)
  show "SocketSendReq (\<lambda>_ _. Inr ((script (\<lambda>_. []) EOF None)\<lparr>conn_write := \<lambda>_. Some (External ''broken pipe'')\<rparr>)) demo_req = Some ([], None)"
    by (subst SocketSendReq_drops_errors, rule refl) simp_all
qed

end
