(* ===== verification/Gru.thy ===== *)
theory Gru
  imports HoltWinter Socket
begin

text \<open>
  predictor/GRU: the predictor whose model runs in a Python process behind a socket. The process,
  the text of a request and the reading of a response are parameters; starting the process has no
  effect here. \<open>json.Marshal\<close> refuses the numbers JSON does not have.
\<close>

section \<open>Data\<close>

record GRUModel =
  Address :: string
  RespRecvAdress :: string
  LookBack :: int
  LookForward :: int
  BatchSize :: int
  TrainSize :: int
  Epochs :: int
  NLayers :: int

record GRU =
  MetricHistory :: "sample list"
  gru_withModelKey :: string
  gru_model :: GRUModel
  gru_collectorWorker :: addr
  readyToPredict :: bool
  gru_address :: string
  gru_debug :: bool

record Request =
  req_Key :: string
  PredictHistory :: "f64 list"
  req_TrainHistory :: "f64 list"
  req_RespRecvAdress :: string
  req_LookBack :: int
  req_LookForward :: int
  req_BatchSize :: int
  req_Epochs :: int
  req_NLayers :: int

record Response =
  rsp_Loss :: f64
  Trained :: bool
  Prediction :: "f64 list"
  rsp_Error :: string

record gru_libs =
  net_Dial :: dialer
  encode_json :: "Request \<Rightarrow> string"
  decode_json :: "string \<Rightarrow> gerr + Response"

definition Marshal :: "gru_libs \<Rightarrow> Request \<Rightarrow> string go" where
  "Marshal lib r =
     (if list_all is_finite (PredictHistory r) \<and> list_all is_finite (req_TrainHistory r)
      then Ret (encode_json lib r) else Err (External ''json: unsupported value''))"

fun Unmarshal :: "gru_libs \<Rightarrow> string \<Rightarrow> Response go" where
  "Unmarshal lib s = (case decode_json lib s of Inl e \<Rightarrow> Err e | Inr r \<Rightarrow> Ret r)"

section \<open>Construction\<close>

definition gru_params :: "(string, string) gomap \<Rightarrow> GRUModel go" where
  "gru_params model =
     and_then (Atoi (json_field model ''look_back'')) (\<lambda>lookBack.
     and_then (Atoi (json_field model ''look_forward'')) (\<lambda>lookForward.
     and_then (Atoi (json_field model ''batch_size'')) (\<lambda>batchSize.
     and_then (Atoi (json_field model ''train_size'')) (\<lambda>trainSize.
     and_then (Atoi (json_field model ''epochs'')) (\<lambda>epochs.
     and_then (Atoi (json_field model ''n_layers'')) (\<lambda>nLayers.
       Ret \<lparr>Address = json_field model ''address'', RespRecvAdress = json_field model ''resp_recv_address'',
            LookBack = lookBack, LookForward = lookForward, BatchSize = batchSize,
            TrainSize = trainSize, Epochs = epochs, NLayers = nLayers\<rparr>))))))"

text \<open>\<open>New\<close> takes what the collector holds into \<open>MetricHistory\<close>.\<close>

definition gru_New ::
  "addr \<Rightarrow> MetricCollector \<Rightarrow> (string, string) gomap \<Rightarrow> string \<Rightarrow> GRU go \<times> MetricCollector" where
  "gru_New collectorWorker c model withModelKey =
     (case gru_params model of
        Err e \<Rightarrow> (Err e, c)
      | Panic x \<Rightarrow> (Panic x, c)
      | Ret m \<Rightarrow>
          (let (history, c') = mc_Send c
           in (Ret \<lparr>MetricHistory = history, gru_withModelKey = withModelKey, gru_model = m,
                    gru_collectorWorker = collectorWorker, readyToPredict = False,
                    gru_address = json_field model ''address'',
                    gru_debug = (json_field model ''debug'' = ''true'')\<rparr>, c')))"

section \<open>Predict\<close>

definition predict_request :: "GRU \<Rightarrow> f64 list \<Rightarrow> Request" where
  "predict_request g predictHistory =
     \<lparr>req_Key = gru_withModelKey g, PredictHistory = predictHistory, req_TrainHistory = [],
      req_RespRecvAdress = [], req_LookBack = LookBack (gru_model g),
      req_LookForward = LookForward (gru_model g), req_BatchSize = 0, req_Epochs = 0, req_NLayers = 0\<rparr>"

definition ask :: "gru_libs \<Rightarrow> GRU \<Rightarrow> string \<Rightarrow> string go option" where
  "ask lib g payload =
     (case SetNetwork ''unix'' (SetBody payload (SetAddress (gru_address g) (Some empty_SocketReq))) of
        None \<Rightarrow> Some (Panic NilDereference)
      | Some socketReq \<Rightarrow>
          (case SocketSendReq (net_Dial lib) socketReq of
             None \<Rightarrow> None
           | Some (socketRsp, None) \<Rightarrow> Some (Ret socketRsp)
           | Some (socketRsp, Some e) \<Rightarrow> Some (Err e)))"

definition understand :: "gru_libs \<Rightarrow> f64 list \<Rightarrow> string \<Rightarrow> PredictResult go" where
  "understand lib predictHistory socketRsp =
     and_then (Unmarshal lib socketRsp) (\<lambda>response.
       if \<not> Trained response then Err UNREADY_TO_PREDICT
       else and_then (index predictHistory (int (length predictHistory) - 1)) (\<lambda>start.
              Ret \<lparr>StartMetric = start, Loss = rsp_Loss response, PredictMetric = Prediction response\<rparr>))"

definition gru_Predict ::
  "gru_libs \<Rightarrow> GRU \<Rightarrow> MetricCollector \<Rightarrow> (PredictResult go \<times> MetricCollector) option" where
  "gru_Predict lib g c =
     (if \<not> readyToPredict g then Some (Err UNREADY_TO_PREDICT, c)
      else if mc_DataCap c < LookForward (gru_model g) then Some (Err NO_SUFFICENT_DATA, c)
      else (let (tempData, c') = mc_Send c
            in case slice tempData (wrap64 (int (length tempData) - LookBack (gru_model g))) (int (length tempData)) of
                 Err e \<Rightarrow> Some (Err e, c')
               | Panic x \<Rightarrow> Some (Panic x, c')
               | Ret predictData \<Rightarrow>
                   (let predictHistory = List.map Value predictData
                    in case Marshal lib (predict_request g predictHistory) of
                         Err e \<Rightarrow> Some (Err e, c')
                       | Panic x \<Rightarrow> Some (Panic x, c')
                       | Ret payload \<Rightarrow>
                           map_option (\<lambda>r. (and_then r (understand lib predictHistory), c')) (ask lib g payload))))"

section \<open>Train\<close>

definition train_request :: "GRU \<Rightarrow> f64 list \<Rightarrow> Request" where
  "train_request g TrainHistory =
     \<lparr>req_Key = gru_withModelKey g, PredictHistory = [], req_TrainHistory = TrainHistory,
      req_RespRecvAdress = RespRecvAdress (gru_model g), req_LookBack = LookBack (gru_model g),
      req_LookForward = LookForward (gru_model g), req_BatchSize = TrainSize (gru_model g) sdiv 10,
      req_Epochs = Epochs (gru_model g), req_NLayers = NLayers (gru_model g)\<rparr>"

text \<open>\<open>Train\<close> succeeds exactly when it has started the goroutine that runs \<open>WaitAndUpdate\<close>. Its dial and its
  write are taken to return, with a result or an error; a peer that accepts no connection for ever is
  not modelled here.\<close>

definition gru_Train :: "gru_libs \<Rightarrow> GRU \<Rightarrow> MetricCollector \<Rightarrow> unit go \<times> MetricCollector" where
  "gru_Train lib g c =
     (if int (length (MetricHistory g)) < TrainSize (gru_model g) then (Err NO_SUFFICENT_DATA, c)
      else (let (tempData, c') = mc_Send c
            in (and_then
                  (slice tempData (wrap64 (int (length tempData) - TrainSize (gru_model g))) (int (length tempData)))
                  (\<lambda>TrainData.
                and_then (Marshal lib (train_request g (List.map Value TrainData))) (\<lambda>reqJson.
                  case net_Dial lib ''unix'' (gru_address g) of
                    Inl e \<Rightarrow> Err e
                  | Inr conn \<Rightarrow> (case conn_write conn reqJson of Some e \<Rightarrow> Err e | None \<Rightarrow> Ret ()))), c')))"

text \<open>What the operating system answers to the waiting goroutine.\<close>

record listening =
  file_exists :: bool
  remove_error :: "gerr option"
  Listen :: "string \<Rightarrow> gerr option"
  Accept :: "gerr + conn"

definition rra_socket :: string where
  "rra_socket = ''/tmp/rra.socket''"

text \<open>Nothing is written on the connection that was accepted.\<close>

partial_function (option) read_answer :: "conn \<Rightarrow> nat \<Rightarrow> string \<Rightarrow> string go option" where
  "read_answer conn k res =
     (let (bytes, err) = conn_read conn [] k 1024
      in if err = Some EOF then Some (Ret (res @ bytes))
         else (case err of
                 Some e \<Rightarrow> Some (Err e)
               | None \<Rightarrow>
                   if length bytes = 1024 then read_answer conn (k + 1) (res @ bytes)
                   else Some (Ret (res @ bytes))))"

declare read_answer.simps [code]

definition learn :: "gru_libs \<Rightarrow> string \<Rightarrow> GRU \<Rightarrow> unit go \<times> GRU" where
  "learn lib res g =
     (case Unmarshal lib res of
        Err e \<Rightarrow> (Err e, g)
      | Panic x \<Rightarrow> (Panic x, g)
      | Ret resp \<Rightarrow>
          if rsp_Error resp \<noteq> [] then (Err (NewError (''python error : '' @ rsp_Error resp)), g)
          else (Ret (), g\<lparr>readyToPredict := Trained resp\<rparr>))"

definition WaitAndUpdate :: "gru_libs \<Rightarrow> listening \<Rightarrow> GRU \<Rightarrow> (unit go \<times> GRU) option" where
  "WaitAndUpdate lib l g =
     (if file_exists l \<and> remove_error l \<noteq> None then Some (Err (the (remove_error l)), g)
      else (case Listen l rra_socket of
              Some e \<Rightarrow> Some (Err e, g)
            | None \<Rightarrow>
                (case Accept l of
                   Inl e \<Rightarrow> Some (Err e, g)
                 | Inr conn \<Rightarrow>
                     (case read_answer conn 0 [] of
                        None \<Rightarrow> None
                      | Some (Err e) \<Rightarrow> Some (Err e, g)
                      | Some (Panic x) \<Rightarrow> Some (Panic x, g)
                      | Some (Ret res) \<Rightarrow> Some (learn lib res g)))))"

definition gru_GetType :: "GRU \<Rightarrow> string" where
  "gru_GetType g = ''GRU''"

definition gru_Key :: "GRU \<Rightarrow> string" where
  "gru_Key g = gru_withModelKey g"

end
