(* ===== verification/GruSpec.thy ===== *)
theory GruSpec
  imports Gru
begin

text \<open>
  What the GRU predictor does over its life: one collector filled by its goroutine, the calls of
  the scheduler, and the goroutines that wait for a training to end, interleaved in any order.
\<close>

section \<open>The life of a predictor\<close>

record life =
  the_gru :: GRU
  the_worker :: MetricCollector
  waiting :: nat

text \<open>
  A step may meet any answer of the network and of the Prometheus server. A call that panics ends the
  process and has no step.
\<close>

inductive life_step :: "life \<Rightarrow> life \<Rightarrow> bool" where
  step_collect: "life_step w (w\<lparr>the_worker := snd (mc_Collect plib now (the_worker w))\<rparr>)"
| step_predict: "gru_Predict lib (the_gru w) (the_worker w) = Some (r, c) \<Longrightarrow> \<not> (\<exists>x. r = Panic x) \<Longrightarrow>
    life_step w (w\<lparr>the_worker := c\<rparr>)"
| step_train: "gru_Train lib (the_gru w) (the_worker w) = (Ret (), c) \<Longrightarrow>
    life_step w (w\<lparr>the_worker := c, waiting := waiting w + 1\<rparr>)"
| step_train_error: "gru_Train lib (the_gru w) (the_worker w) = (Err e, c) \<Longrightarrow>
    life_step w (w\<lparr>the_worker := c\<rparr>)"
| step_wait: "0 < waiting w \<Longrightarrow> WaitAndUpdate lib l (the_gru w) = Some (r, g) \<Longrightarrow>
    life_step w (w\<lparr>the_gru := g, waiting := waiting w - 1\<rparr>)"

inductive_cases life_stepE: "life_step w w'"

inductive lived :: "life \<Rightarrow> life \<Rightarrow> bool" where
  lived_here: "lived w w"
| lived_step: "lived w v \<Longrightarrow> life_step v u \<Longrightarrow> lived w u"

section \<open>Invariants\<close>

lemma only_ready [intro]: "\<exists>b. g = g\<lparr>readyToPredict := b\<rparr>"
  by (rule exI [of _ "readyToPredict g"]) simp

lemma learn_changes: "\<exists>b. snd (learn lib res g) = g\<lparr>readyToPredict := b\<rparr>"
  by (auto simp: learn_def Let_def split: go.splits)

lemma WaitAndUpdate_changes:
  "WaitAndUpdate lib l g = Some (r, g') \<Longrightarrow> \<exists>b. g' = g\<lparr>readyToPredict := b\<rparr>"
  using learn_changes [of lib _ g] unfolding WaitAndUpdate_def
  by (auto split: if_splits option.splits sum.splits go.splits) (metis snd_conv)+

lemma lived_keeps_history:
  "lived w w' \<Longrightarrow> MetricHistory (the_gru w') = MetricHistory (the_gru w) \<and>
     gru_model (the_gru w') = gru_model (the_gru w)"
proof (induction rule: lived.induct)
  case (lived_step w v u)
  from lived_step.hyps(2) have "MetricHistory (the_gru u) = MetricHistory (the_gru v) \<and>
     gru_model (the_gru u) = gru_model (the_gru v)"
    by cases (auto dest: WaitAndUpdate_changes)
  with lived_step.IH show ?case by simp
qed simp

lemma gru_Train_short:
  "int (length (MetricHistory g)) < TrainSize (gru_model g) \<Longrightarrow> gru_Train lib g c = (Err NO_SUFFICENT_DATA, c)"
  by (simp add: gru_Train_def)

lemma gru_New_history:
  "gru_New a c m k = (Ret g, c') \<Longrightarrow>
    MetricHistory g = fst (mc_Send c) \<and> c' = snd (mc_Send c) \<and> \<not> readyToPredict g \<and>
    gru_Key g = k \<and> gru_collectorWorker g = a"
  by (auto simp: gru_New_def gru_Key_def split: go.splits prod.splits)

lemma never_ready:
  assumes "lived w w'" and "int (length (MetricHistory (the_gru w))) < TrainSize (gru_model (the_gru w))"
    and "waiting w = 0" and "\<not> readyToPredict (the_gru w)"
  shows "waiting w' = 0 \<and> \<not> readyToPredict (the_gru w')"
  using assms
proof (induction rule: lived.induct)
  case (lived_step w v u)
  then have v: "waiting v = 0" "\<not> readyToPredict (the_gru v)" by auto
  have short: "int (length (MetricHistory (the_gru v))) < TrainSize (gru_model (the_gru v))"
    using lived_keeps_history [OF lived_step.hyps(1)] lived_step.prems(1) by simp
  from lived_step.hyps(2) show ?case
    by cases (use v short in \<open>auto simp: gru_Train_short\<close>)
qed auto

lemma learn_ready:
  "readyToPredict (snd (learn lib res g)) \<Longrightarrow> \<not> readyToPredict g \<Longrightarrow>
    \<exists>resp. decode_json lib res = Inr resp \<and> Trained resp \<and> rsp_Error resp = []"
  by (auto simp: learn_def split: go.splits sum.splits if_splits)

lemma read_answer_delivers:
  assumes "delivers c [] 1024 chunks tail final" and "drop k chunks = bs"
  shows "read_answer c k res =
    Some (if all_full 1024 bs \<and> final \<noteq> EOF then Err final
          else Ret (res @ concat (up_to_short 1024 bs) @ (if all_full 1024 bs then tail else [])))"
  using assms(2)
proof (induction bs arbitrary: k res)
  case Nil
  then show ?case using assms(1) by (subst read_answer.simps) (simp add: delivers_def)
next
  case (Cons b bs)
  have k: "k < length chunks" "chunks ! k = b" "drop (Suc k) chunks = bs"
    using nth_drop_Cons [OF Cons.prems] by simp_all
  then have "conn_read c [] k 1024 = (b, None)" using assms(1) by (simp add: delivers_def)
  then show ?case using Cons.IH [OF k(3), of "res @ b"] by (subst read_answer.simps) simp
qed

text \<open>What the waiting goroutine hears; \<open>None\<close> when the reading ends with an error.\<close>

definition heard :: "string list \<Rightarrow> string \<Rightarrow> gerr \<Rightarrow> string option" where
  "heard chunks tail final =
     (if \<not> all_full 1024 chunks then Some (concat (up_to_short 1024 chunks))
      else if final = EOF then Some (concat chunks @ tail) else None)"

lemma read_answer_heard:
  "delivers c [] 1024 chunks tail final \<Longrightarrow>
    read_answer c 0 [] = Some (case heard chunks tail final of None \<Rightarrow> Err final | Some res \<Rightarrow> Ret res)"
  using read_answer_delivers [of c chunks tail final 0 chunks "[]"] by (simp add: heard_def up_to_short_full)

text \<open>A request to the process: the payload and a line feed go out, the reply comes back in buffers of 1024 bytes.\<close>

lemma ask_delivers:
  assumes "net_Dial lib ''unix'' (gru_address g) = Inr c" and "conn_write c (payload @ [CHR 0x0A]) = None"
    and "delivers c (payload @ [CHR 0x0A]) 1024 chunks tail final" and "chunks \<noteq> []" and "final = EOF \<or> \<not> all_full 1024 chunks"
  shows "ask lib g payload =
    Some (case conn_close c of None \<Rightarrow> Ret (concat (up_to_short 1024 chunks)) | Some e \<Rightarrow> Err e)"
proof -
  let ?q = "\<lparr>address = gru_address g, network = ''unix'', body = payload @ [CHR 0x0A], bufferSize = 0\<rparr>"
  have fixed: "fixSocketReq ?q = ?q\<lparr>bufferSize := 1024\<rparr>" by (simp add: fixSocketReq_def)
  have "SocketSendReq (net_Dial lib) ?q = Some (concat (up_to_short 1024 chunks), conn_close c)"
    using SocketSendReq_delivers [where dial = "net_Dial lib" and q = ?q and c = c, of chunks tail final, unfolded fixed] assms
    by auto
  then show ?thesis
    by (simp add: ask_def SetNetwork_def SetBody_def SetAddress_def empty_SocketReq_def split: option.splits)
qed

section \<open>Properties\<close>

text \<open>C32: a GRU predictor made while its collector holds fewer samples than \<open>train_size\<close> never becomes
  ready: whatever is collected later, however often it is trained, and whatever the network
  answers, training reports NO_SUFFICENT_DATA and prediction UNREADY_TO_PREDICT, because
  training looks at the samples that were taken when the predictor was made.\<close>

theorem gru_never_ready:
  assumes "gru_New a c m k = (Ret g, c')" and "mc_DataCap c = int (length (fst (mc_Send c)))"
    and "mc_DataCap c < TrainSize (gru_model g)"
    and "lived \<lparr>the_gru = g, the_worker = c', waiting = 0\<rparr> w"
  shows "gru_Train lib (the_gru w) (the_worker w) = (Err NO_SUFFICENT_DATA, the_worker w) \<and>
    gru_Predict lib (the_gru w) (the_worker w) = Some (Err UNREADY_TO_PREDICT, the_worker w)"
proof -
  have short: "int (length (MetricHistory g)) < TrainSize (gru_model g)" "\<not> readyToPredict g"
    using gru_New_history [OF assms(1)] assms(2,3) by auto
  then have "\<not> readyToPredict (the_gru w)" using never_ready [OF assms(4)] by simp
  moreover have "int (length (MetricHistory (the_gru w))) < TrainSize (gru_model (the_gru w))"
    using lived_keeps_history [OF assms(4)] short(1) by simp
  ultimately show ?thesis by (simp add: gru_Train_short gru_Predict_def)
qed

text \<open>The configuration of the repository's own test, and collectors for it.\<close>

definition demo_attr :: "(string, string) gomap" where
  "demo_attr =
     [(''address'', ''/tmp/uds_socket''), (''resp_recv_address'', ''/tmp/rra.socket''), (''look_back'', ''3''),
      (''look_forward'', ''2''), (''train_size'', ''4''), (''batch_size'', ''1''), (''epochs'', ''100''),
      (''n_layers'', ''2'')]"

definition empty_worker :: "sample list \<Rightarrow> worker" where
  "empty_worker d = \<lparr>w_type = \<lparr>mt_Name = ''cpu'', mt_Unit = ''m''\<rparr>, promql = ''up'', data = d, w_client = Some 0\<rparr>"

definition demo_gru :: GRU where
  "demo_gru =
     \<lparr>MetricHistory = [], gru_withModelKey = ''cpu$m$up$GRU'',
      gru_model = \<lparr>Address = ''/tmp/uds_socket'', RespRecvAdress = ''/tmp/rra.socket'', LookBack = 3,
                   LookForward = 2, BatchSize = 1, TrainSize = 4, Epochs = 100, NLayers = 2\<rparr>,
      gru_collectorWorker = 0, readyToPredict = False, gru_address = ''/tmp/uds_socket'', gru_debug = False\<rparr>"

lemma demo_fields:
  "Atoi (json_field demo_attr ''look_back'') = Ret 3 \<and> Atoi (json_field demo_attr ''look_forward'') = Ret 2 \<and>
   Atoi (json_field demo_attr ''batch_size'') = Ret 1 \<and> Atoi (json_field demo_attr ''train_size'') = Ret 4 \<and>
   Atoi (json_field demo_attr ''epochs'') = Ret 100 \<and> Atoi (json_field demo_attr ''n_layers'') = Ret 2 \<and>
   json_field demo_attr ''address'' = ''/tmp/uds_socket'' \<and>
   json_field demo_attr ''resp_recv_address'' = ''/tmp/rra.socket'' \<and> json_field demo_attr ''debug'' = []"
  by code_simp

lemma demo_New: "gru_New 0 (PromWorker (empty_worker d)) demo_attr ''cpu$m$up$GRU'' =
  (Ret (demo_gru\<lparr>MetricHistory := d\<rparr>), PromWorker (empty_worker []))"
  using demo_fields by (simp add: gru_New_def gru_params_def worker_Send_def empty_worker_def demo_gru_def)

definition five_samples :: "sample list" where
  "five_samples = List.map (\<lambda>i. \<lparr>Value = f64_of_int i, TimeStamp = i\<rparr>) [10, 20, 30, 40, 50]"

definition five_libs :: prom_libs where
  "five_libs = \<lparr>api_NewClient = (\<lambda>_. Inr 0), api_Query = (\<lambda>_ _ _. Vector five_samples)\<rparr>"

lemma demo_lived:
  "lived \<lparr>the_gru = demo_gru, the_worker = PromWorker (empty_worker []), waiting = 0\<rparr>
     \<lparr>the_gru = demo_gru, the_worker = PromWorker (empty_worker five_samples), waiting = 0\<rparr>"
proof -
  have "snd (mc_Collect five_libs 0 (PromWorker (empty_worker []))) = PromWorker (empty_worker five_samples)"
    by (simp add: worker_Collect_state collected_def empty_worker_def five_libs_def)
  then show ?thesis
    using lived_step [OF lived_here step_collect, of "\<lparr>the_gru = demo_gru,
      the_worker = PromWorker (empty_worker []), waiting = 0\<rparr>" five_libs 0] by simp
qed

definition demo_gru_libs :: "Response \<Rightarrow> gru_libs" where
  "demo_gru_libs r =
     \<lparr>net_Dial = (\<lambda>_ _. Inr (script (\<lambda>_. [''answer'']) EOF None)), encode_json = (\<lambda>_. ''request''),
      decode_json = (\<lambda>s. if s = ''answer'' then Inr r else Inl (External ''unexpected end of JSON input''))\<rparr>"

definition demo_response :: Response where
  "demo_response = \<lparr>rsp_Loss = zero64, Trained = True, Prediction = [zero64, zero64], rsp_Error = []\<rparr>"

theorem gru_never_ready_witness:
  "gru_Train (demo_gru_libs demo_response) demo_gru (PromWorker (empty_worker five_samples)) =
     (Err NO_SUFFICENT_DATA, PromWorker (empty_worker five_samples)) \<and>
   gru_Predict (demo_gru_libs demo_response) demo_gru (PromWorker (empty_worker five_samples)) =
     Some (Err UNREADY_TO_PREDICT, PromWorker (empty_worker five_samples))"
  using gru_never_ready [OF demo_New [of "[]"], of _ "demo_gru_libs demo_response"] demo_lived
  by (fastforce simp: worker_DataCap_def worker_Send_def empty_worker_def demo_gru_def)

text \<open>C33: what a ready predictor with enough samples and finite values does: it sends the last \<open>look_back\<close> of
  them, in order, with its key and its two windows to the process, empties the collector, and reads the
  reply up to the first read that does not fill its buffer of 1024 bytes. Whatever the process replies
  to this request, by any chunks, the result is read off: the prediction and the loss of a trained model with the
  newest sample as the start, \<open>UNREADY_TO_PREDICT\<close> of an untrained one, or the error of the decoding or of the close.\<close>

theorem gru_Predict_answers:
  assumes "readyToPredict g" and "LookForward (gru_model g) \<le> int (length (data w))"
    and "0 < LookBack (gru_model g)" and "LookBack (gru_model g) \<le> int (length (data w))"
    and "in64 (int (length (data w)))" and "list_all is_finite (List.map Value (data w))"
    and "sent = encode_json lib \<lparr>req_Key = gru_withModelKey g,
           PredictHistory = List.map Value (drop (length (data w) - nat (LookBack (gru_model g))) (data w)),
           req_TrainHistory = [], req_RespRecvAdress = [], req_LookBack = LookBack (gru_model g),
           req_LookForward = LookForward (gru_model g), req_BatchSize = 0, req_Epochs = 0, req_NLayers = 0\<rparr> @ [CHR 0x0A]"
    and "net_Dial lib ''unix'' (gru_address g) = Inr c" and "conn_write c sent = None"
    and "delivers c sent 1024 chunks tail final" and "chunks \<noteq> []" and "final = EOF \<or> \<not> all_full 1024 chunks"
  shows "gru_Predict lib g (PromWorker w) =
    Some (case conn_close c of
            Some e \<Rightarrow> Err e
          | None \<Rightarrow>
              (case decode_json lib (concat (up_to_short 1024 chunks)) of
                 Inl e \<Rightarrow> Err e
               | Inr resp \<Rightarrow>
                   if Trained resp
                   then Ret \<lparr>StartMetric = Value (last (data w)), Loss = rsp_Loss resp, PredictMetric = Prediction resp\<rparr>
                   else Err UNREADY_TO_PREDICT),
          PromWorker (w\<lparr>data := []\<rparr>))"
proof -
  let ?m = "drop (length (data w) - nat (LookBack (gru_model g))) (data w)"
  let ?y = "List.map Value ?m" and ?req = "predict_request g (List.map Value (drop (length (data w) - nat (LookBack (gru_model g))) (data w)))"
  have ne: "?m \<noteq> []" using assms(3,4) by auto
  have "slice (data w) (wrap64 (int (length (data w)) - LookBack (gru_model g))) (int (length (data w))) = Ret ?m"
    using assms(3-5) by (subst wrap64_id) (auto simp: in64_def slice_from)
  moreover have "list_all is_finite ?y"
    using assms(6) by (auto simp: list_all_iff dest: in_set_dropD)
  then have "Marshal lib ?req = Ret (encode_json lib ?req)"
    by (simp add: Marshal_def predict_request_def)
  moreover have sent: "encode_json lib ?req @ [CHR 0x0A] = sent" unfolding assms(7) predict_request_def ..
  have "ask lib g (encode_json lib ?req) =
      Some (case conn_close c of None \<Rightarrow> Ret (concat (up_to_short 1024 chunks)) | Some e \<Rightarrow> Err e)"
    using ask_delivers [OF assms(8), of "encode_json lib ?req" chunks tail final, unfolded sent, OF assms(9-12)] .
  moreover have "index ?y (int (length ?y) - 1) = Ret (Value (last (data w)))"
    using ne last_conv_nth [of "data w"] by (cases "data w = []") (auto simp: index_def nat_diff_distrib Suc_le_eq)
  ultimately show ?thesis
    using assms(1-5) by (simp add: gru_Predict_def worker_DataCap_def worker_Send_def Let_def understand_def
        del: index_nat split: option.splits sum.splits)
qed

text \<open>A process that answers the expected request only, and whose answer arrives in two chunks.\<close>

definition asked_req :: Request where
  "asked_req = \<lparr>req_Key = ''cpu$m$up$GRU'', PredictHistory = List.map f64_of_int [30, 40, 50], req_TrainHistory = [],
     req_RespRecvAdress = [], req_LookBack = 3, req_LookForward = 2, req_BatchSize = 0, req_Epochs = 0, req_NLayers = 0\<rparr>"

definition asked_libs :: gru_libs where
  "asked_libs =
     (demo_gru_libs demo_response)\<lparr>
       net_Dial := \<lambda>_ _. Inr (script (\<lambda>sent. if sent = ''asked'' @ [CHR 0x0A] then [''answer''] else [''what?'']) EOF None),
       encode_json := \<lambda>r. if r = asked_req then ''asked'' else ''other''\<rparr>"

theorem gru_Predict_answers_witness:
  "gru_Predict asked_libs (demo_gru\<lparr>readyToPredict := True\<rparr>) (PromWorker (empty_worker five_samples)) =
    Some (Ret \<lparr>StartMetric = f64_of_int 50, Loss = zero64, PredictMetric = [zero64, zero64]\<rparr>,
          PromWorker (empty_worker []))"
proof -
  let ?g = "demo_gru\<lparr>readyToPredict := True\<rparr>" and ?w = "empty_worker five_samples"
  let ?c = "script (\<lambda>sent. if sent = ''asked'' @ [CHR 0x0A] then [''answer''] else [''what?'']) EOF None"
  have "delivers ?c (''asked'' @ [CHR 0x0A]) 1024 [''answer''] [] EOF"
    using script_delivers [of "\<lambda>sent. if sent = ''asked'' @ [CHR 0x0A] then [''answer''] else [''what?'']" "''asked'' @ [CHR 0x0A]"]
    by simp
  then show ?thesis
    using gru_Predict_answers [where g = ?g and w = ?w and lib = asked_libs and c = ?c and sent = "''asked'' @ [CHR 0x0A]"
        and chunks = "[''answer'']" and tail = "[]" and final = EOF]
    by (simp add: demo_gru_def empty_worker_def five_samples_def asked_libs_def asked_req_def demo_gru_libs_def demo_response_def
        in64_def f64_of_int_exact)
qed

text \<open>C34: \<open>Predict\<close> checks the number of samples against \<open>look_forward\<close> but takes the last \<open>look_back\<close> of
  them: a ready predictor whose collector holds at least \<open>look_forward\<close> and fewer than \<open>look_back\<close>
  samples panics.\<close>

theorem gru_Predict_panics:
  assumes "readyToPredict g" and "LookForward (gru_model g) \<le> int (length (data w))"
    and "int (length (data w)) < LookBack (gru_model g)" and "in64 (LookBack (gru_model g))"
  shows "gru_Predict lib g (PromWorker w) = Some (Panic SliceBoundsOutOfRange, PromWorker (w\<lparr>data := []\<rparr>))"
proof -
  have "wrap64 (int (length (data w)) - LookBack (gru_model g)) = int (length (data w)) - LookBack (gru_model g)"
    using assms(3,4) by (intro wrap64_id) (auto simp: in64_def)
  with assms show ?thesis
    by (simp add: gru_Predict_def worker_DataCap_def worker_Send_def slice_def)
qed

theorem gru_Predict_panics_witness:
  "gru_Predict (demo_gru_libs demo_response) (demo_gru\<lparr>readyToPredict := True\<rparr>)
     (PromWorker (empty_worker (take 2 five_samples))) =
   Some (Panic SliceBoundsOutOfRange, PromWorker (empty_worker []))"
  using gru_Predict_panics [of "demo_gru\<lparr>readyToPredict := True\<rparr>" "empty_worker (take 2 five_samples)"]
  by (simp add: demo_gru_def empty_worker_def five_samples_def in64_def)

text \<open>C35: the goroutine that waits for a training, once the process has connected: it hears the answer up to the
  first read that does not fill its buffer, or up to the end of the stream, however the reads cut it. An answer that
  cannot be decoded, one that carries an error and a broken connection leave the predictor as it was
  and report the error; any other answer makes it ready, or unready, as it says.\<close>

theorem WaitAndUpdate_learns:
  assumes "file_exists l \<longrightarrow> remove_error l = None" and "Listen l rra_socket = None"
    and "Accept l = Inr c" and "delivers c [] 1024 chunks tail final"
  shows "WaitAndUpdate lib l g =
    Some (case heard chunks tail final of
            None \<Rightarrow> (Err final, g)
          | Some res \<Rightarrow>
              (case decode_json lib res of
                 Inl e \<Rightarrow> (Err e, g)
               | Inr resp \<Rightarrow>
                   if rsp_Error resp = [] then (Ret (), g\<lparr>readyToPredict := Trained resp\<rparr>)
                   else (Err (NewError (''python error : '' @ rsp_Error resp)), g)))"
  using read_answer_heard [OF assms(4)] assms(1-3)
  by (auto simp: WaitAndUpdate_def learn_def split: option.splits sum.splits)

text \<open>An answer in one read makes the predictor ready; the same answer in two reads does not.\<close>

definition answering :: "string list \<Rightarrow> listening" where
  "answering chunks =
     \<lparr>file_exists = True, remove_error = None, Listen = (\<lambda>_. None), Accept = Inr (script (\<lambda>_. chunks) EOF None)\<rparr>"

theorem WaitAndUpdate_learns_witness:
  "WaitAndUpdate (demo_gru_libs demo_response) (answering [''answer'']) demo_gru = Some (Ret (), demo_gru\<lparr>readyToPredict := True\<rparr>) \<and>
   WaitAndUpdate (demo_gru_libs demo_response) (answering [''ans'', ''wer'']) demo_gru =
     Some (Err (External ''unexpected end of JSON input''), demo_gru)"
proof
  note use = WaitAndUpdate_learns [of "answering chunks" "script (\<lambda>_. chunks) EOF None" chunks "[]" EOF for chunks]
  show "WaitAndUpdate (demo_gru_libs demo_response) (answering [''answer'']) demo_gru = Some (Ret (), demo_gru\<lparr>readyToPredict := True\<rparr>)"
    using use [of "[''answer'']"] script_delivers [of "\<lambda>_. [''answer'']"]
    by (simp add: answering_def heard_def demo_gru_libs_def demo_response_def)
  show "WaitAndUpdate (demo_gru_libs demo_response) (answering [''ans'', ''wer'']) demo_gru =
     Some (Err (External ''unexpected end of JSON input''), demo_gru)"
    using use [of "[''ans'', ''wer'']"] script_delivers [of "\<lambda>_. [''ans'', ''wer'']"]
    by (simp add: answering_def heard_def demo_gru_libs_def demo_response_def)
qed

text \<open>A predictor becomes ready only by a training: over one step of its life, when it was not ready
  before and is ready after, the step was a waiting goroutine's and read a response that says
  the model is trained and carries no error.\<close>

lemma ready_needs_training:
  assumes "life_step w w'" and "\<not> readyToPredict (the_gru w)" and "readyToPredict (the_gru w')"
  shows "0 < waiting w \<and> (\<exists>lib res resp. the_gru w' = snd (learn lib res (the_gru w)) \<and>
    decode_json lib res = Inr resp \<and> Trained resp \<and> rsp_Error resp = [])"
  using assms
proof cases
  case (step_wait lib l r g)
  then have "readyToPredict g" "\<not> readyToPredict (the_gru w)" using assms by simp_all
  then obtain res where "g = snd (learn lib res (the_gru w))"
    using step_wait(3) unfolding WaitAndUpdate_def
    by (auto split: if_splits option.splits sum.splits go.splits) (metis snd_conv)+
  then show ?thesis using step_wait learn_ready [of lib res "the_gru w"] assms by auto
qed simp_all

end
