(* ===== verification/Containers.thy ===== *)
theory Containers
  imports Prelude
begin

text \<open>
  utils/concurrent_map.go and utils/map.go: the two string-keyed maps, with their contract as a
  locale that both satisfy. The lock of a \<open>ConcurrentMap\<close> makes each call atomic, which a call
  modelled as one function is. A nil map reads as empty and panics on a write.
\<close>

definition not_found :: "string \<Rightarrow> gerr" where
  "not_found key = NewError (''value not found,key ['' @ key @ '']'')"

section \<open>The contract\<close>

locale key_store =
  fixes load :: "'m \<Rightarrow> string \<Rightarrow> 'v go"
    and store :: "'m \<Rightarrow> string \<Rightarrow> 'v \<Rightarrow> 'm go"
    and remove :: "'m \<Rightarrow> string \<Rightarrow> 'm"
    and ready :: "'m \<Rightarrow> bool"
  assumes load_cases: "(\<exists>v. load m k = Ret v) \<or> load m k = Err (not_found k)"
    and store_ready: "ready m \<Longrightarrow> \<exists>m'. store m k v = Ret m' \<and> ready m'"
    and load_store: "store m k v = Ret m' \<Longrightarrow> load m' j = (if j = k then Ret v else load m j)"
    and remove_ready: "ready m \<Longrightarrow> ready (remove m k)"
    and load_remove: "load (remove m k) j = (if j = k then Err (not_found k) else load m j)"
begin

text \<open>Storing the values \<open>f k\<close> of a list of keys, one call after the other.\<close>

lemma store_all:
  assumes "ready m"
  shows "\<exists>m'. fold_go (\<lambda>k m. store m k (f k)) ks m = Ret m' \<and> ready m' \<and>
              (\<forall>j. load m' j = (if j \<in> set ks then Ret (f j) else load m j))"
  using assms
proof (induction ks arbitrary: m)
  case Nil
  then show ?case by simp
next
  case (Cons k ks)
  from store_ready [OF Cons.prems] obtain m1 where m1: "store m k (f k) = Ret m1" "ready m1" by blast
  from Cons.IH [OF m1(2)] obtain m' where "fold_go (\<lambda>k m. store m k (f k)) ks m1 = Ret m'" "ready m'"
    "\<forall>j. load m' j = (if j \<in> set ks then Ret (f j) else load m1 j)" by blast
  with m1 load_store [OF m1(1)] show ?case by simp
qed

lemma remove_all_ready: "ready m \<Longrightarrow> ready (fold (\<lambda>k m. remove m k) ks m)"
  by (induction ks arbitrary: m) (auto simp: remove_ready)

lemma load_remove_all:
  "load (fold (\<lambda>k m. remove m k) ks m) j = (if j \<in> set ks then Err (not_found j) else load m j)"
  by (induction ks arbitrary: m) (auto simp: load_remove)

lemma store_then_remove:
  "store m k v = Ret m' \<Longrightarrow> load (remove m' k) j = (if j = k then Err (not_found k) else load m j)"
  by (simp add: load_remove load_store)

end

section \<open>ConcurrentMap\<close>

record 'v ConcurrentMap =
  Data :: "(string, 'v) gomap option"

definition NewConcurrentMap :: "'v ConcurrentMap" where
  "NewConcurrentMap = \<lparr>Data = Some []\<rparr>"

definition cm_init :: "'v ConcurrentMap \<Rightarrow> 'v ConcurrentMap" where
  "cm_init m = (if Data m = None then m\<lparr>Data := Some []\<rparr> else m)"

definition cm_data :: "'v ConcurrentMap \<Rightarrow> (string, 'v) gomap" where
  "cm_data m = (case Data m of None \<Rightarrow> [] | Some d \<Rightarrow> d)"

definition cm_Load :: "'v ConcurrentMap \<Rightarrow> string \<Rightarrow> 'v go" where
  "cm_Load m key =
     (case map_of (cm_data m) key of None \<Rightarrow> Err (not_found key) | Some v \<Rightarrow> Ret v)"

definition cm_Store :: "'v ConcurrentMap \<Rightarrow> string \<Rightarrow> 'v \<Rightarrow> 'v ConcurrentMap go" where
  "cm_Store m key v =
     (case Data m of None \<Rightarrow> Panic NilMapWrite | Some d \<Rightarrow> Ret (m\<lparr>Data := Some (AList.update key v d)\<rparr>))"

definition cm_Delete :: "'v ConcurrentMap \<Rightarrow> string \<Rightarrow> 'v ConcurrentMap" where
  "cm_Delete m key =
     (case Data m of None \<Rightarrow> m | Some d \<Rightarrow> m\<lparr>Data := Some (AList.delete key d)\<rparr>)"

text \<open>\<open>Range\<close> runs a callback over all entries and collects the errors it returns.\<close>

definition cm_Range ::
  "iter \<Rightarrow> nat \<Rightarrow> 'v ConcurrentMap \<Rightarrow> (string \<Rightarrow> 'v \<Rightarrow> 's \<Rightarrow> gerr option \<times> 's) \<Rightarrow> 's \<Rightarrow> gerr list \<times> 's" where
  "cm_Range it n m do s =
     fold (\<lambda>(k, v) (errors, s).
             case do k v s of (None, s) \<Rightarrow> (errors, s) | (Some e, s) \<Rightarrow> (errors @ [e], s))
       (entries it n (cm_data m)) ([], s)"

definition cm_ready :: "'v ConcurrentMap \<Rightarrow> bool" where
  "cm_ready m \<longleftrightarrow> (\<exists>d. Data m = Some d \<and> wf_map d)"

interpretation cm: key_store cm_Load cm_Store cm_Delete cm_ready
  by unfold_locales
    (auto simp: cm_Load_def cm_Store_def cm_Delete_def cm_ready_def cm_data_def update_conv' delete_conv'
      split: option.splits if_splits)

lemma cm_ready_New [simp]: "cm_ready NewConcurrentMap"
  by (simp add: cm_ready_def NewConcurrentMap_def)

lemma cm_ready_wf [simp]: "cm_ready m \<Longrightarrow> wf_map (cm_data m)"
  by (auto simp: cm_ready_def cm_data_def)

lemma cm_Load_Ret_iff: "cm_Load m k = Ret v \<longleftrightarrow> map_of (cm_data m) k = Some v"
  by (simp add: cm_Load_def split: option.splits)

lemma cm_Load_Err_iff: "(\<exists>e. cm_Load m k = Err e) \<longleftrightarrow> k \<notin> dom (map_of (cm_data m))"
  by (auto simp: cm_Load_def split: option.splits)

lemma cm_Store_Ret:
  "cm_ready m \<Longrightarrow> cm_Store m k v = Ret (m\<lparr>Data := Some (AList.update k v (cm_data m))\<rparr>)"
  by (auto simp: cm_ready_def cm_Store_def cm_data_def)

lemma cm_Range_errors:
  assumes "\<And>k v s. snd (do k v s) = s"
  shows "cm_Range it n m do s =
           (List.map_filter (\<lambda>(k, v). fst (do k v s)) (entries it n (cm_data m)), s)"
proof -
  have "fold (\<lambda>(k, v) (errors, s).
            case do k v s of (None, s) \<Rightarrow> (errors, s) | (Some e, s) \<Rightarrow> (errors @ [e], s)) xs (es, s)
        = (es @ List.map_filter (\<lambda>(k, v). fst (do k v s)) xs, s)" for xs es
  proof (induction xs arbitrary: es)
    case (Cons x xs)
    obtain k v where x: "x = (k, v)" by force
    show ?case
      using assms [of k v s] Cons by (cases "do k v s") (auto simp: x split: option.splits)
  qed simp
  from this [of "entries it n (cm_data m)" "[]"] show ?thesis by (simp add: cm_Range_def)
qed

section \<open>Map\<close>

record 'v Map =
  map_Data :: "(string, 'v) gomap option"

definition Map_New :: "'v Map" where
  "Map_New = \<lparr>map_Data = Some []\<rparr>"

definition Map_Get :: "'v Map \<Rightarrow> string \<Rightarrow> 'v go" where
  "Map_Get m key =
     (case map_of (case map_Data m of None \<Rightarrow> [] | Some d \<Rightarrow> d) key of
        None \<Rightarrow> Err (not_found key) | Some v \<Rightarrow> Ret v)"

definition Map_Delete :: "'v Map \<Rightarrow> string \<Rightarrow> 'v Map" where
  "Map_Delete m key =
     (case map_Data m of None \<Rightarrow> m | Some d \<Rightarrow> m\<lparr>map_Data := Some (AList.delete key d)\<rparr>)"

definition Map_Set :: "'v Map \<Rightarrow> string \<Rightarrow> 'v \<Rightarrow> 'v Map go" where
  "Map_Set m key v =
     (case map_Data m of
        None \<Rightarrow> Panic NilMapWrite | Some d \<Rightarrow> Ret (m\<lparr>map_Data := Some (AList.update key v d)\<rparr>))"

definition Map_ready :: "'v Map \<Rightarrow> bool" where
  "Map_ready m \<longleftrightarrow> map_Data m \<noteq> None"

interpretation plain_map: key_store Map_Get Map_Set Map_Delete Map_ready
  by unfold_locales
    (auto simp: Map_Get_def Map_Set_def Map_Delete_def Map_ready_def update_conv' delete_conv'
      split: option.splits if_splits)

end
