(* ===== verification/Predictor.thy ===== *)
theory Predictor
  imports HoltWinterSpec GruSpec
begin

text \<open>
  predictor/predictor.go: the interface both predictors implement and the function that makes one
  from the key of a model. The contract of the interface's identity is a locale; both
  implementations and the dispatched value satisfy it.
\<close>

section \<open>The interface\<close>

datatype Predictor = GruPredictor GRU | HwPredictor HoltWinter

record Param =
  param_WithModelKey :: string
  param_MetricCollector :: addr
  param_Model :: "(string, string) gomap"

fun pred_Predict ::
  "gru_libs \<Rightarrow> Predictor \<Rightarrow> MetricCollector \<Rightarrow> (PredictResult go \<times> MetricCollector) option" where
  "pred_Predict lib (GruPredictor g) c = gru_Predict lib g c"
| "pred_Predict lib (HwPredictor p) c = Some (hw_Predict p c)"

fun pred_GetType :: "Predictor \<Rightarrow> string" where
  "pred_GetType (GruPredictor g) = gru_GetType g"
| "pred_GetType (HwPredictor p) = hw_GetType p"

fun pred_Train :: "gru_libs \<Rightarrow> Predictor \<Rightarrow> MetricCollector \<Rightarrow> unit go \<times> MetricCollector" where
  "pred_Train lib (GruPredictor g) c = gru_Train lib g c"
| "pred_Train lib (HwPredictor p) c = (hw_Train p, c)"

fun pred_Key :: "Predictor \<Rightarrow> string" where
  "pred_Key (GruPredictor g) = gru_Key g"
| "pred_Key (HwPredictor p) = hw_Key p"

text \<open>The collector a predictor was made with.\<close>

fun pred_collector :: "Predictor \<Rightarrow> addr" where
  "pred_collector (GruPredictor g) = gru_collectorWorker g"
| "pred_collector (HwPredictor p) = hw_collectorWorker p"

section \<open>Construction\<close>

definition NewPredictor :: "Param \<Rightarrow> MetricCollector \<Rightarrow> Predictor go \<times> MetricCollector" where
  "NewPredictor param c =
     (let t = GetModelType (param_WithModelKey param)
      in if t = ''GRU'' then
           map_prod (map_go GruPredictor) id (gru_New (param_MetricCollector param) c (param_Model param) (param_WithModelKey param))
         else if t = ''holt_winter'' then
           (map_go HwPredictor (hw_New (param_MetricCollector param) (param_Model param) (param_WithModelKey param)), c)
         else (Err (NewError ''unknown predictor''), c))"

lemma map_go_cases [go_simps]:
  "map_go f m = Ret y \<longleftrightarrow> (\<exists>x. m = Ret x \<and> y = f x)"
  "Ret y = map_go f m \<longleftrightarrow> (\<exists>x. m = Ret x \<and> y = f x)"
  "map_go f m = Panic q \<longleftrightarrow> m = Panic q"
  by (cases m; auto)+

section \<open>The contract\<close>

text \<open>
  An implementation of the interface, as the code that made it knows it: \<open>make\<close> builds one for a
  collector and a key of its type, \<open>step\<close> is any method call. A predictor keeps its key and its
  collector for ever, and its type is the one its key names.
\<close>

locale predictor_identity =
  fixes make :: "addr \<Rightarrow> MetricCollector \<Rightarrow> (string, string) gomap \<Rightarrow> string \<Rightarrow> 'p go \<times> MetricCollector"
    and key :: "'p \<Rightarrow> string"
    and home :: "'p \<Rightarrow> addr"
    and kind :: "'p \<Rightarrow> string"
    and serves :: "string \<Rightarrow> bool"
    and predict :: "gru_libs \<Rightarrow> 'p \<Rightarrow> MetricCollector \<Rightarrow> (PredictResult go \<times> MetricCollector) option"
    and train :: "gru_libs \<Rightarrow> 'p \<Rightarrow> MetricCollector \<Rightarrow> unit go \<times> MetricCollector"
  assumes make_key: "make a c m k = (Ret p, c') \<Longrightarrow> key p = k \<and> home p = a"
    and make_kind: "serves k \<Longrightarrow> make a c m k = (Ret p, c') \<Longrightarrow> kind p = GetModelType k"
    and make_total: "\<not> (\<exists>x. fst (make a c m k) = Panic x)"
    and make_collector: "mc_NoModelKey (snd (make a c m k)) = mc_NoModelKey c"
    and predict_collector: "predict lib p c = Some (r, c') \<Longrightarrow> mc_NoModelKey c' = mc_NoModelKey c"
    and train_collector: "train lib p c = (r', c') \<Longrightarrow> mc_NoModelKey c' = mc_NoModelKey c"
begin

lemma make_cases:
  obtains p where "fst (make a c m k) = Ret p" "key p = k" "home p = a"
  | e where "fst (make a c m k) = Err e"
  using make_key [of a c m k] make_total [of a c m k]
  by (cases "make a c m k"; cases "fst (make a c m k)") auto

text \<open>Making several predictors over the same collector leaves it filed under the same key.\<close>

lemma make_all_collector:
  "mc_NoModelKey (fold (\<lambda>(m, k) c. snd (make a c m k)) xs c) = mc_NoModelKey c"
  by (induction xs arbitrary: c) (auto simp: make_collector)

end

lemma hw_Predict_collector: "hw_Predict p c = (r, c') \<Longrightarrow> c' = c \<or> c' = snd (mc_Send c)"
  by (auto simp: hw_Predict_def Let_def split: if_splits prod.splits)

lemma gru_Predict_collector: "gru_Predict lib g c = Some (r, c') \<Longrightarrow> c' = c \<or> c' = snd (mc_Send c)"
  by (auto simp: gru_Predict_def Let_def split: if_splits prod.splits go.splits)

lemma gru_Train_collector: "gru_Train lib g c = (r, c') \<Longrightarrow> c' = c \<or> c' = snd (mc_Send c)"
  by (auto simp: gru_Train_def Let_def split: if_splits prod.splits)

lemma gru_New_collector: "gru_New a c m k = (r, c') \<Longrightarrow> c' = c \<or> c' = snd (mc_Send c)"
  by (auto simp: gru_New_def Let_def split: prod.splits go.splits)

lemma gru_New_no_panic: "fst (gru_New a c m k) \<noteq> Panic x"
proof -
  have "gru_params m \<noteq> Panic q" for q
    unfolding gru_params_def by (intro and_then_no_panic) (auto simp: Atoi_no_panic)
  then show ?thesis by (auto simp: gru_New_def split: go.splits prod.splits)
qed

interpretation gru_id: predictor_identity gru_New gru_Key gru_collectorWorker gru_GetType
    "\<lambda>k. GetModelType k = ''GRU''" gru_Predict gru_Train
proof
  show "mc_NoModelKey (snd (gru_New a c m k)) = mc_NoModelKey c" for a c m k
    using gru_New_collector [of a c m k "fst (gru_New a c m k)"] mc.key_send by (metis prod.collapse)
qed (auto simp: gru_GetType_def gru_New_no_panic mc.key_send
      dest!: gru_New_history gru_Predict_collector gru_Train_collector)

interpretation hw_id: predictor_identity "\<lambda>a c m k. (hw_New a m k, c)" hw_Key hw_collectorWorker hw_GetType
    "\<lambda>k. GetModelType k = ''holt_winter''" "\<lambda>lib p c. Some (hw_Predict p c)" "\<lambda>lib p c. (hw_Train p, c)"
  by unfold_locales
    (auto simp: hw_GetType_def hw_New_no_panic mc.key_send dest!: hw_New_Key hw_Predict_collector)

section \<open>The dispatched value\<close>

definition new_predictor ::
  "addr \<Rightarrow> MetricCollector \<Rightarrow> (string, string) gomap \<Rightarrow> string \<Rightarrow> Predictor go \<times> MetricCollector" where
  "new_predictor a c m k =
     NewPredictor \<lparr>param_WithModelKey = k, param_MetricCollector = a, param_Model = m\<rparr> c"

lemma new_predictor_cases:
  obtains "GetModelType k = ''GRU''"
      "new_predictor a c m k = (map_go GruPredictor (fst (gru_New a c m k)), snd (gru_New a c m k))"
  | "GetModelType k = ''holt_winter''" "new_predictor a c m k = (map_go HwPredictor (hw_New a m k), c)"
  | "GetModelType k \<noteq> ''GRU''" "GetModelType k \<noteq> ''holt_winter''"
      "new_predictor a c m k = (Err (NewError ''unknown predictor''), c)"
  by (auto simp: new_predictor_def NewPredictor_def Let_def map_prod_def split_beta split: if_splits)

lemma gru_New_Ret: "fst (gru_New a c m k) = Ret g \<Longrightarrow> gru_Key g = k \<and> gru_collectorWorker g = a"
  using gru_New_history [of a c m k g] by (cases "gru_New a c m k") auto

interpretation pred_id: predictor_identity new_predictor pred_Key pred_collector pred_GetType
    "\<lambda>_. True" pred_Predict pred_Train
proof
  fix a c m k p c' lib r r'
  show "new_predictor a c m k = (Ret p, c') \<Longrightarrow> pred_Key p = k \<and> pred_collector p = a"
    using hw_New_Key [of a m k] gru_New_Ret [of a c m k]
    by (rule_tac new_predictor_cases [of k a c m]) (auto simp: go_simps)
  show "new_predictor a c m k = (Ret p, c') \<Longrightarrow> pred_GetType p = GetModelType k"
    by (rule new_predictor_cases [of k a c m]) (auto simp: go_simps gru_GetType_def hw_GetType_def)
  show "\<not> (\<exists>x. fst (new_predictor a c m k) = Panic x)"
    by (rule new_predictor_cases [of k a c m]) (auto simp: go_simps gru_New_no_panic hw_New_no_panic)
  show "mc_NoModelKey (snd (new_predictor a c m k)) = mc_NoModelKey c"
    by (rule new_predictor_cases [of k a c m]) (auto simp: gru_id.make_collector)
  show "pred_Predict lib p c = Some (r, c') \<Longrightarrow> mc_NoModelKey c' = mc_NoModelKey c"
    by (cases p) (auto simp: mc.key_send dest: gru_id.predict_collector dest!: hw_Predict_collector)
  show "pred_Train lib p c = (r', c') \<Longrightarrow> mc_NoModelKey c' = mc_NoModelKey c"
    by (cases p) (auto dest: gru_id.train_collector)
qed

section \<open>Properties\<close>

text \<open>C36: a predictor is made exactly for the two known model types, from the key alone: it then
  answers with the key it was made for, reads the collector it was given, and has the type the
  key names; any other type is refused and leaves the collector as it is.\<close>

theorem NewPredictor_spec:
  "(case NewPredictor \<lparr>param_WithModelKey = k, param_MetricCollector = a, param_Model = m\<rparr> c of
      (Ret p, _) \<Rightarrow> pred_Key p = k \<and> pred_collector p = a \<and> pred_GetType p = GetModelType k \<and>
        GetModelType k \<in> {''GRU'', ''holt_winter''}
    | (Err e, c') \<Rightarrow> e = NewError ''unknown predictor'' \<and> c' = c \<or> GetModelType k \<in> {''GRU'', ''holt_winter''}
    | (Panic x, _) \<Rightarrow> False)"
proof -
  have "GetModelType k \<in> {''GRU'', ''holt_winter''} \<or>
      new_predictor a c m k = (Err (NewError ''unknown predictor''), c)"
    by (rule new_predictor_cases [of k a c m]) auto
  then show ?thesis
    using pred_id.make_key [of a c m k] pred_id.make_kind [of a c m k] pred_id.make_total [of a c m k]
    unfolding new_predictor_def [symmetric] by (auto split: prod.splits go.splits)
qed

end
