(* ===== verification/Strategy.thy ===== *)
theory Strategy
  imports Utils GoFloat
begin

text \<open>
  scaler/strategy.go: from predicted metrics to replica counts, and the reductions of several
  models' counts to one list. The reductions share a contract, stated as a locale. \<open>oob\<close> is the
  conversion of a float64 that does not fit in an int32, which Go leaves to the platform.
\<close>

definition Steady :: "(f64 \<Rightarrow> int32) \<Rightarrow> f64 \<Rightarrow> f64 \<Rightarrow> int32 \<Rightarrow> f64 list \<Rightarrow> int32 list" where
  "Steady oob targetMetric startMetric startReplica predictMetric =
     List.map (\<lambda>m. if flt m zero64 then 0
                  else int32_of_f64 oob (fceil (fmul (f64_of_int (sint startReplica)) (fdiv m startMetric))))
       predictMetric"

definition UnderThreshold :: "(f64 \<Rightarrow> int32) \<Rightarrow> f64 \<Rightarrow> f64 \<Rightarrow> int32 \<Rightarrow> f64 list \<Rightarrow> int32 list" where
  "UnderThreshold oob targetMetric startMetric startReplica predictMetric =
     List.map (\<lambda>m. if flt m zero64 then 0 else int32_of_f64 oob (fceil (fdiv m targetMetric)))
       predictMetric"

text \<open>The loop \<open>for i, vv := range v\<close> that writes \<open>res[i]\<close>.\<close>

fun update_each :: "(int32 \<Rightarrow> int32 \<Rightarrow> int32 go) \<Rightarrow> nat \<Rightarrow> int32 list \<Rightarrow> int32 list \<Rightarrow> int32 list go" where
  "update_each f i [] res = Ret res"
| "update_each f i (vv # v) res =
     (if i < length res then and_then (f vv (res ! i)) (\<lambda>y. update_each f (Suc i) v (res[i := y]))
      else Panic IndexOutOfRange)"

definition MaxStrategy :: "int32 list list \<Rightarrow> int32 list go" where
  "MaxStrategy replicas =
     (case replicas of
        [] \<Rightarrow> Ret []
      | r0 # _ \<Rightarrow> fold_go (update_each (\<lambda>vv r. utils_Max [vv, r]) 0) replicas (replicate (length r0) 0))"

definition MinStrategy :: "int32 list list \<Rightarrow> int32 list go" where
  "MinStrategy replicas =
     (case replicas of
        [] \<Rightarrow> Ret []
      | r0 # rest \<Rightarrow> fold_go (update_each (\<lambda>vv r. utils_Min [vv, r]) 0) rest r0)"

definition MeanStrategy :: "int32 list list \<Rightarrow> int32 list go" where
  "MeanStrategy replicas =
     (case replicas of
        [] \<Rightarrow> Ret []
      | r0 # _ \<Rightarrow>
          and_then (fold_go (update_each (\<lambda>vv r. Ret (r + vv)) 0) replicas (replicate (length r0) 0))
            (\<lambda>res. fold_go (\<lambda>i res. and_then (quot32 (res ! i) (word_of_int (int (length replicas))))
                                     (\<lambda>q. Ret (res[i := q])))
                    [0..<length res] res))"

definition SelectMax :: "int32 list \<Rightarrow> int32 go" where
  "SelectMax replicas = utils_Max replicas"

section \<open>The loops\<close>

lemma update_each_spec:
  assumes "\<And>a b. f a b = Ret (g a b)" and "i \<le> length res"
  shows "update_each f i v res =
    (if i + length v \<le> length res
     then Ret (take i res @ List.map2 g v (drop i res) @ drop (i + length v) res)
     else Panic IndexOutOfRange)"
  using assms(2)
proof (induction v arbitrary: i res)
  case Nil
  then show ?case by simp
next
  case (Cons x v)
  show ?case
  proof (cases "i < length res")
    case True
    then have "drop i res = res ! i # drop (Suc i) res" by (rule Cons_nth_drop_Suc [symmetric])
    with True Cons.IH [of "Suc i" "res[i := g x (res ! i)]"] show ?thesis
      by (auto simp: assms(1) take_Suc_conv_app_nth upd_conv_take_nth_drop add.commute)
  next
    case False
    with Cons.prems show ?thesis by simp
  qed
qed

lemma update_each_0:
  assumes "\<And>a b. f a b = Ret (g a b)"
  shows "update_each f 0 v res =
    (if length v \<le> length res then Ret (List.map2 g v res @ drop (length v) res) else Panic IndexOutOfRange)"
  using update_each_spec [of f g 0 res v] assms by simp

lemma fold_update_each:
  assumes f: "\<And>a b. f a b = Ret (g a b)"
  shows "fold_go (update_each f 0) rs res =
    (if \<forall>v \<in> set rs. length v \<le> length res
     then Ret (fold (\<lambda>v res. List.map2 g v res @ drop (length v) res) rs res)
     else Panic IndexOutOfRange)"
proof (induction rs arbitrary: res)
  case (Cons v rs)
  then show ?case by (auto simp: update_each_0 [OF f])
qed simp

text \<open>Over lists of one length the fold works position by position.\<close>

lemma fold_map2_nth:
  assumes "\<forall>v \<in> set rs. length v = length res" and "i < length res"
  shows "fold (\<lambda>v res. List.map2 g v res @ drop (length v) res) rs res ! i
       = fold (\<lambda>v x. g (v ! i) x) rs (res ! i)"
  using assms by (induction rs arbitrary: res) auto

lemma fold_map2_length:
  "\<forall>v \<in> set rs. length v = length res \<Longrightarrow>
   length (fold (\<lambda>v res. List.map2 g v res @ drop (length v) res) rs res) = length res"
  by (induction rs arbitrary: res) auto

lemma MaxStrategy_eq:
  "rs \<noteq> [] \<Longrightarrow> MaxStrategy rs =
    (if \<forall>v \<in> set rs. length v \<le> length (hd rs)
     then Ret (fold (\<lambda>v res. List.map2 max32 v res @ drop (length v) res) rs (replicate (length (hd rs)) 0))
     else Panic IndexOutOfRange)"
  by (cases rs) (simp_all add: MaxStrategy_def fold_update_each [where g = max32] del: fold_go.simps fold.simps)

lemma MinStrategy_eq:
  "rs \<noteq> [] \<Longrightarrow> MinStrategy rs =
    (if \<forall>v \<in> set rs. length v \<le> length (hd rs)
     then Ret (fold (\<lambda>v res. List.map2 min32 v res @ drop (length v) res) (tl rs) (hd rs))
     else Panic IndexOutOfRange)"
  by (cases rs) (simp_all add: MinStrategy_def fold_update_each [where g = min32] del: fold_go.simps fold.simps)

lemma MeanStrategy_eq:
  "rs \<noteq> [] \<Longrightarrow> MeanStrategy rs =
    (if \<forall>v \<in> set rs. length v \<le> length (hd rs)
     then (let tot = fold (\<lambda>v res. List.map2 (\<lambda>vv r. r + vv) v res @ drop (length v) res) rs
                            (replicate (length (hd rs)) 0)
           in fold_go (\<lambda>i res. and_then (quot32 (res ! i) (word_of_int (int (length rs))))
                                     (\<lambda>q. Ret (res[i := q]))) [0..<length tot] tot)
     else Panic IndexOutOfRange)"
  by (cases rs)
    (simp_all add: MeanStrategy_def Let_def fold_update_each [where g = "\<lambda>vv r. r + vv"]
      del: fold_go.simps fold.simps)

section \<open>The contract of a model strategy\<close>

definition uniform :: "nat \<Rightarrow> int \<Rightarrow> int32 list list \<Rightarrow> bool" where
  "uniform n b rs \<longleftrightarrow>
     rs \<noteq> [] \<and> (\<forall>v \<in> set rs. length v = n \<and> (\<forall>x \<in> set v. 0 \<le> sint x \<and> sint x \<le> b)) \<and>
     b * int (length rs) < 2 ^ 31 \<and> int (length rs) < 2 ^ 31"

locale model_strategy =
  fixes agg :: "int32 list list \<Rightarrow> int32 list go"
  assumes no_models: "agg [] = Ret []"
    and ragged: "v \<in> set rs \<Longrightarrow> length (hd rs) < length v \<Longrightarrow> agg rs = Panic IndexOutOfRange"
    and between: "uniform n b rs \<Longrightarrow>
      \<exists>res. agg rs = Ret res \<and> length res = n \<and>
        (\<forall>i < n. (\<exists>v \<in> set rs. sint (v ! i) \<le> sint (res ! i)) \<and>
                 (\<exists>v \<in> set rs. sint (res ! i) \<le> sint (v ! i)))"
begin

lemma agree:
  assumes "uniform n b rs" and "\<forall>v \<in> set rs. v = w"
  shows "agg rs = Ret w"
proof -
  from between [OF assms(1)] obtain res where res: "agg rs = Ret res" "length res = n"
    "\<forall>i < n. (\<exists>v \<in> set rs. sint (v ! i) \<le> sint (res ! i)) \<and> (\<exists>v \<in> set rs. sint (res ! i) \<le> sint (v ! i))"
    by blast
  from assms have "length w = n" unfolding uniform_def by (metis list.set_sel(1))
  with res(2,3) assms(2) have "res = w"
    by (intro nth_equalityI) (simp_all, metis antisym sint32_eq_iff)
  with res(1) show ?thesis by simp
qed

lemma single: "uniform n b [w] \<Longrightarrow> agg [w] = Ret w"
  by (rule agree) auto

lemma keeps_bounds:
  assumes "uniform n b rs" and "agg rs = Ret res"
  shows "length res = n" and "\<forall>x \<in> set res. 0 \<le> sint x \<and> sint x \<le> b"
proof -
  from between [OF assms(1)] assms(2)
  have n: "length res = n" and bd: "\<forall>i < n. (\<exists>v \<in> set rs. sint (v ! i) \<le> sint (res ! i)) \<and>
        (\<exists>v \<in> set rs. sint (res ! i) \<le> sint (v ! i))"
    by auto
  show "length res = n" by (rule n)
  have "0 \<le> sint (v ! i) \<and> sint (v ! i) \<le> b" if "v \<in> set rs" "i < n" for v i
    using assms(1) that unfolding uniform_def by auto
  then have "0 \<le> sint (res ! i) \<and> sint (res ! i) \<le> b" if "i < n" for i
    using bd that by (meson order_trans)
  then show "\<forall>x \<in> set res. 0 \<le> sint x \<and> sint x \<le> b"
    using n by (auto simp: in_set_conv_nth)
qed

end


section \<open>The three strategies satisfy it\<close>

lemma fold_max32: "sint (fold (\<lambda>v x. max32 (v ! i) x) rs x) = fold (\<lambda>v. max (sint (v ! i))) rs (sint x)"
  by (induction rs arbitrary: x) simp_all

lemma fold_min32: "sint (fold (\<lambda>v x. min32 (v ! i) x) rs x) = fold (\<lambda>v. min (sint (v ! i))) rs (sint x)"
  by (induction rs arbitrary: x) simp_all

lemma fold_max_upper: "v \<in> set rs \<Longrightarrow> h v \<le> fold (\<lambda>v. max (h v)) rs (x :: int)"
  and fold_max_init: "x \<le> fold (\<lambda>v. max (h v)) rs (x :: int)"
  and fold_max_attained: "fold (\<lambda>v. max (h v)) rs (x :: int) = x \<or> (\<exists>v \<in> set rs. fold (\<lambda>v. max (h v)) rs x = h v)"
proof -
  have *: "x \<le> fold (\<lambda>v. max (h v)) rs (x :: int)" for x h rs
    by (induction rs arbitrary: x) (auto intro: order_trans [OF max.cobounded2])
  then show "x \<le> fold (\<lambda>v. max (h v)) rs (x :: int)" .
  show "v \<in> set rs \<Longrightarrow> h v \<le> fold (\<lambda>v. max (h v)) rs (x :: int)"
    by (induction rs arbitrary: x) (auto intro: order_trans [OF max.cobounded1 *])
  show "fold (\<lambda>v. max (h v)) rs (x :: int) = x \<or> (\<exists>v \<in> set rs. fold (\<lambda>v. max (h v)) rs x = h v)"
  proof (induction rs arbitrary: x)
    case (Cons v rs)
    from Cons [of "max (h v) x"] show ?case by (auto simp: max_def split: if_splits)
  qed simp
qed

lemma fold_min_lower: "v \<in> set rs \<Longrightarrow> fold (\<lambda>v. min (h v)) rs (x :: int) \<le> h v"
  and fold_min_init: "fold (\<lambda>v. min (h v)) rs (x :: int) \<le> x"
  and fold_min_attained: "fold (\<lambda>v. min (h v)) rs (x :: int) = x \<or> (\<exists>v \<in> set rs. fold (\<lambda>v. min (h v)) rs x = h v)"
proof -
  have *: "fold (\<lambda>v. min (h v)) rs (x :: int) \<le> x" for x h rs
    by (induction rs arbitrary: x) (auto intro: order_trans [OF _ min.cobounded2])
  then show "fold (\<lambda>v. min (h v)) rs (x :: int) \<le> x" .
  show "v \<in> set rs \<Longrightarrow> fold (\<lambda>v. min (h v)) rs (x :: int) \<le> h v"
    by (induction rs arbitrary: x) (auto intro: order_trans [OF * min.cobounded1])
  show "fold (\<lambda>v. min (h v)) rs (x :: int) = x \<or> (\<exists>v \<in> set rs. fold (\<lambda>v. min (h v)) rs x = h v)"
  proof (induction rs arbitrary: x)
    case (Cons v rs)
    from Cons [of "min (h v) x"] show ?case by (auto simp: min_def split: if_splits)
  qed simp
qed

lemma fold_add32:
  assumes "\<forall>v \<in> set rs. 0 \<le> sint (v ! i)" and "0 \<le> sint (x :: int32)"
    and "sint x + (\<Sum>v \<leftarrow> rs. sint (v ! i)) < 2 ^ 31"
  shows "sint (fold (\<lambda>v x. x + v ! i) rs x) = sint x + (\<Sum>v \<leftarrow> rs. sint (v ! i))"
  using assms
proof (induction rs arbitrary: x)
  case (Cons v rs)
  have "0 \<le> (\<Sum>v \<leftarrow> rs. sint (v ! i))"
    using Cons.prems(1) by (intro sum_list_nonneg) auto
  with Cons.prems have "sint (x + v ! i) = sint x + sint (v ! i)"
    by (simp add: sint_word_add signed_take_bit_int_eq_self)
  with Cons show ?case by simp
qed simp

lemma mean_between:
  assumes "xs \<noteq> []"
  shows "\<exists>x \<in> set xs. x \<le> sum_list xs div int (length xs)"
    and "\<exists>x \<in> set xs. sum_list xs div int (length xs) \<le> x"
proof -
  let ?n = "int (length xs)"
  have n: "0 < ?n" using assms by simp
  have lo: "?n * m \<le> sum_list xs" if "\<forall>x \<in> set xs. m \<le> x" for m
    using that by (induction xs) (auto simp: algebra_simps)
  have hi: "sum_list xs \<le> ?n * m" if "\<forall>x \<in> set xs. x \<le> m" for m
    using that by (induction xs) (auto simp: algebra_simps)
  have "?n * Min (set xs) \<le> sum_list xs" by (rule lo) simp
  with n have "Min (set xs) \<le> sum_list xs div ?n"
    using zdiv_mono1 [of "?n * Min (set xs)" "sum_list xs" ?n] by simp
  with assms show "\<exists>x \<in> set xs. x \<le> sum_list xs div int (length xs)"
    by (intro bexI [of _ "Min (set xs)"]) auto
  have "sum_list xs \<le> ?n * Max (set xs)" by (rule hi) simp
  with n have "sum_list xs div ?n \<le> Max (set xs)"
    using zdiv_mono1 [of "sum_list xs" "?n * Max (set xs)" ?n] by simp
  with assms show "\<exists>x \<in> set xs. sum_list xs div int (length xs) \<le> x"
    by (intro bexI [of _ "Max (set xs)"]) auto
qed

lemma divide_each:
  assumes "\<And>x. quot32 x d = Ret (q x)"
  shows "fold_go (\<lambda>i res. and_then (quot32 (res ! i) d) (\<lambda>y. Ret (res[i := y]))) [0..<length res] res
       = Ret (List.map q res)"
proof -
  have "fold_go (\<lambda>i res. and_then (quot32 (res ! i) d) (\<lambda>y. Ret (res[i := y]))) [i..<length res] res
       = Ret (take i res @ List.map q (drop i res))" if "i \<le> length res" for i res
    using that
  proof (induction "length res - i" arbitrary: i res)
    case (Suc k)
    then have i: "i < length res" by simp
    have "fold_go (\<lambda>i res. and_then (quot32 (res ! i) d) (\<lambda>y. Ret (res[i := y])))
              [Suc i..<length (res[i := q (res ! i)])] (res[i := q (res ! i)])
        = Ret (take (Suc i) (res[i := q (res ! i)]) @ List.map q (drop (Suc i) (res[i := q (res ! i)])))"
      using Suc i by (intro Suc.hyps(1)) auto
    moreover have "List.map q (drop i res) = q (res ! i) # List.map q (drop (Suc i) res)"
      using i by (simp add: Cons_nth_drop_Suc [symmetric])
    ultimately show ?case
      using i by (simp add: upt_conv_Cons assms take_Suc_conv_app_nth)
  qed simp
  from this [of 0 res] show ?thesis by simp
qed


lemma uniformD:
  assumes "uniform n b rs"
  shows "rs \<noteq> []" "v \<in> set rs \<Longrightarrow> length v = n"
    and "v \<in> set rs \<Longrightarrow> i < n \<Longrightarrow> 0 \<le> sint (v ! i)"
    and "v \<in> set rs \<Longrightarrow> i < n \<Longrightarrow> sint (v ! i) \<le> b"
  using assms by (auto simp: uniform_def)

lemma MaxStrategy_uniform:
  assumes "uniform n b rs"
  shows "\<exists>res. MaxStrategy rs = Ret res \<and> length res = n \<and>
    (\<forall>i < n. sint (res ! i) = fold (\<lambda>v. max (sint (v ! i))) rs 0)"
proof -
  obtain r0 rest where rs: "rs = r0 # rest" using uniformD(1) [OF assms] by (cases rs) auto
  have len: "\<forall>v \<in> set rs. length v = length (replicate n (0 :: int32))"
    using uniformD(2) [OF assms] by simp
  let ?res = "fold (\<lambda>v res. List.map2 max32 v res @ drop (length v) res) rs (replicate n 0)"
  have "length r0 = n" using len rs by simp
  then have "MaxStrategy rs = Ret ?res"
    using len \<open>length r0 = n\<close> by (simp add: MaxStrategy_eq rs del: fold.simps)
  moreover have "length ?res = n" using fold_map2_length [OF len] by simp
  moreover have "sint (?res ! i) = fold (\<lambda>v. max (sint (v ! i))) rs 0" if "i < n" for i
    using fold_map2_nth [OF len, of i max32] that by (simp add: fold_max32)
  ultimately show ?thesis by blast
qed

lemma MinStrategy_uniform:
  assumes "uniform n b rs"
  shows "\<exists>res. MinStrategy rs = Ret res \<and> length res = n \<and>
    (\<forall>i < n. sint (res ! i) = fold (\<lambda>v. min (sint (v ! i))) (tl rs) (sint (hd rs ! i)))"
proof -
  obtain r0 rest where rs: "rs = r0 # rest" using uniformD(1) [OF assms] by (cases rs) auto
  have n: "length r0 = n" and len: "\<forall>v \<in> set rest. length v = length r0"
    using uniformD(2) [OF assms] rs by auto
  let ?res = "fold (\<lambda>v res. List.map2 min32 v res @ drop (length v) res) rest r0"
  have "MinStrategy rs = Ret ?res"
    using len by (simp add: MinStrategy_eq rs)
  moreover have "length ?res = n" using fold_map2_length [OF len] n by simp
  moreover have "sint (?res ! i) = fold (\<lambda>v. min (sint (v ! i))) rest (sint (r0 ! i))" if "i < n" for i
    using fold_map2_nth [OF len, of i min32] that n by (simp add: fold_min32)
  ultimately show ?thesis using rs by auto
qed

lemma uniform_sum:
  assumes "uniform n b rs" and "i < n"
  shows "0 \<le> (\<Sum>v \<leftarrow> rs. sint (v ! i))" and "(\<Sum>v \<leftarrow> rs. sint (v ! i)) < 2 ^ 31"
proof -
  have "0 \<le> sint (v ! i)" "sint (v ! i) \<le> b" if "v \<in> set rs" for v
    using uniformD(3,4) [OF assms(1)] assms(2) that by auto
  then have "0 \<le> (\<Sum>v \<leftarrow> rs. sint (v ! i)) \<and> (\<Sum>v \<leftarrow> rs. sint (v ! i)) \<le> b * int (length rs)"
    by (induction rs) (auto simp: algebra_simps, (metis add_mono)+)
  with assms(1) show "0 \<le> (\<Sum>v \<leftarrow> rs. sint (v ! i))" and "(\<Sum>v \<leftarrow> rs. sint (v ! i)) < 2 ^ 31"
    by (auto simp: uniform_def)
qed

lemma MeanStrategy_uniform:
  assumes "uniform n b rs"
  shows "\<exists>res. MeanStrategy rs = Ret res \<and> length res = n \<and>
    (\<forall>i < n. sint (res ! i) = (\<Sum>v \<leftarrow> rs. sint (v ! i)) div int (length rs))"
proof -
  obtain r0 rest where rs: "rs = r0 # rest" using uniformD(1) [OF assms] by (cases rs) auto
  have len: "\<forall>v \<in> set rs. length v = length (replicate n (0 :: int32))"
    using uniformD(2) [OF assms] by simp
  let ?d = "word_of_int (int (length rs)) :: int32"
  let ?sums = "fold (\<lambda>v res. List.map2 (\<lambda>vv r. r + vv) v res @ drop (length v) res) rs (replicate n 0)"
  let ?q = "\<lambda>x. word_of_int (sint x sdiv sint ?d) :: int32"
  have d: "sint ?d = int (length rs)" using assms by (intro sint32_of_int) (auto simp: uniform_def)
  with rs have "?d \<noteq> 0" by (metis length_0_conv list.distinct(1) of_nat_eq_0_iff sint_0)
  then have q: "quot32 x ?d = Ret (?q x)" for x by (simp add: quot32_def)
  have sums: "length ?sums = n" using fold_map2_length [OF len] by simp
  have "length r0 = n" using len rs by simp
  then have "MeanStrategy rs = fold_go (\<lambda>i res. and_then (quot32 (res ! i) ?d) (\<lambda>y. Ret (res[i := y])))
      [0..<length ?sums] ?sums"
    using len sums by (simp add: MeanStrategy_eq rs Let_def del: fold.simps)
  also have "\<dots> = Ret (List.map ?q ?sums)" by (rule divide_each [OF q])
  finally have "MeanStrategy rs = Ret (List.map ?q ?sums)" .
  moreover have "sint (List.map ?q ?sums ! i) = (\<Sum>v \<leftarrow> rs. sint (v ! i)) div int (length rs)" if i: "i < n" for i
  proof -
    have "?sums ! i = fold (\<lambda>v x. x + v ! i) rs 0"
      using fold_map2_nth [OF len, of i "\<lambda>vv r. r + vv"] i by simp
    moreover have "sint (fold (\<lambda>v x. x + v ! i) rs (0 :: int32)) = (\<Sum>v \<leftarrow> rs. sint (v ! i))"
      using fold_add32 [of rs i 0] uniformD(3) [OF assms] uniform_sum [OF assms i] i by simp
    ultimately have s: "sint (?sums ! i) = (\<Sum>v \<leftarrow> rs. sint (v ! i))" by simp
    let ?s = "\<Sum>v \<leftarrow> rs. sint (v ! i)" and ?n = "int (length rs)"
    have "0 \<le> ?s" "?s < 2 ^ 31" by (rule uniform_sum [OF assms i])+
    moreover have "0 < ?n" using rs by simp
    moreover have "?s div ?n \<le> ?s" if "0 \<le> ?s" "0 < ?n"
      using zdiv_mono2 [of ?s 1 ?n] that by simp
    ultimately have "?s sdiv ?n = ?s div ?n" "0 \<le> ?s div ?n" "?s div ?n < 2 ^ 31"
      by (auto simp: signed_divide_int_def pos_imp_zdiv_nonneg_iff sgn_if)
    with s d i sums show ?thesis by (simp add: sint32_of_int)
  qed
  ultimately show ?thesis using sums by auto
qed

interpretation max_strategy: model_strategy MaxStrategy
proof
  show "MaxStrategy [] = Ret []" by (simp add: MaxStrategy_def)
  show "MaxStrategy rs = Panic IndexOutOfRange" if "v \<in> set rs" "length (hd rs) < length v" for v rs
    using that by (subst MaxStrategy_eq) (auto simp: not_le)
  show "\<exists>res. MaxStrategy rs = Ret res \<and> length res = n \<and>
        (\<forall>i < n. (\<exists>v \<in> set rs. sint (v ! i) \<le> sint (res ! i)) \<and> (\<exists>v \<in> set rs. sint (res ! i) \<le> sint (v ! i)))"
    if u: "uniform n b rs" for n b rs
  proof -
    obtain v0 where v0: "v0 \<in> set rs" using uniformD(1) [OF u] by (cases rs) auto
    let ?m = "\<lambda>i. fold (\<lambda>v. max (sint (v ! i))) rs 0"
    have "\<exists>v \<in> set rs. ?m i \<le> sint (v ! i)" if "i < n" for i
      using fold_max_attained [of "\<lambda>v. sint (v ! i)" rs 0] uniformD(3) [OF u v0 that] v0 by auto
    moreover have "sint (v0 ! i) \<le> ?m i" for i
      using fold_max_upper [OF v0, of "\<lambda>v. sint (v ! i)"] .
    ultimately show ?thesis using MaxStrategy_uniform [OF u] v0 by metis
  qed
qed

interpretation min_strategy: model_strategy MinStrategy
proof
  show "MinStrategy [] = Ret []" by (simp add: MinStrategy_def)
  show "MinStrategy rs = Panic IndexOutOfRange" if "v \<in> set rs" "length (hd rs) < length v" for v rs
    using that by (subst MinStrategy_eq) (auto simp: not_le)
  show "\<exists>res. MinStrategy rs = Ret res \<and> length res = n \<and>
        (\<forall>i < n. (\<exists>v \<in> set rs. sint (v ! i) \<le> sint (res ! i)) \<and> (\<exists>v \<in> set rs. sint (res ! i) \<le> sint (v ! i)))"
    if u: "uniform n b rs" for n b rs
  proof -
    obtain r0 rest where rs: "rs = r0 # rest" using uniformD(1) [OF u] by (cases rs) auto
    let ?m = "\<lambda>i. fold (\<lambda>v. min (sint (v ! i))) rest (sint (r0 ! i))"
    have "\<exists>v \<in> set rs. sint (v ! i) \<le> ?m i" for i
      using fold_min_attained [of "\<lambda>v. sint (v ! i)" rest "sint (r0 ! i)"] rs by auto
    moreover have "?m i \<le> sint (r0 ! i)" for i by (rule fold_min_init)
    ultimately show ?thesis using MinStrategy_uniform [OF u] rs by (metis list.sel(1,3) list.set_intros(1))
  qed
qed

interpretation mean_strategy: model_strategy MeanStrategy
proof
  show "MeanStrategy [] = Ret []" by (simp add: MeanStrategy_def)
  show "MeanStrategy rs = Panic IndexOutOfRange" if "v \<in> set rs" "length (hd rs) < length v" for v rs
    using that by (subst MeanStrategy_eq) (auto simp: not_le)
  show "\<exists>res. MeanStrategy rs = Ret res \<and> length res = n \<and>
        (\<forall>i < n. (\<exists>v \<in> set rs. sint (v ! i) \<le> sint (res ! i)) \<and> (\<exists>v \<in> set rs. sint (res ! i) \<le> sint (v ! i)))"
    if u: "uniform n b rs" for n b rs
  proof -
    have "\<exists>v \<in> set rs. sint (v ! i) \<le> (\<Sum>v \<leftarrow> rs. sint (v ! i)) div int (length rs)"
      and "\<exists>v \<in> set rs. (\<Sum>v \<leftarrow> rs. sint (v ! i)) div int (length rs) \<le> sint (v ! i)" for i
      using mean_between [of "List.map (\<lambda>v. sint (v ! i)) rs"] uniformD(1) [OF u] by auto
    then show ?thesis using MeanStrategy_uniform [OF u] by metis
  qed
qed


section \<open>Metrics to replicas\<close>

lemma rnd_le_int: "x \<le> of_int k \<Longrightarrow> 0 \<le> k \<Longrightarrow> k \<le> 2 ^ 53 \<Longrightarrow> rnd x \<le> of_int k"
  using rnd_mono [of x "of_int k"] by (simp add: rnd_of_int)

text \<open>One quotient rounded, rounded up and converted, when it fits.\<close>

definition quotient_up :: "(f64 \<Rightarrow> int32) \<Rightarrow> rat \<Rightarrow> int32" where
  "quotient_up oob q = int32_of_f64 oob (fceil (mk_f64 False q))"

lemma quotient_up_sint:
  assumes "0 \<le> q" and "q \<le> 2 ^ 31 - 1"
  shows "sint (quotient_up oob q) = \<lceil>rnd q\<rceil>"
proof -
  have "q \<le> of_int (2 ^ 31 - 1)" using assms(2) by simp
  then have r: "rnd q \<le> of_int (2 ^ 31 - 1)" by (rule rnd_le_int) auto
  then have "\<lceil>rnd q\<rceil> \<le> 2 ^ 31 - 1" by (simp only: ceiling_le_iff)
  moreover have "0 \<le> \<lceil>rnd q\<rceil>" using rnd_nonneg [of q] by linarith
  moreover have "\<not> overflows (rnd q)"
    using r by (intro not_overflows_small [where e = 31]) auto
  ultimately show ?thesis
    by (simp add: quotient_up_def mk_f64_def sint32_of_int)
qed

lemma quotient_up_mono:
  assumes "0 \<le> q" "q \<le> q'" "q' \<le> 2 ^ 31 - 1"
  shows "sint (quotient_up oob q) \<le> sint (quotient_up oob q')"
proof -
  have "\<lceil>rnd q\<rceil> \<le> \<lceil>rnd q'\<rceil>" using assms(2) by (intro ceiling_mono rnd_mono)
  then show ?thesis using quotient_up_sint [of q oob] quotient_up_sint [of q' oob] assms by simp
qed

lemma quotient_up_upper:
  assumes "0 \<le> q" and "q \<le> 2 ^ 31 - 1"
  shows "sint (quotient_up oob q) \<le> \<lceil>q\<rceil>"
proof -
  have "\<lceil>q\<rceil> \<le> 2 ^ 31 - 1" using assms(2) by (simp add: ceiling_le_iff)
  moreover have "0 \<le> \<lceil>q\<rceil>" using assms(1) by linarith
  ultimately have "rnd q \<le> of_int \<lceil>q\<rceil>" by (intro rnd_le_int) auto
  then show ?thesis by (simp add: quotient_up_sint [OF assms] ceiling_le_iff)
qed

lemma quotient_up_lower:
  assumes "0 \<le> q" and "q \<le> 2 ^ 31 - 1" and "q = 0 \<or> 2 powi (- 1022) \<le> q"
  shows "q * (1 - 1 / 2 ^ 53) \<le> of_int (sint (quotient_up oob q))"
proof -
  have "\<bar>rnd q - q\<bar> \<le> q / 2 ^ 53" using assms(3) rnd_error [of q] by auto
  then have "q - q / 2 ^ 53 \<le> rnd q" by linarith
  moreover have "q * (1 - 1 / 2 ^ 53) = q - q / 2 ^ 53" by (simp add: algebra_simps)
  ultimately have "q * (1 - 1 / 2 ^ 53) \<le> rnd q" by simp
  also have "\<dots> \<le> of_int \<lceil>rnd q\<rceil>" by simp
  finally show ?thesis by (simp only: quotient_up_sint [OF assms(1,2)])
qed

lemma UnderThreshold_nth:
  assumes "i < length ps" and "ps ! i = Fin False m" and "0 \<le> m" and "0 < t"
  shows "UnderThreshold oob (Fin False t) s k ps ! i = quotient_up oob (m / t)"
  using assms by (simp add: UnderThreshold_def quotient_up_def)

text \<open>For whole numbers below \<open>2 ^ 53\<close> the rounding of the quotient does not matter: it is too small to
  reach the next multiple of the divisor.\<close>

lemma quotient_up_whole:
  assumes "0 < b" and "a < 2 ^ 53" and "of_nat a / of_nat b \<le> (2 ^ 31 - 1 :: rat)"
    and "(2 :: rat) powi (- 1022) \<le> of_nat a / of_nat b \<or> a = 0"
  shows "sint (quotient_up oob (of_nat a / of_nat b)) = \<lceil>of_nat a / of_nat b :: rat\<rceil>"
proof -
  let ?q = "of_nat a / of_nat b :: rat"
  have q: "0 \<le> ?q" by simp
  have "\<lceil>?q\<rceil> \<le> \<lceil>rnd ?q\<rceil>"
  proof (rule ccontr)
    assume "\<not> \<lceil>?q\<rceil> \<le> \<lceil>rnd ?q\<rceil>"
    then have r: "of_int \<lceil>rnd ?q\<rceil> < ?q" by (simp only: not_le less_ceiling_iff)
    then have "of_int \<lceil>rnd ?q\<rceil> * of_nat b < (of_nat a :: rat)" using assms(1) by (simp add: field_simps)
    then have "\<lceil>rnd ?q\<rceil> * int b < int a" by (metis of_int_less_iff of_int_mult of_int_of_nat_eq)
    then have "\<lceil>rnd ?q\<rceil> * int b + 1 \<le> int a" by linarith
    then have "of_int (\<lceil>rnd ?q\<rceil> * int b + 1) \<le> (of_int (int a) :: rat)" by (simp only: of_int_le_iff)
    then have "(of_int (\<lceil>rnd ?q\<rceil> * int b + 1) :: rat) / of_nat b \<le> of_int (int a) / of_nat b" by (rule divide_right_mono) simp
    then have "of_int \<lceil>rnd ?q\<rceil> + 1 / of_nat b \<le> ?q" using assms(1) by (simp add: add_divide_distrib)
    then have gap: "1 / of_nat b \<le> ?q - rnd ?q" using le_of_int_ceiling [of "rnd ?q"] by linarith
    have "\<bar>rnd ?q - ?q\<bar> \<le> ?q / 2 ^ 53" using assms(4) rnd_error [of ?q] by auto
    then have "?q - rnd ?q \<le> ?q / 2 ^ 53" by linarith
    also have "\<dots> < 1 / of_nat b"
    proof -
      have "(of_nat a :: rat) < of_nat (2 ^ 53)" using assms(2) by (simp only: of_nat_less_iff)
      then show ?thesis using assms(1) by (simp add: field_simps)
    qed
    finally show False using gap by simp
  qed
  moreover have "\<lceil>rnd ?q\<rceil> \<le> \<lceil>?q\<rceil>"
    using quotient_up_upper [OF q assms(3), of oob] by (simp only: quotient_up_sint [OF q assms(3)])
  ultimately show ?thesis by (simp only: quotient_up_sint [OF q assms(3)])
qed



text \<open>A larger predicted metric never gives fewer replicas, for every target above zero and
  predictions whose quotient fits the replica count.\<close>

lemma UnderThreshold_monotone:
  assumes "i < length ps" "ps ! i = Fin False m" "j < length ps" "ps ! j = Fin False m'"
    and "0 \<le> m" "m \<le> m'" "0 < t" "m' / t \<le> 2 ^ 31 - 1"
  shows "sint (UnderThreshold oob (Fin False t) s k ps ! i) \<le> sint (UnderThreshold oob (Fin False t) s k ps ! j)"
  using assms quotient_up_mono [of "m / t" "m' / t" oob]
  by (simp add: UnderThreshold_nth divide_right_mono)

text \<open>\<open>Steady\<close> keeps the current replica count for a prediction equal to the metric at the start.\<close>

lemma Steady_keeps:
  assumes "0 < m" "0 \<le> sint n" "i < length ps" "ps ! i = Fin False m"
  shows "Steady oob t (Fin False m) n ps ! i = n"
proof -
  have one: "mk_f64 False 1 = Fin False 1"
    using mk_f64_of_int [of 1 False] by simp
  define k where "k = sint n"
  have k: "0 \<le> k" "k < 2 ^ 31" "word_of_int k = n"
    using assms(2) sint32_bounds(2) [of n] by (simp_all add: k_def)
  then have "f64_of_int k = Fin False (of_int k)" "mk_f64 False (of_int k) = Fin False (of_int k)"
    by (simp_all add: f64_of_int_exact mk_f64_of_int)
  then have "Steady oob t (Fin False m) n ps ! i = int32_of_f64 oob (Fin False (of_int k))"
    using assms by (simp add: Steady_def one k_def [symmetric])
  also have "\<dots> = n"
    using k by simp
  finally show ?thesis .
qed



end
