(* ===== verification/ScalerModel.thy ===== *)
theory ScalerModel
  imports Strategy K8s
begin

text \<open>
  scaler/scaler.go: the scaler of one AOM instance. \<open>recvChan\<close> is the address of the channel once
  it has been made.
\<close>

record Scaler =
  MaxReplica :: int32
  MinReplica :: int32
  Namespace :: string
  ScaleTargetRef :: CrossVersionObjectReference
  recvChan :: "addr option"

definition Scaler_New :: "string \<Rightarrow> CrossVersionObjectReference \<Rightarrow> int32 \<Rightarrow> int32 \<Rightarrow> Scaler" where
  "Scaler_New namespace scaleTargetRef maxReplica minReplica =
     \<lparr>MaxReplica = maxReplica, MinReplica = minReplica, Namespace = namespace,
      ScaleTargetRef = scaleTargetRef, recvChan = None\<rparr>"

text \<open>\<open>RecvChan\<close> makes the channel on the first call; \<open>fresh\<close> is the address \<open>make\<close> returns.\<close>

definition RecvChan :: "addr \<Rightarrow> Scaler \<Rightarrow> addr \<times> Scaler" where
  "RecvChan fresh s =
     (case recvChan s of None \<Rightarrow> (fresh, s\<lparr>recvChan := Some fresh\<rparr>) | Some c \<Rightarrow> (c, s))"

type_synonym BaseStrategy = "f64 \<Rightarrow> f64 \<Rightarrow> int32 \<Rightarrow> f64 list \<Rightarrow> int32 list"

definition GetModelReplica ::
  "'c k8s_libs \<Rightarrow> 'c k8s_state \<Rightarrow> Scaler option \<Rightarrow> f64 list \<Rightarrow> f64 \<Rightarrow> BaseStrategy \<Rightarrow> f64 \<Rightarrow> 'c \<Rightarrow> int32 list go \<times> 'c" where
  "GetModelReplica lib st s predictMetrics startMetric strategy targetMetric cl =
     (case s of
        None \<Rightarrow> (Panic NilDereference, cl)
      | Some s \<Rightarrow>
          (case GetReplica lib (GlobalClient st) (Namespace s) (ScaleTargetRef s) cl of
             (Ret startReplica, cl') \<Rightarrow> (Ret (strategy targetMetric startMetric startReplica predictMetrics), cl')
           | (Err e, cl') \<Rightarrow> (Err e, cl')
           | (Panic p, cl') \<Rightarrow> (Panic p, cl')))"

definition GetMetricReplica :: "int32 list list \<Rightarrow> (int32 list list \<Rightarrow> int32 list go) \<Rightarrow> int32 list go" where
  "GetMetricReplica modelReplica strategy = strategy modelReplica"

definition GetObjReplica :: "int32 list list \<Rightarrow> (int32 list list \<Rightarrow> int32 list go) \<Rightarrow> int32 list go" where
  "GetObjReplica metricReplica strategy = strategy metricReplica"

definition GetScaleReplica :: "int32 list \<Rightarrow> (int32 list \<Rightarrow> int32 go) \<Rightarrow> int32 go" where
  "GetScaleReplica objReplicaSet strategy = strategy objReplicaSet"

definition UpTo :: "'c k8s_libs \<Rightarrow> 'c k8s_state \<Rightarrow> Scaler option \<Rightarrow> int32 \<Rightarrow> 'c \<Rightarrow> unit go \<times> 'c" where
  "UpTo lib st s replica cl =
     (case s of
        None \<Rightarrow> (Panic NilDereference, cl)
      | Some s \<Rightarrow>
          (case GetReplica lib (GlobalClient st) (Namespace s) (ScaleTargetRef s) cl of
             (Panic p, cl') \<Rightarrow> (Panic p, cl')
           | (Err e, cl') \<Rightarrow> (Err e, cl')
           | (Ret curReplica, cl') \<Rightarrow>
               if sint replica \<le> sint curReplica
               then (Err (NewError ''target replica num is smaller than the current''), cl')
               else SetReplica lib st (Namespace s) (ScaleTargetRef s)
                      (if gt32 replica (MaxReplica s) then MaxReplica s else replica) cl'))"

definition DownTo :: "'c k8s_libs \<Rightarrow> 'c k8s_state \<Rightarrow> Scaler option \<Rightarrow> int32 \<Rightarrow> 'c \<Rightarrow> unit go \<times> 'c" where
  "DownTo lib st s replica cl =
     (case s of
        None \<Rightarrow> (Panic NilDereference, cl)
      | Some s \<Rightarrow>
          (case GetReplica lib (GlobalClient st) (Namespace s) (ScaleTargetRef s) cl of
             (Panic p, cl') \<Rightarrow> (Panic p, cl')
           | (Err e, cl') \<Rightarrow> (Err e, cl')
           | (Ret curReplica, cl') \<Rightarrow>
               if sint curReplica \<le> sint replica
               then (Err (NewError ''target replica num is bigger than the current''), cl')
               else SetReplica lib st (Namespace s) (ScaleTargetRef s)
                      (if gt32 (MinReplica s) replica then MinReplica s else replica) cl'))"

abbreviation scaler_target :: "'c k8s_libs \<Rightarrow> Scaler \<Rightarrow> target" where
  "scaler_target lib s \<equiv> target_of lib (Namespace s) (ScaleTargetRef s)"

lemma UpTo_refuses:
  assumes "serving lib st view" and "view cl (scaler_target lib s) = Some cur" and "sint replica \<le> sint cur"
  shows "UpTo lib st (Some s) replica cl
       = (Err (NewError ''target replica num is smaller than the current''), cl)"
  using assms by (simp add: UpTo_def GetReplica_serving [OF assms(1,2)])

lemma UpTo_scales:
  assumes "serving lib st view" and "view cl (scaler_target lib s) = Some cur" and "sint cur < sint replica"
  shows "\<exists>cl'. UpTo lib st (Some s) replica cl = (Ret (), cl') \<and>
               view cl' = (view cl)(scaler_target lib s \<mapsto> min32 replica (MaxReplica s))"
proof -
  have "(if gt32 replica (MaxReplica s) then MaxReplica s else replica) = min32 replica (MaxReplica s)"
    by (simp add: min32_def)
  with SetReplica_serving [OF assms(1,2)] assms(3) show ?thesis
    by (simp add: UpTo_def GetReplica_serving [OF assms(1,2)])
qed

lemma DownTo_refuses:
  assumes "serving lib st view" and "view cl (scaler_target lib s) = Some cur" and "sint cur \<le> sint replica"
  shows "DownTo lib st (Some s) replica cl
       = (Err (NewError ''target replica num is bigger than the current''), cl)"
  using assms by (simp add: DownTo_def GetReplica_serving [OF assms(1,2)])

lemma DownTo_scales:
  assumes "serving lib st view" and "view cl (scaler_target lib s) = Some cur" and "sint replica < sint cur"
  shows "\<exists>cl'. DownTo lib st (Some s) replica cl = (Ret (), cl') \<and>
               view cl' = (view cl)(scaler_target lib s \<mapsto> max32 replica (MinReplica s))"
proof -
  have "(if gt32 (MinReplica s) replica then MinReplica s else replica) = max32 replica (MinReplica s)"
    by (simp add: max32_def)
  with SetReplica_serving [OF assms(1,2)] assms(3) show ?thesis
    by (simp add: DownTo_def GetReplica_serving [OF assms(1,2)])
qed

section \<open>A cluster\<close>

text \<open>A concrete cluster that serves one count per object, for the witnesses.\<close>

definition demo_getter :: "(target \<Rightarrow> int32) ScalesGetter" where
  "demo_getter =
     \<lparr>scales_Get = (\<lambda>cl ns gr n. (Inr \<lparr>scale_name = n, Replicas = cl (ns, gr, n), other_fields = 0\<rparr>, cl)),
      scales_Update = (\<lambda>cl ns gr sc. (Inr sc, cl((ns, gr, scale_name sc) := Replicas sc)))\<rparr>"

definition demo_libs :: "(target \<Rightarrow> int32) k8s_libs" where
  "demo_libs =
     \<lparr>BuildConfigFromFlags = Inr 0, NewForConfig = (\<lambda>_. Inr 0), GetAPIGroupResources = (\<lambda>_. Inr 0),
      scale_NewForConfig = (\<lambda>_ _ _. Inr demo_getter), group_of = (\<lambda>v. takeWhile (\<lambda>c. c \<noteq> CHR ''/'') v)\<rparr>"

definition demo_k8s :: "(target \<Rightarrow> int32) k8s_state" where
  "demo_k8s = \<lparr>GlobalClient = Some \<lparr>Config = 0, ClientSet = 0, ScaleGetter = demo_getter\<rparr>, once_done = True\<rparr>"

definition demo_view :: "(target \<Rightarrow> int32) \<Rightarrow> target \<Rightarrow> int32 option" where
  "demo_view cl t = Some (cl t)"

definition demo_scaler :: Scaler where
  "demo_scaler = Scaler_New ''default''
     \<lparr>Kind = ''Deployment'', refName = ''my-app-deployment'', APIVersion = ''apps/v1''\<rparr> 5 1"

lemma demo_view_update: "demo_view (cl(t := r)) = (demo_view cl)(t \<mapsto> r)"
  by (simp add: demo_view_def fun_eq_iff)

lemma demo_serving [simp]: "serving demo_libs demo_k8s demo_view"
  by (simp add: serving_def demo_k8s_def scale_service_def demo_getter_def demo_view_update)
    (simp add: demo_view_def)

section \<open>Properties\<close>

text \<open>C25: scaling up writes to no object but the scale target, writes the requested count cut at
  the maximum exactly when the target runs fewer replicas than requested, and otherwise returns
  the error and changes nothing.\<close>

theorem UpTo_spec:
  assumes "serving lib st view" and "view cl (scaler_target lib s) = Some cur"
  shows "\<exists>r cl'. UpTo lib st (Some s) replica cl = (r, cl') \<and>
    (if sint cur < sint replica
     then r = Ret () \<and> view cl' = (view cl)(scaler_target lib s \<mapsto> min32 replica (MaxReplica s))
     else r = Err (NewError ''target replica num is smaller than the current'') \<and> cl' = cl)"
  using UpTo_refuses [OF assms] UpTo_scales [OF assms] by (cases "sint cur < sint replica") auto

theorem UpTo_spec_witness:
  "\<exists>r cl'. UpTo demo_libs demo_k8s (Some demo_scaler) 9 (\<lambda>_. 3) = (r, cl') \<and> r = Ret () \<and>
     demo_view cl' = (demo_view (\<lambda>_. 3))(scaler_target demo_libs demo_scaler \<mapsto> min32 9 (MaxReplica demo_scaler))"
  using UpTo_spec [OF demo_serving, of "\<lambda>_. 3" demo_scaler 3 9] by (simp add: demo_view_def)

section \<open>Any sequence of scalings\<close>

datatype scaling = Up int32 | Down int32

text \<open>The calls one after the other; whatever one of them returns, the callers go on.\<close>

fun scale_all :: "'c k8s_libs \<Rightarrow> 'c k8s_state \<Rightarrow> Scaler \<Rightarrow> scaling list \<Rightarrow> 'c \<Rightarrow> 'c" where
  "scale_all lib st s [] cl = cl"
| "scale_all lib st s (Up n # cs) cl = scale_all lib st s cs (snd (UpTo lib st (Some s) n cl))"
| "scale_all lib st s (Down n # cs) cl = scale_all lib st s cs (snd (DownTo lib st (Some s) n cl))"

definition between :: "Scaler \<Rightarrow> int32 \<Rightarrow> int32 \<Rightarrow> bool" where
  "between s cur n \<longleftrightarrow>
     min (sint cur) (sint (MinReplica s)) \<le> sint n \<and> sint n \<le> max (sint cur) (sint (MaxReplica s))"

lemma between_trans:
  "sint (MinReplica s) \<le> sint (MaxReplica s) \<Longrightarrow> between s cur m \<Longrightarrow> between s m n \<Longrightarrow> between s cur n"
  by (auto simp: between_def min_le_iff_disj le_max_iff_disj)

lemma UpTo_step:
  assumes "serving lib st view" and "view cl (scaler_target lib s) = Some cur" and "sint (MinReplica s) \<le> sint (MaxReplica s)"
  shows "\<exists>m. between s cur m \<and> view (snd (UpTo lib st (Some s) n cl)) = (view cl)(scaler_target lib s \<mapsto> m)"
proof (cases "sint cur < sint n")
  case True
  then obtain cl' where "UpTo lib st (Some s) n cl = (Ret (), cl')"
    "view cl' = (view cl)(scaler_target lib s \<mapsto> min32 n (MaxReplica s))" using UpTo_scales [OF assms(1,2)] by blast
  moreover have "between s cur (min32 n (MaxReplica s))" using True assms(3) by (auto simp: between_def)
  ultimately show ?thesis by auto
next
  case False
  then show ?thesis using UpTo_refuses [OF assms(1,2), of n] assms(2)
    by (intro exI [of _ cur]) (auto simp: between_def fun_upd_idem)
qed

lemma DownTo_step:
  assumes "serving lib st view" and "view cl (scaler_target lib s) = Some cur" and "sint (MinReplica s) \<le> sint (MaxReplica s)"
  shows "\<exists>m. between s cur m \<and> view (snd (DownTo lib st (Some s) n cl)) = (view cl)(scaler_target lib s \<mapsto> m)"
proof (cases "sint n < sint cur")
  case True
  then obtain cl' where "DownTo lib st (Some s) n cl = (Ret (), cl')"
    "view cl' = (view cl)(scaler_target lib s \<mapsto> max32 n (MinReplica s))" using DownTo_scales [OF assms(1,2)] by blast
  moreover have "between s cur (max32 n (MinReplica s))" using True assms(3) by (auto simp: between_def)
  ultimately show ?thesis by auto
next
  case False
  then show ?thesis using DownTo_refuses [OF assms(1,2), of n] assms(2)
    by (intro exI [of _ cur]) (auto simp: between_def fun_upd_idem)
qed



end
