(* ===== verification/World.thy ===== *)
theory World
  imports Containers Predictor ScalerModel
begin

text \<open>
  common/aomtype, common/store and the state the controller and the scheduler share: the hidden
  state of every AOM instance, the objects and variables that are reached through pointers, the
  package variables, and the goroutines that have been started.
\<close>

section \<open>Programs over the shared state\<close>

text \<open>A program returns, fails or panics, and leaves the state it has reached.\<close>

type_synonym ('s, 'a) act = "'s \<Rightarrow> 'a go \<times> 's"

definition bind_act :: "('s, 'a) act \<Rightarrow> ('a \<Rightarrow> ('s, 'b) act) \<Rightarrow> ('s, 'b) act" where
  "bind_act m f s =
     (case m s of (Ret a, s') \<Rightarrow> f a s' | (Err e, s') \<Rightarrow> (Err e, s') | (Panic p, s') \<Rightarrow> (Panic p, s'))"

definition return_act :: "'a \<Rightarrow> ('s, 'a) act" where
  "return_act a s = (Ret a, s)"

text \<open>A loop over a slice that carries the variables it assigns, and one that carries none.\<close>

fun fold_act :: "('x \<Rightarrow> 'a \<Rightarrow> ('s, 'a) act) \<Rightarrow> 'x list \<Rightarrow> 'a \<Rightarrow> ('s, 'a) act" where
  "fold_act f [] a = return_act a"
| "fold_act f (x # xs) a = bind_act (f x a) (fold_act f xs)"

definition each_act :: "('x \<Rightarrow> ('s, unit) act) \<Rightarrow> 'x list \<Rightarrow> ('s, unit) act" where
  "each_act f xs = fold_act (\<lambda>x _. f x) xs ()"

text \<open>A \<open>sync.Once\<close>, a map read and so on act on the state without failing.\<close>

definition modify :: "('s \<Rightarrow> 's) \<Rightarrow> ('s, unit) act" where
  "modify f s = (Ret (), f s)"

definition read_act :: "('s \<Rightarrow> 'a) \<Rightarrow> ('s, 'a) act" where
  "read_act f s = (Ret (f s), s)"

definition lift_go :: "('s \<Rightarrow> 'a go) \<Rightarrow> ('s, 'a) act" where
  "lift_go f s = (f s, s)"

lemma bind_act_Ret [go_simps]:
  "bind_act m f s = (Ret b, s') \<longleftrightarrow> (\<exists>a t. m s = (Ret a, t) \<and> f a t = (Ret b, s'))"
  by (auto simp: bind_act_def split: prod.splits go.splits)

lemma bind_act_step [simp]:
  "m s = (Ret a, t) \<Longrightarrow> bind_act m f s = f a t"
  "m s = (Err e, t) \<Longrightarrow> bind_act m f s = (Err e, t)"
  "m s = (Panic p, t) \<Longrightarrow> bind_act m f s = (Panic p, t)"
  by (simp_all add: bind_act_def)

lemma act_simps [simp]:
  "return_act a s = (Ret a, s)"
  "modify f s = (Ret (), f s)"
  "read_act g s = (Ret (g s), s)"
  "lift_go h s = (h s, s)"
  by (simp_all add: return_act_def modify_def read_act_def lift_go_def)

lemma fold_act_total:
  assumes "P a s" and "\<And>x a s. x \<in> set xs \<Longrightarrow> P a s \<Longrightarrow> \<exists>a' s'. f x a s = (Ret a', s') \<and> P a' s'"
  shows "\<exists>b t. fold_act f xs a s = (Ret b, t) \<and> P b t"
  using assms
proof (induction xs arbitrary: a s)
  case (Cons x xs)
  then obtain a' s' where "f x a s = (Ret a', s')" "P a' s'" by (meson list.set_intros(1))
  with Cons show ?case by simp
qed simp

lemma each_act_total:
  assumes "P s" and "\<And>x s. x \<in> set xs \<Longrightarrow> P s \<Longrightarrow> \<exists>s'. f x s = (Ret (), s') \<and> P s'"
  shows "\<exists>t. each_act f xs s = (Ret (), t) \<and> P t"
  using fold_act_total [of "\<lambda>_. P" "()" s xs "\<lambda>x _. f x"] assms by (simp add: each_act_def)

lemma each_act_simps [simp]:
  "each_act f [] = return_act ()"
  "each_act f (x # xs) = bind_act (f x) (\<lambda>_. each_act f xs)"
  by (simp_all add: each_act_def fun_eq_iff bind_act_def)

section \<open>Triples\<close>

text \<open>
  From a state with \<open>P\<close>: a value returned and the state satisfy \<open>Q\<close>, and the state after an error or a
  panic satisfies \<open>E\<close>.
\<close>

definition triple ::
  "('s \<Rightarrow> bool) \<Rightarrow> ('s, 'a) act \<Rightarrow> ('a \<Rightarrow> 's \<Rightarrow> bool) \<Rightarrow> ('s \<Rightarrow> bool) \<Rightarrow> bool" where
  "triple P m Q E \<longleftrightarrow> (\<forall>s. P s \<longrightarrow> (case m s of (Ret a, t) \<Rightarrow> Q a t | (_, t) \<Rightarrow> E t))"

lemma tripleI:
  assumes "\<And>s a t. P s \<Longrightarrow> m s = (Ret a, t) \<Longrightarrow> Q a t"
    and "\<And>s e t. P s \<Longrightarrow> m s = (Err e, t) \<Longrightarrow> E t"
    and "\<And>s p t. P s \<Longrightarrow> m s = (Panic p, t) \<Longrightarrow> E t"
  shows "triple P m Q E"
  using assms unfolding triple_def by (auto split: prod.splits go.splits)

lemma triple_returns:
  "(\<And>s. P s \<Longrightarrow> \<exists>a t. m s = (Ret a, t) \<and> Q a t) \<Longrightarrow> triple P m Q E"
  unfolding triple_def by fastforce

lemma triple_returnsD:
  "triple P m Q (\<lambda>_. False) \<Longrightarrow> P s \<Longrightarrow> \<exists>a t. m s = (Ret a, t) \<and> Q a t"
  unfolding triple_def by (cases "m s"; cases "fst (m s)") auto

lemma triple_Ret: "triple P m Q E \<Longrightarrow> P s \<Longrightarrow> m s = (Ret a, t) \<Longrightarrow> Q a t"
  unfolding triple_def by (metis (no_types, lifting) case_prod_conv go.simps(10))

lemma triple_state: "triple P m (\<lambda>_. I) I \<Longrightarrow> P s \<Longrightarrow> I (snd (m s))"
  unfolding triple_def by (cases "m s"; cases "fst (m s)") auto

lemma triple_bind:
  assumes "triple P m R E" and "\<And>a. triple (R a) (f a) Q E"
  shows "triple P (bind_act m f) Q E"
  using assms unfolding triple_def bind_act_def
  by (auto split: prod.splits go.splits) (metis (no_types, lifting) case_prod_conv go.simps(10,11,12))+

lemma triple_bind_bind:
  assumes "triple P (bind_act m f) R E" and "\<And>b. triple (R b) (g b) Q E"
  shows "triple P (bind_act m (\<lambda>a. bind_act (f a) g)) Q E"
proof -
  have "bind_act m (\<lambda>a. bind_act (f a) g) = bind_act (bind_act m f) g"
    by (auto simp: bind_act_def fun_eq_iff split: prod.splits go.splits)
  then show ?thesis using triple_bind [OF assms] by simp
qed

lemma triple_known: "(A \<Longrightarrow> triple P m Q E) \<Longrightarrow> triple (\<lambda>s. P s \<and> A) m Q E"
  by (auto simp: triple_def)

lemma triple_weaken:
  assumes "triple P' m Q' E'" and "\<And>s. P s \<Longrightarrow> P' s" and "\<And>a s. Q' a s \<Longrightarrow> Q a s" and "\<And>s. E' s \<Longrightarrow> E s"
  shows "triple P m Q E"
  using assms unfolding triple_def by (fastforce split: prod.splits go.splits)

lemma triple_return: "(\<And>s. P s \<Longrightarrow> Q a s) \<Longrightarrow> triple P (return_act a) Q E"
  by (simp add: triple_def)

lemma triple_modify: "(\<And>s. P s \<Longrightarrow> Q () (f s)) \<Longrightarrow> triple P (modify f) Q E"
  by (simp add: triple_def)

lemma triple_read: "(\<And>s. P s \<Longrightarrow> Q (f s) s) \<Longrightarrow> triple P (read_act f) Q E"
  by (simp add: triple_def)

lemma triple_lift:
  "(\<And>s a. P s \<Longrightarrow> f s = Ret a \<Longrightarrow> Q a s) \<Longrightarrow> (\<And>s. P s \<Longrightarrow> E s) \<Longrightarrow> triple P (lift_go f) Q E"
  by (auto simp: triple_def split: go.splits)

lemma triple_fold:
  assumes "\<And>done x a. x \<in> set xs \<Longrightarrow> set done \<subseteq> set xs \<Longrightarrow>
             triple (I done a) (f x a) (I (done @ [x])) E"
  shows "triple (I [] a) (fold_act f xs a) (I xs) E"
proof -
  have "set done \<union> set ys \<subseteq> set xs \<Longrightarrow> triple (I done a) (fold_act f ys a) (I (done @ ys)) E" for ys "done" a
  proof (induction ys arbitrary: "done" a)
    case Nil
    then show ?case by (simp only: fold_act.simps append_Nil2) (rule triple_return, assumption)
  next
    case (Cons y ys)
    then have "triple (I done a) (f y a) (I (done @ [y])) E" using assms by simp
    moreover have "triple (I (done @ [y]) b) (fold_act f ys b) (I (done @ y # ys)) E" for b
      using Cons.IH [of "done @ [y]" b] Cons.prems by simp
    ultimately show ?case unfolding fold_act.simps by (rule triple_bind)
  qed
  from this [of "[]" xs a] show ?thesis by simp
qed

lemma triple_each:
  assumes "\<And>done x. x \<in> set xs \<Longrightarrow> set done \<subseteq> set xs \<Longrightarrow> triple (I done) (f x) (\<lambda>_. I (done @ [x])) E"
  shows "triple (I []) (each_act f xs) (\<lambda>_. I xs) E"
  unfolding each_act_def using assms by (rule triple_fold [where I = "\<lambda>done _. I done"])

lemma triple_if:
  "(b \<Longrightarrow> triple P m Q E) \<Longrightarrow> (\<not> b \<Longrightarrow> triple P n Q E) \<Longrightarrow> triple P (if b then m else n) Q E"
  by simp

lemmas triple_rules = triple_return triple_modify triple_read triple_if

section \<open>Frames\<close>

text \<open>A program that leaves the part \<open>h\<close> of the state alone, however it ends.\<close>

named_theorems keeps_rules \<open>programs that leave a part of the state alone\<close>

definition keeps :: "('s \<Rightarrow> 'b) \<Rightarrow> ('s, 'a) act \<Rightarrow> bool" where
  "keeps h m \<longleftrightarrow> (\<forall>s. h (snd (m s)) = h s)"

lemma keeps_snd: "keeps h m \<Longrightarrow> h (snd (m s)) = h s"
  by (simp add: keeps_def)

lemma keepsD: "keeps h m \<Longrightarrow> m s = (r, t) \<Longrightarrow> h t = h s"
  unfolding keeps_def by (metis snd_conv)

lemma keeps_bind [keeps_rules]: "keeps h m \<Longrightarrow> (\<And>a. keeps h (f a)) \<Longrightarrow> keeps h (bind_act m f)"
  unfolding keeps_def bind_act_def by (auto split: prod.splits go.splits) (metis snd_conv)+

lemma keeps_basic [keeps_rules]:
  "keeps h (return_act a)" "keeps h (read_act g)" "keeps h (lift_go l)"
  "(\<And>s. h (f s) = h s) \<Longrightarrow> keeps h (modify f)"
  by (simp_all add: keeps_def)

lemma keeps_fold [keeps_rules]: "(\<And>x a. keeps h (f x a)) \<Longrightarrow> keeps h (fold_act f xs a)"
proof (induction xs arbitrary: a)
  case (Cons x xs)
  show ?case unfolding fold_act.simps by (rule keeps_bind [OF Cons.prems Cons.IH [OF Cons.prems]])
qed (simp add: keeps_def)

lemma keeps_each [keeps_rules]: "(\<And>x. keeps h (f x)) \<Longrightarrow> keeps h (each_act f xs)"
  unfolding each_act_def by (rule keeps_fold)

lemma keeps_if [keeps_rules]: "keeps h m \<Longrightarrow> keeps h n \<Longrightarrow> keeps h (if b then m else n)"
  by simp

lemma triple_frame_all:
  "keeps h m \<Longrightarrow> triple P m Q E \<Longrightarrow>
    triple (\<lambda>s. P s \<and> F (h s)) m (\<lambda>a s. Q a s \<and> F (h s)) (\<lambda>s. E s \<and> F (h s))"
  unfolding triple_def by (auto split: prod.splits go.splits dest: keepsD) (metis (no_types, lifting) keepsD)+

lemma triple_frame:
  "keeps h m \<Longrightarrow> triple P m Q E \<Longrightarrow> triple (\<lambda>s. P s \<and> F (h s)) m (\<lambda>a s. Q a s \<and> F (h s)) E"
  by (drule triple_frame_all, assumption) (auto elim: triple_weaken)

section \<open>Hidden state\<close>

record NamespacedName =
  nn_Namespace :: string
  nn_Name :: string

text \<open>
  The maps hold pointers: to channels, to the variables metrics and models were read into, to
  predictors and to collectors.
\<close>

record Hide =
  CollectorMap :: "(string, addr) gomap"
  MetricMap :: "addr ConcurrentMap"
  PredictorMap :: "addr ConcurrentMap"
  CollectorWorkerMap :: "addr ConcurrentMap"
  ModelMap :: "addr ConcurrentMap"
  TrainHistory :: "int ConcurrentMap"
  hide_Scaler :: "Scaler option"

text \<open>
  \<open>new(Hide)\<close>, with every map nil, and \<open>Init\<close>, which leaves \<open>TrainHistory\<close> as it is. \<open>CollectorMap\<close> is
  made by \<open>Init\<close> before anyone reads it.
\<close>

definition new_Hide :: Hide where
  "new_Hide =
     \<lparr>CollectorMap = [], MetricMap = \<lparr>Data = None\<rparr>, PredictorMap = \<lparr>Data = None\<rparr>,
      CollectorWorkerMap = \<lparr>Data = None\<rparr>, ModelMap = \<lparr>Data = None\<rparr>, TrainHistory = \<lparr>Data = None\<rparr>,
      hide_Scaler = None\<rparr>"

definition Hide_Init :: "Hide \<Rightarrow> Hide" where
  "Hide_Init h =
     h\<lparr>MetricMap := cm_init (MetricMap h), PredictorMap := cm_init (PredictorMap h),
       ModelMap := cm_init (ModelMap h), CollectorWorkerMap := cm_init (CollectorWorkerMap h),
       CollectorMap := []\<rparr>"

record Scheduler =
  sched_Name :: NamespacedName
  Interval :: int

text \<open>Goroutines: the collection loop of one metric, the loop of a scheduler, and the wait for the end of
  the training of the predictor at an address.\<close>

datatype goroutine =
    StartWorkerLoop NamespacedName addr addr int
  | RunLoop Scheduler
  | WaitLoop addr

text \<open>A channel is only ever closed; it is described by whether it is.\<close>

record 'c world =
  globalStore :: "(NamespacedName \<times> Hide) list"
  schedulers :: "(NamespacedName \<times> Scheduler) list"
  metric_vars :: "Metric store"
  model_vars :: "Model store"
  collectors :: "MetricCollector store"
  predictors :: "Predictor store"
  channels :: "bool store"
  promcDone :: bool
  pCollector :: "Promc option"
  k8s_client :: "'c k8s_state"
  goroutines :: "goroutine list"

definition GetHide :: "NamespacedName \<Rightarrow> ('c world, Hide) act" where
  "GetHide name w =
     (case map_of (globalStore w) name of
        Some h \<Rightarrow> (Ret h, w)
      | None \<Rightarrow>
          (let h = Hide_Init new_Hide
           in (Ret h, w\<lparr>globalStore := AList.update name h (globalStore w)\<rparr>)))"

text \<open>
  The pointer \<open>GetHide\<close> returned is used again and again: \<open>the_hide\<close> reads the object behind it
  and \<open>put_hide\<close> writes it.
\<close>

definition the_hide :: "NamespacedName \<Rightarrow> 'c world \<Rightarrow> Hide" where
  "the_hide name w = (case map_of (globalStore w) name of Some h \<Rightarrow> h | None \<Rightarrow> Hide_Init new_Hide)"

definition put_hide :: "NamespacedName \<Rightarrow> (Hide \<Rightarrow> Hide) \<Rightarrow> 'c world \<Rightarrow> 'c world" where
  "put_hide name f w = w\<lparr>globalStore := AList.update name (f (the_hide name w)) (globalStore w)\<rparr>"

lemma the_hide_put [simp]:
  "the_hide n (put_hide m f w) = (if n = m then f (the_hide m w) else the_hide n w)"
  by (simp add: the_hide_def put_hide_def update_conv')

lemma the_hide_GetHide [simp]: "the_hide n (snd (GetHide m w)) = the_hide n w"
  by (auto simp: the_hide_def GetHide_def update_conv' Let_def split: option.splits)

lemma GetHide_returns: "fst (GetHide n w) = Ret (the_hide n w)"
  by (simp add: the_hide_def GetHide_def Let_def split: option.splits)

end
