(* ===== verification/Controller.thy ===== *)
theory Controller
  imports World
begin

text \<open>
  controllers/aom_controller.go with the API object of api/v1: what one reconciliation does to the
  shared state. The API server is a parameter. Each \<open>range\<close> over a map has its own number in the
  iteration oracle, which is given anew to each reconciliation. The loop variables whose address is
  stored are cells of the stores \<open>metric_vars\<close> and \<open>model_vars\<close>: one cell for each run of the
  loop statement, assigned by every iteration, as in Go 1.19.
\<close>

section \<open>The API object\<close>

record StatusCollector =
  sc_Name :: string
  sc_Unit :: string
  Expression :: string

record AOMSpec =
  spec_ScaleTargetRef :: CrossVersionObjectReference
  MinReplicas :: int32
  MaxReplicas :: int32
  CollectorAddress :: string
  ScrapeInterval :: int
  Metrics :: "(string, Metric) gomap"
  Models :: "(string, Model list) gomap"
  spec_Interval :: int

record AOM =
  aom_name :: NamespacedName
  Generation :: int
  Spec :: AOMSpec
  StatusCollectors :: "StatusCollector list"
  StatusGeneration :: int

record 'c env =
  env_k8s :: "'c k8s_libs"
  env_prom :: prom_libs
  Status_Update :: "AOM \<Rightarrow> gerr option"

section \<open>Primitive steps\<close>

definition store_in ::
  "(Hide \<Rightarrow> addr ConcurrentMap) \<Rightarrow> ((addr ConcurrentMap \<Rightarrow> addr ConcurrentMap) \<Rightarrow> Hide \<Rightarrow> Hide) \<Rightarrow>
   NamespacedName \<Rightarrow> string \<Rightarrow> addr \<Rightarrow> ('c world, unit) act" where
  "store_in get upd name key a w =
     (case cm_Store (get (the_hide name w)) key a of
        Ret m \<Rightarrow> (Ret (), put_hide name (upd (\<lambda>_. m)) w)
      | Err e \<Rightarrow> (Err e, w)
      | Panic p \<Rightarrow> (Panic p, w))"

definition delete_in ::
  "((addr ConcurrentMap \<Rightarrow> addr ConcurrentMap) \<Rightarrow> Hide \<Rightarrow> Hide) \<Rightarrow> NamespacedName \<Rightarrow> string \<Rightarrow> ('c world, unit) act" where
  "delete_in upd name key = modify (put_hide name (upd (\<lambda>m. cm_Delete m key)))"

definition zero_Metric :: Metric where
  "zero_Metric =
     \<lparr>scaleDownConf = \<lparr>Threshold = [], Duration = 0\<rparr>, Target = [], Weight = 0, Name = [], Unit = [], Query = []\<rparr>"

definition zero_Model :: Model where
  "zero_Model = \<lparr>Type = [], NeedTrain = False, UpdateInterval = 0, Attr = None\<rparr>"

definition new_metric_var :: "('c world, addr) act" where
  "new_metric_var w = (let (a, vs) = alloc zero_Metric (metric_vars w) in (Ret a, w\<lparr>metric_vars := vs\<rparr>))"

definition new_model_var :: "('c world, addr) act" where
  "new_model_var w = (let (a, vs) = alloc zero_Model (model_vars w) in (Ret a, w\<lparr>model_vars := vs\<rparr>))"

definition set_metric_var :: "addr \<Rightarrow> Metric \<Rightarrow> 'c world \<Rightarrow> 'c world" where
  "set_metric_var a m w = w\<lparr>metric_vars := assign a m (metric_vars w)\<rparr>"

definition set_model_var :: "addr \<Rightarrow> Model \<Rightarrow> 'c world \<Rightarrow> 'c world" where
  "set_model_var a m w = w\<lparr>model_vars := assign a m (model_vars w)\<rparr>"

section \<open>Metrics\<close>

definition add_metric :: "NamespacedName \<Rightarrow> addr \<Rightarrow> Metric \<Rightarrow> ('c world, unit) act" where
  "add_metric name a metric w =
     (let w = set_metric_var a metric w
      in case cm_Load (MetricMap (the_hide name w)) (NoModelKey metric) of
           Ret _ \<Rightarrow> (Ret (), w)
         | _ \<Rightarrow> store_in MetricMap MetricMap_update name (NoModelKey metric) a w)"

text \<open>The change loop leaves the function at the first metric that has not changed.\<close>

fun change_metrics :: "NamespacedName \<Rightarrow> addr \<Rightarrow> Metric list \<Rightarrow> ('c world, unit) act" where
  "change_metrics name b [] w = (Ret (), w)"
| "change_metrics name b (metric # rest) w =
     (let w = set_metric_var b metric w
      in case cm_Load (MetricMap (the_hide name w)) (NoModelKey metric) of
           Err e \<Rightarrow> (Err e, w)
         | Panic p \<Rightarrow> (Panic p, w)
         | Ret old \<Rightarrow>
             (case deref (metric_vars w) old of
                None \<Rightarrow> (Panic NilDereference, w)
              | Some m \<Rightarrow>
                  if m = metric then (Ret (), w)
                  else bind_act (store_in MetricMap MetricMap_update name (NoModelKey metric) b)
                         (\<lambda>_. change_metrics name b rest) w))"

definition spec_metrics :: "iter \<Rightarrow> nat \<Rightarrow> AOMSpec \<Rightarrow> Metric list" where
  "spec_metrics it n spec = List.map snd (entries it n (Metrics spec))"

definition metric_keys :: "AOMSpec \<Rightarrow> string set" where
  "metric_keys spec = NoModelKey ` snd ` set (Metrics spec)"

definition handleMetrics :: "iter \<Rightarrow> NamespacedName \<Rightarrow> AOMSpec \<Rightarrow> ('c world, unit) act" where
  "handleMetrics it name spec =
     bind_act (GetHide name) (\<lambda>_.
     bind_act new_metric_var (\<lambda>a.
     bind_act (each_act (add_metric name a) (spec_metrics it 1 spec)) (\<lambda>_.
     bind_act (read_act (\<lambda>w. it 2 (keys (cm_data (MetricMap (the_hide name w)))))) (\<lambda>ks.
     bind_act (each_act (\<lambda>nmk. if nmk \<in> metric_keys spec then return_act ()
                                else delete_in MetricMap_update name nmk) ks) (\<lambda>_.
     bind_act new_metric_var (\<lambda>b.
       change_metrics name b (spec_metrics it 3 spec)))))))"

section \<open>Models\<close>

text \<open>
  The loops carry the two maps the function fills: the keys the spec asks for, and the models that
  have changed.
\<close>

type_synonym model_maps = "string list \<times> (string, Model) gomap"

definition handle_model ::
  "NamespacedName \<Rightarrow> addr \<Rightarrow> Metric \<Rightarrow> Model \<Rightarrow> model_maps \<Rightarrow> ('c world, model_maps) act" where
  "handle_model name b metric model maps w =
     (let w = set_model_var b model w;
          wmk = WithModelKey metric (Type model);
          (tempMap, changeMap) = maps;
          tempMap = List.insert wmk tempMap
      in case cm_Load (ModelMap (the_hide name w)) wmk of
           Ret old \<Rightarrow>
             (case deref (model_vars w) old of
                None \<Rightarrow> (Panic NilDereference, w)
              | Some m \<Rightarrow>
                  if Model_DeepEqual m model then (Ret (tempMap, changeMap), w)
                  else bind_act (store_in ModelMap ModelMap_update name wmk b)
                         (\<lambda>_. return_act (tempMap, AList.update wmk model changeMap)) w)
         | _ \<Rightarrow> bind_act (store_in ModelMap ModelMap_update name wmk b)
                  (\<lambda>_. return_act (tempMap, changeMap)) w)"

definition handle_metric_models ::
  "NamespacedName \<Rightarrow> AOMSpec \<Rightarrow> string \<times> Model list \<Rightarrow> model_maps \<Rightarrow> ('c world, model_maps) act" where
  "handle_metric_models name spec entry maps =
     (let (specKey, models) = entry
      in case map_of (Metrics spec) specKey of
           None \<Rightarrow> lift_go (\<lambda>_. Err (NewError ''orphan model''))
         | Some metric \<Rightarrow>
             bind_act new_model_var (\<lambda>b. fold_act (handle_model name b metric) models maps))"

definition handleModels :: "iter \<Rightarrow> NamespacedName \<Rightarrow> AOMSpec \<Rightarrow> ('c world, (string, Model) gomap) act" where
  "handleModels it name spec =
     bind_act (GetHide name) (\<lambda>_.
     bind_act (fold_act (handle_metric_models name spec) (entries it 4 (Models spec)) ([], [])) (\<lambda>(tempMap, changeMap).
     bind_act (read_act (\<lambda>w. it 5 (keys (cm_data (ModelMap (the_hide name w)))))) (\<lambda>ks.
     bind_act (each_act (\<lambda>wmk. if wmk \<in> set tempMap then return_act ()
                                else delete_in ModelMap_update name wmk) ks) (\<lambda>_.
       return_act changeMap))))"

section \<open>Collectors\<close>

definition close_channel :: "addr \<Rightarrow> ('c world, unit) act" where
  "close_channel c w =
     (case deref (channels w) c of
        None \<Rightarrow> (Panic CloseOfNilChannel, w)
      | Some True \<Rightarrow> (Panic CloseOfClosedChannel, w)
      | Some False \<Rightarrow> (Ret (), w\<lparr>channels := assign c True (channels w)\<rparr>))"

definition stop_collector :: "NamespacedName \<Rightarrow> string \<Rightarrow> ('c world, unit) act" where
  "stop_collector name v w =
     (case map_of (CollectorMap (the_hide name w)) v of
        None \<Rightarrow> (Panic CloseOfNilChannel, w)
      | Some c \<Rightarrow> bind_act (close_channel c) (\<lambda>_. delete_in CollectorWorkerMap_update name v) w)"

definition start_collector :: "NamespacedName \<Rightarrow> AOMSpec \<Rightarrow> Metric \<Rightarrow> ('c world, unit) act" where
  "start_collector name spec m w =
     (case pCollector w of
        None \<Rightarrow> (Panic NilDereference, w)
      | Some p \<Rightarrow>
          (let p = AddCustomMetrics m p; w = w\<lparr>pCollector := Some p\<rparr>
           in case CreateWorker m p of
                Err e \<Rightarrow> (Err e, w)
              | Panic x \<Rightarrow> (Panic x, w)
              | Ret worker \<Rightarrow>
                  (let (c, cs) = alloc (PromWorker worker) (collectors w);
                       (stopC, chs) = alloc False (channels w);
                       w = w\<lparr>collectors := cs, channels := chs\<rparr>
                   in bind_act (store_in CollectorWorkerMap CollectorWorkerMap_update name (NoModelKey m) c)
                        (\<lambda>_. modify (\<lambda>w.
                           (put_hide name (CollectorMap_update (AList.update (NoModelKey m) stopC)) w)
                             \<lparr>goroutines := goroutines w @ [StartWorkerLoop name c stopC (ScrapeInterval spec)]\<rparr>)) w)))"

definition status_collector :: "Metric \<Rightarrow> StatusCollector" where
  "status_collector m = \<lparr>sc_Name = Name m, sc_Unit = Unit m, Expression = Query m\<rparr>"

text \<open>The result is the list the function writes into the status of the instance.\<close>

definition handleCollector :: "iter \<Rightarrow> NamespacedName \<Rightarrow> AOMSpec \<Rightarrow> ('c world, StatusCollector list) act" where
  "handleCollector it name spec =
     bind_act (GetHide name) (\<lambda>_.
     bind_act (read_act (\<lambda>w. filter (\<lambda>m. NoModelKey m \<notin> set (keys (CollectorMap (the_hide name w))))
                               (spec_metrics it 6 spec))) (\<lambda>toAdd.
     bind_act (read_act (\<lambda>w. filter (\<lambda>k. k \<notin> metric_keys spec)
                               (it 7 (keys (CollectorMap (the_hide name w)))))) (\<lambda>toDelete.
     bind_act (each_act (stop_collector name) toDelete) (\<lambda>_.
     bind_act (each_act (start_collector name spec) toAdd) (\<lambda>_.
       return_act (List.map status_collector (spec_metrics it 9 spec)))))))"

section \<open>Predictors\<close>

text \<open>The pairs of a metric and one of its models, in the order the spec's map is visited.\<close>

definition spec_pairs :: "iter \<Rightarrow> nat \<Rightarrow> AOMSpec \<Rightarrow> (Model \<times> Metric) list go" where
  "spec_pairs it n spec =
     fold_go (\<lambda>(key, models) acc.
         case map_of (Metrics spec) key of
           None \<Rightarrow> Err (NewError ''not found metric'')
         | Some metric \<Rightarrow> Ret (acc @ List.map (\<lambda>model. (model, metric)) models))
       (entries it n (Models spec)) []"

definition pair_key :: "Model \<times> Metric \<Rightarrow> string" where
  "pair_key mm = WithModelKey (snd mm) (Type (fst mm))"

definition attr_map :: "Model \<Rightarrow> (string, string) gomap" where
  "attr_map m = (case Attr m of None \<Rightarrow> [] | Some a \<Rightarrow> a)"

definition make_predictor :: "NamespacedName \<Rightarrow> string \<Rightarrow> string \<Rightarrow> Model \<Rightarrow> ('c world, unit) act" where
  "make_predictor name nmk wmk model w =
     (case cm_Load (CollectorWorkerMap (the_hide name w)) nmk of
        Err e \<Rightarrow> (Err e, w)
      | Panic p \<Rightarrow> (Panic p, w)
      | Ret collect \<Rightarrow>
          (case deref (collectors w) collect of
             None \<Rightarrow> (Panic NilDereference, w)
           | Some c \<Rightarrow>
               (case NewPredictor \<lparr>param_WithModelKey = wmk, param_MetricCollector = collect,
                                   param_Model = attr_map model\<rparr> c of
                  (Err e, c') \<Rightarrow> (Err e, w\<lparr>collectors := assign collect c' (collectors w)\<rparr>)
                | (Panic p, c') \<Rightarrow> (Panic p, w\<lparr>collectors := assign collect c' (collectors w)\<rparr>)
                | (Ret pred, c') \<Rightarrow>
                    (let (a, ps) = alloc pred (predictors w);
                         w = w\<lparr>collectors := assign collect c' (collectors w), predictors := ps\<rparr>
                     in store_in PredictorMap PredictorMap_update name wmk a w))))"

definition handlePredictor ::
  "iter \<Rightarrow> NamespacedName \<Rightarrow> AOMSpec \<Rightarrow> (string, Model) gomap \<Rightarrow> ('c world, unit) act" where
  "handlePredictor it name spec changeMap =
     bind_act (GetHide name) (\<lambda>_.
     bind_act (lift_go (\<lambda>w. map_go (filter (\<lambda>mm. pair_key mm \<notin> set (keys (cm_data (PredictorMap (the_hide name w))))))
                              (spec_pairs it 10 spec))) (\<lambda>toAdd.
     bind_act (lift_go (\<lambda>_. spec_pairs it 11 spec)) (\<lambda>wanted.
     bind_act (read_act (\<lambda>w. filter (\<lambda>k. k \<notin> pair_key ` set wanted)
                               (it 12 (keys (cm_data (PredictorMap (the_hide name w))))))) (\<lambda>toDelete.
     bind_act (each_act (delete_in PredictorMap_update name) toDelete) (\<lambda>_.
     bind_act (each_act (\<lambda>mm. make_predictor name (NoModelKey (snd mm)) (pair_key mm) (fst mm)) toAdd) (\<lambda>_.
       each_act (\<lambda>(wmk, model). make_predictor name (GetNoModelKey wmk) wmk model) (entries it 13 changeMap)))))))"

section \<open>The handler\<close>

definition handleUpdate :: "iter \<Rightarrow> NamespacedName \<Rightarrow> AOMSpec \<Rightarrow> ('c world, StatusCollector list) act" where
  "handleUpdate it name spec =
     bind_act (handleMetrics it name spec) (\<lambda>_.
     bind_act (handleModels it name spec) (\<lambda>changes.
     bind_act (handleCollector it name spec) (\<lambda>cs.
     bind_act (handlePredictor it name spec changes) (\<lambda>_.
       return_act cs))))"

definition init_promc :: "'c world \<Rightarrow> 'c world" where
  "init_promc w = (if promcDone w then w else w\<lparr>promcDone := True, pCollector := Some Promc_New\<rparr>)"

definition set_server_address :: "prom_libs \<Rightarrow> string \<Rightarrow> ('c world, unit) act" where
  "set_server_address lib url w =
     (case pCollector w of
        None \<Rightarrow> (Panic NilDereference, w)
      | Some p \<Rightarrow> (let (r, p') = SetServerAddress lib url p in (r, w\<lparr>pCollector := Some p'\<rparr>)))"

text \<open>scheduler.GetOrNew: an instance's scheduler keeps the interval it was first made with.\<close>

definition GetOrNew :: "NamespacedName \<Rightarrow> int \<Rightarrow> ('c world, Scheduler) act" where
  "GetOrNew name interval w =
     (case map_of (schedulers w) name of
        Some s \<Rightarrow> (Ret s, w)
      | None \<Rightarrow>
          (let s = \<lparr>sched_Name = name, Interval = interval\<rparr>
           in (Ret s, w\<lparr>schedulers := AList.update name s (schedulers w)\<rparr>)))"

definition seconds :: "int \<Rightarrow> int" where
  "seconds n = wrap64 (1000000000 * n)"

definition handleCreate :: "'c env \<Rightarrow> iter \<Rightarrow> NamespacedName \<Rightarrow> AOMSpec \<Rightarrow> ('c world, StatusCollector list) act" where
  "handleCreate env it name spec =
     bind_act (modify init_promc) (\<lambda>_.
     bind_act (set_server_address (env_prom env) (CollectorAddress spec)) (\<lambda>_.
     bind_act (GetHide name) (\<lambda>_.
     bind_act (modify (put_hide name (hide_Scaler_update (\<lambda>_. Some
                (Scaler_New (nn_Namespace name) (spec_ScaleTargetRef spec) (MaxReplicas spec) (MinReplicas spec)))))) (\<lambda>_.
     bind_act (handleUpdate it name spec) (\<lambda>cs.
     bind_act (GetOrNew name (seconds (spec_Interval spec))) (\<lambda>schdlr.
     bind_act (modify (\<lambda>w. w\<lparr>goroutines := goroutines w @ [RunLoop schdlr]\<rparr>)) (\<lambda>_.
       return_act cs)))))))"

definition new_client :: "'c env \<Rightarrow> ('c world, unit) act" where
  "new_client env w = (let (r, st) = NewClient (env_k8s env) (k8s_client w) in (r, w\<lparr>k8s_client := st\<rparr>))"

definition handleDelete :: "('c world, unit) act" where
  "handleDelete = return_act ()"

text \<open>
  \<open>Handle\<close>. A generation below the status's, which the API server does not hand out, skips both
  branches and stores the status.
\<close>

definition Handle :: "'c env \<Rightarrow> iter \<Rightarrow> AOM \<Rightarrow> ('c world, unit) act" where
  "Handle env it inst =
     (if StatusGeneration inst = Generation inst then return_act ()
      else
        bind_act (new_client env) (\<lambda>_.
        bind_act
          (if StatusGeneration inst = 0 then handleCreate env it (aom_name inst) (Spec inst)
           else if StatusGeneration inst < Generation inst then handleUpdate it (aom_name inst) (Spec inst)
           else return_act (StatusCollectors inst)) (\<lambda>cs.
          lift_go (\<lambda>_. case Status_Update env (inst\<lparr>StatusCollectors := cs, StatusGeneration := Generation inst\<rparr>) of
                         None \<Rightarrow> Ret () | Some e \<Rightarrow> Err e))))"

text \<open>What the client finds for a request, and what a reconciliation asks of the manager.\<close>

datatype get_result = Found AOM | NotFound | GetError gerr

record Result =
  RequeueAfter :: int
  reconcile_error :: "gerr option"

definition retry :: "gerr \<Rightarrow> Result" where
  "retry e = \<lparr>RequeueAfter = seconds 10, reconcile_error = Some e\<rparr>"

definition Reconcile :: "'c env \<Rightarrow> iter \<Rightarrow> get_result \<Rightarrow> ('c world, Result) act" where
  "Reconcile env it found w =
     (case found of
        NotFound \<Rightarrow> (Ret \<lparr>RequeueAfter = 0, reconcile_error = None\<rparr>, w)
      | GetError e \<Rightarrow> (Ret (retry e), w)
      | Found inst \<Rightarrow>
          (case Handle env it inst w of
             (Ret _, w') \<Rightarrow> (Ret \<lparr>RequeueAfter = 0, reconcile_error = None\<rparr>, w')
           | (Err e, w') \<Rightarrow> (Ret (retry e), w')
           | (Panic p, w') \<Rightarrow> (Panic p, w')))"

end
