(* ===== verification/ControllerSpec.thy ===== *)
theory ControllerSpec
  imports Controller
begin

text \<open>
  What a reconciliation keeps true of the shared state, and which keys it leaves in the maps: the
  lemmas are triples for the steps, the handlers and the whole of \<open>Handle\<close>.
\<close>

section \<open>Well-formed states\<close>

text \<open>
  Every pointer in a map points to an object, a predictor is filed under its own key, and so is a
  collector.
\<close>

definition entries_ok :: "(string \<Rightarrow> addr \<Rightarrow> bool) \<Rightarrow> addr ConcurrentMap \<Rightarrow> bool" where
  "entries_ok P m \<longleftrightarrow> cm_ready m \<and> (\<forall>k a. map_of (cm_data m) k = Some a \<longrightarrow> P k a)"

definition metric_cell :: "'c world \<Rightarrow> string \<Rightarrow> addr \<Rightarrow> bool" where
  "metric_cell w k a \<longleftrightarrow> a < length (metric_vars w)"

definition model_cell :: "'c world \<Rightarrow> string \<Rightarrow> addr \<Rightarrow> bool" where
  "model_cell w k a \<longleftrightarrow> a < length (model_vars w)"

definition pred_cell :: "'c world \<Rightarrow> string \<Rightarrow> addr \<Rightarrow> bool" where
  "pred_cell w k a \<longleftrightarrow> a < length (predictors w) \<and> pred_Key (predictors w ! a) = k \<and>
     pred_collector (predictors w ! a) < length (collectors w)"

definition worker_cell :: "'c world \<Rightarrow> string \<Rightarrow> addr \<Rightarrow> bool" where
  "worker_cell w k a \<longleftrightarrow> a < length (collectors w) \<and> mc_NoModelKey (collectors w ! a) = k"

definition channel_cell :: "'c world \<Rightarrow> string \<Rightarrow> addr \<Rightarrow> bool" where
  "channel_cell w k a \<longleftrightarrow> a < length (channels w)"

lemmas cells = metric_cell_def model_cell_def pred_cell_def worker_cell_def channel_cell_def

definition hide_ok :: "'c world \<Rightarrow> Hide \<Rightarrow> bool" where
  "hide_ok w h \<longleftrightarrow>
     entries_ok (metric_cell w) (MetricMap h) \<and> entries_ok (model_cell w) (ModelMap h) \<and>
     entries_ok (pred_cell w) (PredictorMap h) \<and> entries_ok (worker_cell w) (CollectorWorkerMap h) \<and>
     wf_map (CollectorMap h) \<and> (\<forall>k c. map_of (CollectorMap h) k = Some c \<longrightarrow> channel_cell w k c)"

definition world_ok :: "'c world \<Rightarrow> bool" where
  "world_ok w \<longleftrightarrow> (\<forall>name. hide_ok w (the_hide name w))"

text \<open>Objects are only added, and predictors and collectors keep their identity.\<close>

definition grows :: "'c world \<Rightarrow> 'c world \<Rightarrow> bool" where
  "grows w w' \<longleftrightarrow>
     (\<forall>k a. (metric_cell w k a \<longrightarrow> metric_cell w' k a) \<and> (model_cell w k a \<longrightarrow> model_cell w' k a) \<and>
            (pred_cell w k a \<longrightarrow> pred_cell w' k a) \<and> (worker_cell w k a \<longrightarrow> worker_cell w' k a) \<and>
            (channel_cell w k a \<longrightarrow> channel_cell w' k a))"

lemma entries_ok_mono: "entries_ok P m \<Longrightarrow> (\<And>k a. P k a \<Longrightarrow> Q k a) \<Longrightarrow> entries_ok Q m"
  by (auto simp: entries_ok_def)

lemma entries_ok_New: "entries_ok P (cm_init \<lparr>Data = None\<rparr>)"
  by (simp add: entries_ok_def cm_init_def cm_ready_def cm_data_def)

lemma entries_ok_Store:
  "entries_ok P m \<Longrightarrow> P k a \<Longrightarrow> entries_ok P (m\<lparr>Data := Some (AList.update k a (cm_data m))\<rparr>)"
  by (auto simp: entries_ok_def cm_ready_def cm_data_def update_conv')

lemma entries_ok_Delete: "entries_ok P m \<Longrightarrow> entries_ok P (cm_Delete m k)"
  by (auto simp: entries_ok_def cm_ready_def cm_data_def cm_Delete_def delete_conv' split: if_splits)

lemma entries_ok_ready [simp]: "entries_ok P m \<Longrightarrow> cm_ready m"
  by (simp add: entries_ok_def)

lemma entries_ok_Load: "entries_ok P m \<Longrightarrow> cm_Load m k = Ret a \<Longrightarrow> P k a"
  by (simp add: entries_ok_def cm_Load_Ret_iff)

lemma hide_ok_mono: "hide_ok w h \<Longrightarrow> grows w w' \<Longrightarrow> hide_ok w' h"
  unfolding hide_ok_def grows_def by (auto intro: entries_ok_mono)

lemma hide_ok_Init: "hide_ok w (Hide_Init new_Hide)"
  by (simp add: hide_ok_def Hide_Init_def new_Hide_def entries_ok_New)

lemma hide_ok_ready [simp]:
  "hide_ok w h \<Longrightarrow> cm_ready (MetricMap h)" "hide_ok w h \<Longrightarrow> cm_ready (ModelMap h)"
  "hide_ok w h \<Longrightarrow> cm_ready (PredictorMap h)" "hide_ok w h \<Longrightarrow> cm_ready (CollectorWorkerMap h)"
  by (auto simp: hide_ok_def entries_ok_def)

lemma world_okD: "world_ok w \<Longrightarrow> hide_ok w (the_hide name w)"
  by (simp add: world_ok_def)

lemma grows_refl [simp]: "grows w w"
  by (simp add: grows_def)

lemma world_ok_grow:
  "world_ok w \<Longrightarrow> grows w w' \<Longrightarrow> globalStore w' = globalStore w \<Longrightarrow> world_ok w'"
  by (auto simp: world_ok_def the_hide_def intro: hide_ok_mono)

lemma cells_put [simp]:
  "metric_cell (put_hide n f w) = metric_cell w" "model_cell (put_hide n f w) = model_cell w"
  "pred_cell (put_hide n f w) = pred_cell w" "worker_cell (put_hide n f w) = worker_cell w"
  "channel_cell (put_hide n f w) = channel_cell w"
  by (simp_all add: fun_eq_iff cells put_hide_def)

lemma hide_ok_put [simp]: "hide_ok (put_hide n f w) h = hide_ok w h"
  by (simp add: hide_ok_def)

lemma world_ok_put:
  "world_ok w \<Longrightarrow> hide_ok w (f (the_hide name w)) \<Longrightarrow> world_ok (put_hide name f w)"
  by (simp add: world_ok_def)

lemma put_hide_stores [simp]:
  "metric_vars (put_hide n f w) = metric_vars w" "model_vars (put_hide n f w) = model_vars w"
  "collectors (put_hide n f w) = collectors w" "predictors (put_hide n f w) = predictors w"
  "channels (put_hide n f w) = channels w" "pCollector (put_hide n f w) = pCollector w"
  "promcDone (put_hide n f w) = promcDone w" "schedulers (put_hide n f w) = schedulers w"
  "goroutines (put_hide n f w) = goroutines w" "k8s_client (put_hide n f w) = k8s_client w"
  by (simp_all add: put_hide_def)

section \<open>Keys\<close>

record shape =
  metric_dom :: "string set"
  model_dom :: "string set"
  pred_dom :: "string set"
  worker_dom :: "string set"
  coll_dom :: "string set"

definition cm_dom :: "'v ConcurrentMap \<Rightarrow> string set" where
  "cm_dom m = dom (map_of (cm_data m))"

definition shape_hide :: "Hide \<Rightarrow> shape" where
  "shape_hide h =
     \<lparr>metric_dom = cm_dom (MetricMap h), model_dom = cm_dom (ModelMap h), pred_dom = cm_dom (PredictorMap h),
      worker_dom = cm_dom (CollectorWorkerMap h), coll_dom = dom (map_of (CollectorMap h))\<rparr>"

lemma shape_hide_simps [simp]:
  "metric_dom (shape_hide h) = cm_dom (MetricMap h)" "model_dom (shape_hide h) = cm_dom (ModelMap h)"
  "pred_dom (shape_hide h) = cm_dom (PredictorMap h)" "worker_dom (shape_hide h) = cm_dom (CollectorWorkerMap h)"
  "coll_dom (shape_hide h) = dom (map_of (CollectorMap h))"
  "shape_hide (h\<lparr>MetricMap := m\<rparr>) = (shape_hide h)\<lparr>metric_dom := cm_dom m\<rparr>"
  "shape_hide (h\<lparr>ModelMap := m\<rparr>) = (shape_hide h)\<lparr>model_dom := cm_dom m\<rparr>"
  "shape_hide (h\<lparr>PredictorMap := m\<rparr>) = (shape_hide h)\<lparr>pred_dom := cm_dom m\<rparr>"
  "shape_hide (h\<lparr>CollectorWorkerMap := m\<rparr>) = (shape_hide h)\<lparr>worker_dom := cm_dom m\<rparr>"
  "shape_hide (h\<lparr>CollectorMap := c\<rparr>) = (shape_hide h)\<lparr>coll_dom := dom (map_of c)\<rparr>"
  "shape_hide (h\<lparr>hide_Scaler := x\<rparr>) = shape_hide h"
  by (simp_all add: shape_hide_def)

lemma hide_ok_updates:
  "hide_ok w h \<Longrightarrow> entries_ok (metric_cell w) m \<Longrightarrow> hide_ok w (h\<lparr>MetricMap := m\<rparr>)"
  "hide_ok w h \<Longrightarrow> entries_ok (model_cell w) m \<Longrightarrow> hide_ok w (h\<lparr>ModelMap := m\<rparr>)"
  "hide_ok w h \<Longrightarrow> entries_ok (pred_cell w) m \<Longrightarrow> hide_ok w (h\<lparr>PredictorMap := m\<rparr>)"
  "hide_ok w h \<Longrightarrow> entries_ok (worker_cell w) m \<Longrightarrow> hide_ok w (h\<lparr>CollectorWorkerMap := m\<rparr>)"
  "hide_ok w h \<Longrightarrow> hide_ok w (h\<lparr>hide_Scaler := x\<rparr>)"
  by (simp_all add: hide_ok_def)

lemma hide_ok_entries:
  "hide_ok w h \<Longrightarrow> entries_ok (metric_cell w) (MetricMap h)"
  "hide_ok w h \<Longrightarrow> entries_ok (model_cell w) (ModelMap h)"
  "hide_ok w h \<Longrightarrow> entries_ok (pred_cell w) (PredictorMap h)"
  "hide_ok w h \<Longrightarrow> entries_ok (worker_cell w) (CollectorWorkerMap h)"
  by (simp_all add: hide_ok_def)

lemmas entry_updates = entries_ok_Store entries_ok_Delete hide_ok_entries

definition shape_of :: "NamespacedName \<Rightarrow> 'c world \<Rightarrow> shape" where
  "shape_of name w = shape_hide (the_hide name w)"

definition in_shape :: "NamespacedName \<Rightarrow> shape \<Rightarrow> 'c world \<Rightarrow> bool" where
  "in_shape name s w \<longleftrightarrow> world_ok w \<and> shape_of name w = s"

lemma cm_dom_Store [simp]: "cm_dom (m\<lparr>Data := Some (AList.update k a (cm_data m))\<rparr>) = insert k (cm_dom m)"
  by (simp add: cm_dom_def cm_data_def update_conv')

lemma cm_dom_Delete [simp]: "cm_dom (cm_Delete m k) = cm_dom m - {k}"
  by (auto simp: cm_dom_def cm_data_def cm_Delete_def delete_conv' split: option.splits if_splits)

lemma cm_Load_dom: "(\<exists>a. cm_Load m k = Ret a) \<longleftrightarrow> k \<in> cm_dom m"
  by (auto simp: cm_dom_def cm_Load_Ret_iff)

lemma shape_grow:
  "globalStore w' = globalStore w \<Longrightarrow> shape_of name w' = shape_of name w"
  by (simp add: shape_of_def the_hide_def)

lemma in_shapeD: "in_shape name s w \<Longrightarrow> hide_ok w (the_hide name w) \<and> s = shape_hide (the_hide name w)"
  by (auto simp: in_shape_def shape_of_def world_ok_def)

lemma in_shape_put:
  "in_shape name s w \<Longrightarrow> hide_ok w (f (the_hide name w)) \<Longrightarrow> shape_hide (f (the_hide name w)) = s' \<Longrightarrow>
    in_shape name s' (put_hide name f w)"
  by (auto simp: in_shape_def shape_of_def intro!: world_ok_put)

lemma in_shape_grow: "in_shape name s w \<Longrightarrow> grows w w' \<Longrightarrow> globalStore w' = globalStore w \<Longrightarrow> in_shape name s w'"
  using world_ok_grow shape_grow unfolding in_shape_def by blast

section \<open>Metrics\<close>

lemma GetHide_triple:
  assumes "in_shape name s w"
  shows "in_shape name s (snd (GetHide name w)) \<and> fst (GetHide name w) = Ret (the_hide name w)"
proof -
  have stores: "grows w (snd (GetHide name w))"
    by (auto simp: grows_def cells GetHide_def Let_def split: option.splits)
  then have "hide_ok (snd (GetHide name w)) (the_hide n (snd (GetHide name w)))" for n
    using assms hide_ok_mono by (auto simp: in_shape_def world_ok_def)
  moreover have "shape_of name (snd (GetHide name w)) = shape_of name w" by (simp add: shape_of_def)
  ultimately show ?thesis
    using assms by (simp add: in_shape_def world_ok_def GetHide_returns)
qed

lemma triple_GetHide: "triple (in_shape name s) (GetHide name) (\<lambda>_. in_shape name s) E"
  using GetHide_triple unfolding triple_def by (fastforce split: prod.splits go.splits)

lemma store_in_Ret:
  "cm_ready (get (the_hide name w)) \<Longrightarrow>
    store_in get upd name k a w =
      (Ret (), put_hide name (upd (\<lambda>_. get (the_hide name w)\<lparr>Data := Some (AList.update k a (cm_data (get (the_hide name w))))\<rparr>)) w)"
  by (simp add: store_in_def cm_Store_Ret)

lemma new_metric_var_triple:
  "triple (in_shape name s) new_metric_var (\<lambda>a w. in_shape name s w \<and> a < length (metric_vars w)) E"
proof (rule tripleI)
  fix w a t assume "in_shape name s w" and "new_metric_var w = (Ret a, t)"
  moreover then have "t = w\<lparr>metric_vars := metric_vars w @ [zero_Metric]\<rparr>" "a = length (metric_vars w)"
    by (auto simp: new_metric_var_def alloc_def)
  moreover have "grows w (w\<lparr>metric_vars := metric_vars w @ [zero_Metric]\<rparr>)" by (simp add: grows_def cells)
  ultimately show "in_shape name s t \<and> a < length (metric_vars t)"
    using in_shape_grow [of name s w t] by auto
qed (auto simp: new_metric_var_def alloc_def)

lemma in_shape_set_metric_var:
  "in_shape name s w \<Longrightarrow> in_shape name s (set_metric_var a m w) \<and>
     length (metric_vars (set_metric_var a m w)) = length (metric_vars w)"
  by (auto intro: in_shape_grow simp: grows_def cells set_metric_var_def)

lemma store_metric:
  assumes "in_shape name s w" and "a < length (metric_vars w)"
  shows "\<exists>t. store_in MetricMap MetricMap_update name k a w = (Ret (), t) \<and>
    in_shape name (s\<lparr>metric_dom := insert k (metric_dom s)\<rparr>) t \<and> length (metric_vars t) = length (metric_vars w)"
  using in_shapeD [OF assms(1)] assms(2)
  by (auto simp: store_in_Ret metric_cell_def
      intro!: in_shape_put [OF assms(1)] hide_ok_updates entry_updates)

lemma add_metric_triple:
  "triple (\<lambda>w. in_shape name s w \<and> a < length (metric_vars w)) (add_metric name a m)
     (\<lambda>_ w. in_shape name (s\<lparr>metric_dom := insert (NoModelKey m) (metric_dom s)\<rparr>) w \<and> a < length (metric_vars w)) E"
proof (rule triple_returns)
  fix w assume w: "in_shape name s w \<and> a < length (metric_vars w)"
  let ?w = "set_metric_var a m w"
  have w': "in_shape name s ?w" "a < length (metric_vars ?w)" using w in_shape_set_metric_var [of name s w] by auto
  have dom: "cm_dom (MetricMap (the_hide name ?w)) = metric_dom s"
    using w'(1) by (auto simp: in_shape_def shape_of_def)
  show "\<exists>u t. add_metric name a m w = (Ret u, t) \<and>
      in_shape name (s\<lparr>metric_dom := insert (NoModelKey m) (metric_dom s)\<rparr>) t \<and> a < length (metric_vars t)"
  proof (cases "NoModelKey m \<in> metric_dom s")
    case True
    then obtain b where "cm_Load (MetricMap (the_hide name ?w)) (NoModelKey m) = Ret b"
      using cm_Load_dom dom by metis
    with True w' show ?thesis by (simp add: add_metric_def insert_absorb)
  next
    case False
    then have "\<not> (\<exists>b. cm_Load (MetricMap (the_hide name ?w)) (NoModelKey m) = Ret b)"
      using cm_Load_dom dom by metis
    with store_metric [OF w', of "NoModelKey m"] w'(2) show ?thesis
      by (auto simp: add_metric_def Let_def split: go.splits)
  qed
qed

lemma delete_in_triple:
  fixes name :: NamespacedName and E :: "'c world \<Rightarrow> bool"
  assumes "\<And>w :: 'c world. in_shape name s w \<Longrightarrow> hide_ok w (upd (\<lambda>m. cm_Delete m k) (the_hide name w))"
    and "\<And>w :: 'c world. in_shape name s w \<Longrightarrow> shape_hide (upd (\<lambda>m. cm_Delete m k) (the_hide name w)) = s'"
  shows "triple (in_shape name s) (delete_in upd name k) (\<lambda>_. in_shape name s') E"
  unfolding delete_in_def using assms by (intro triple_modify in_shape_put) auto

lemma hide_ok_Delete:
  assumes "hide_ok w h"
  shows "hide_ok w (MetricMap_update (\<lambda>m. cm_Delete m k) h)" "hide_ok w (ModelMap_update (\<lambda>m. cm_Delete m k) h)"
    "hide_ok w (PredictorMap_update (\<lambda>m. cm_Delete m k) h)"
    "hide_ok w (CollectorWorkerMap_update (\<lambda>m. cm_Delete m k) h)"
  using assms by (simp_all add: hide_ok_def entries_ok_Delete)

lemma delete_triples:
  "triple (in_shape name s) (delete_in MetricMap_update name k) (\<lambda>_. in_shape name (s\<lparr>metric_dom := metric_dom s - {k}\<rparr>)) E"
  "triple (in_shape name s) (delete_in ModelMap_update name k) (\<lambda>_. in_shape name (s\<lparr>model_dom := model_dom s - {k}\<rparr>)) E"
  "triple (in_shape name s) (delete_in PredictorMap_update name k) (\<lambda>_. in_shape name (s\<lparr>pred_dom := pred_dom s - {k}\<rparr>)) E"
  "triple (in_shape name s) (delete_in CollectorWorkerMap_update name k) (\<lambda>_. in_shape name (s\<lparr>worker_dom := worker_dom s - {k}\<rparr>)) E"
  by (rule delete_in_triple; drule in_shapeD; simp add: hide_ok_Delete shape_hide_def)+

lemma change_metrics_triple:
  "NoModelKey ` set ms \<subseteq> metric_dom s \<Longrightarrow>
   in_shape name s w \<Longrightarrow> b < length (metric_vars w) \<Longrightarrow>
   \<exists>t. change_metrics name b ms w = (Ret (), t) \<and> in_shape name s t"
proof (induction ms arbitrary: w)
  case Nil
  then show ?case by simp
next
  case (Cons m ms)
    let ?w = "set_metric_var b m w"
    have w': "in_shape name s ?w" "b < length (metric_vars ?w)" using Cons.prems(2,3) in_shape_set_metric_var [of name s w] by auto
    have ok: "entries_ok (metric_cell ?w) (MetricMap (the_hide name ?w))"
      using w'(1) world_okD [of ?w name] by (simp add: in_shape_def hide_ok_def)
    obtain old where old: "cm_Load (MetricMap (the_hide name ?w)) (NoModelKey m) = Ret old"
      using Cons.prems(1) w'(1) cm_Load_dom [of "MetricMap (the_hide name ?w)"]
      by (fastforce simp: in_shape_def shape_of_def)
    with ok have "old < length (metric_vars ?w)" using entries_ok_Load by (fastforce simp: metric_cell_def)
    then have d: "deref (metric_vars ?w) old = Some (metric_vars ?w ! old)" by (simp add: deref_def)
    have same: "s\<lparr>metric_dom := insert (NoModelKey m) (metric_dom s)\<rparr> = s"
      using Cons.prems(1) by (simp add: insert_absorb)
    obtain t where t: "store_in MetricMap MetricMap_update name (NoModelKey m) b ?w = (Ret (), t)"
      "in_shape name s t" "b < length (metric_vars t)"
      using store_metric [OF w', of "NoModelKey m"] w'(2) same by auto
    have "\<exists>u. change_metrics name b ms t = (Ret (), u) \<and> in_shape name s u"
      using Cons.IH Cons.prems(1) t(2,3) by simp
    then show ?case using t w' old d by (auto simp: Let_def)
qed

text \<open>A loop that deletes the keys of a map a test does not keep.\<close>

lemma delete_loop_triple:
  assumes "\<And>s k. triple (in_shape name s) (delete_in upd name k) (\<lambda>_. in_shape name (put (get s - {k}) s)) E"
    and "\<And>s A B. put A (put B s) = put A s" and "\<And>s A. get (put A s) = A" and "\<And>s. put (get s) s = s"
  shows "triple (in_shape name s)
     (each_act (\<lambda>k. if keep k then return_act () else delete_in upd name k) ks)
     (\<lambda>_. in_shape name (put (get s - {k \<in> set ks. \<not> keep k}) s)) E"
proof -
  let ?I = "\<lambda>done. in_shape name (put (get s - {k \<in> set done. \<not> keep k}) s)"
  have "triple (?I []) (each_act (\<lambda>k. if keep k then return_act () else delete_in upd name k) ks) (\<lambda>_. ?I ks) E"
  proof (rule triple_each, rule triple_if)
    fix "done" k
    assume k: "keep k"
    then have "{x \<in> set (done @ [k]). \<not> keep x} = {x \<in> set done. \<not> keep x}" by auto
    then show "triple (?I done) (return_act ()) (\<lambda>_. ?I (done @ [k])) E" by (intro triple_return) simp
  next
    fix "done" k
    assume k: "\<not> keep k"
    then have "get s - {x \<in> set done. \<not> keep x} - {k} = get s - {x \<in> set (done @ [k]). \<not> keep x}" by auto
    then show "triple (?I done) (delete_in upd name k) (\<lambda>_. ?I (done @ [k])) E"
      using assms(1) [of "put (get s - {x \<in> set done. \<not> keep x}) s" k] by (simp add: assms(2,3))
  qed
  then show ?thesis by (simp add: assms(4))
qed

lemmas delete_loops =
  delete_loop_triple [where get = metric_dom and put = "\<lambda>A. metric_dom_update (\<lambda>_. A)", OF delete_triples(1), simplified]
  delete_loop_triple [where get = model_dom and put = "\<lambda>A. model_dom_update (\<lambda>_. A)", OF delete_triples(2), simplified]

lemma map_doms:
  "in_shape name s w \<Longrightarrow> dom (map_of (cm_data (MetricMap (the_hide name w)))) = metric_dom s"
  "in_shape name s w \<Longrightarrow> dom (map_of (cm_data (ModelMap (the_hide name w)))) = model_dom s"
  "in_shape name s w \<Longrightarrow> dom (map_of (cm_data (PredictorMap (the_hide name w)))) = pred_dom s"
  "in_shape name s w \<Longrightarrow> dom (map_of (cm_data (CollectorWorkerMap (the_hide name w)))) = worker_dom s"
  "in_shape name s w \<Longrightarrow> dom (map_of (CollectorMap (the_hide name w))) = coll_dom s"
  by (drule in_shapeD, simp add: cm_dom_def)+

text \<open>Reading the keys and deleting those a test does not keep.\<close>

lemma prune_triple:
  assumes "\<And>w. in_shape name s w \<Longrightarrow> set (read w) = get s"
    and "\<And>ks. triple (in_shape name s) (each_act (f :: string \<Rightarrow> ('c world, unit) act) ks)
           (\<lambda>_. in_shape name (put (get s - {k \<in> set ks. k \<notin> K}) s)) E"
    and "K \<subseteq> get s"
  shows "triple (in_shape name s) (bind_act (read_act read) (each_act f)) (\<lambda>_. in_shape name (put K s)) E"
proof (rule triple_bind)
  show "triple (in_shape name s) (read_act read) (\<lambda>ks w. in_shape name s w \<and> set ks = get s) E"
    using assms(1) by (intro triple_read) simp
  fix ks :: "string list"
  show "triple (\<lambda>w. in_shape name s w \<and> set ks = get s) (each_act f ks) (\<lambda>_. in_shape name (put K s)) E"
  proof (rule triple_known)
    assume "set ks = get s"
    then have "get s - {k \<in> set ks. k \<notin> K} = K" using assms(3) by auto
    then show "triple (in_shape name s) (each_act f ks) (\<lambda>_. in_shape name (put K s)) E" using assms(2) [of ks] by simp
  qed
qed

lemma prune_metrics:
  assumes "fair_iter it" and "K \<subseteq> metric_dom s"
  shows "triple (in_shape name s)
     (bind_act (read_act (\<lambda>w. it n (keys (cm_data (MetricMap (the_hide name w))))))
       (each_act (\<lambda>k. if k \<in> K then return_act () else delete_in MetricMap_update name k)))
     (\<lambda>_. in_shape name (s\<lparr>metric_dom := K\<rparr>)) E"
  using assms delete_loops(1)
  by (intro prune_triple [where get = metric_dom and put = "\<lambda>A. metric_dom_update (\<lambda>_. A)"]) (simp_all add: map_doms)

lemma prune_models:
  assumes "fair_iter it" and "K \<subseteq> model_dom s"
  shows "triple (in_shape name s)
     (bind_act (read_act (\<lambda>w. it n (keys (cm_data (ModelMap (the_hide name w))))))
       (each_act (\<lambda>k. if k \<in> K then return_act () else delete_in ModelMap_update name k)))
     (\<lambda>_. in_shape name (s\<lparr>model_dom := K\<rparr>)) E"
  using assms delete_loops(2)
  by (intro prune_triple [where get = model_dom and put = "\<lambda>A. model_dom_update (\<lambda>_. A)"]) (simp_all add: map_doms)

definition wf_spec :: "AOMSpec \<Rightarrow> bool" where
  "wf_spec spec \<longleftrightarrow> wf_map (Metrics spec) \<and> wf_map (Models spec)"

lemma set_spec_metrics: "fair_iter it \<Longrightarrow> wf_spec spec \<Longrightarrow> set (spec_metrics it n spec) = snd ` set (Metrics spec)"
  by (simp add: spec_metrics_def wf_spec_def)

lemma keys_spec_metrics:
  "fair_iter it \<Longrightarrow> wf_spec spec \<Longrightarrow> NoModelKey ` set (spec_metrics it n spec) = metric_keys spec"
  by (simp add: set_spec_metrics metric_keys_def)

lemma add_metrics_triple:
  "triple (\<lambda>w. in_shape name s w \<and> a < length (metric_vars w)) (each_act (add_metric name a) ms)
     (\<lambda>_. in_shape name (s\<lparr>metric_dom := metric_dom s \<union> NoModelKey ` set ms\<rparr>)) E"
proof -
  let ?I = "\<lambda>ms w. in_shape name (s\<lparr>metric_dom := metric_dom s \<union> NoModelKey ` set ms\<rparr>) w \<and> a < length (metric_vars w)"
  have "triple (?I []) (each_act (add_metric name a) ms) (\<lambda>_. ?I ms) E"
  proof (rule triple_each)
    fix "done" m
    show "triple (?I done) (add_metric name a m) (\<lambda>_. ?I (done @ [m])) E"
      using add_metric_triple [of name "s\<lparr>metric_dom := metric_dom s \<union> NoModelKey ` set done\<rparr>" a m E] by simp
  qed
  then show ?thesis by (rule triple_weaken) auto
qed

lemma handleMetrics_triple:
  assumes it: "fair_iter it" and spec: "wf_spec spec"
  shows "triple (in_shape name s) (handleMetrics it name spec)
           (\<lambda>_. in_shape name (s\<lparr>metric_dom := metric_keys spec\<rparr>)) E"
  unfolding handleMetrics_def
proof (rule triple_bind [OF triple_GetHide], rule triple_bind [OF new_metric_var_triple],
    rule triple_bind [OF add_metrics_triple], rule triple_bind_bind)
  let ?s = "s\<lparr>metric_dom := metric_dom s \<union> NoModelKey ` set (spec_metrics it 1 spec)\<rparr>"
  show "triple (in_shape name ?s)
     (bind_act (read_act (\<lambda>w. it 2 (keys (cm_data (MetricMap (the_hide name w))))))
       (each_act (\<lambda>nmk. if nmk \<in> metric_keys spec then return_act () else delete_in MetricMap_update name nmk)))
     (\<lambda>_. in_shape name (s\<lparr>metric_dom := metric_keys spec\<rparr>)) E"
    using prune_metrics [OF it, of "metric_keys spec" ?s name 2 E] by (simp add: keys_spec_metrics [OF it spec])
next
  let ?s = "s\<lparr>metric_dom := metric_keys spec\<rparr>"
  have "triple (\<lambda>w. in_shape name ?s w \<and> b < length (metric_vars w))
      (change_metrics name b (spec_metrics it 3 spec)) (\<lambda>_. in_shape name ?s) E" for b
    using change_metrics_triple [of "spec_metrics it 3 spec" ?s name]
    by (intro triple_returns) (auto simp: keys_spec_metrics [OF it spec])
  then show "triple (in_shape name ?s) (bind_act new_metric_var (\<lambda>b. change_metrics name b (spec_metrics it 3 spec)))
      (\<lambda>_. in_shape name ?s) E"
    by (rule triple_bind [OF new_metric_var_triple])
qed

section \<open>Models\<close>

definition entry_pairs :: "AOMSpec \<Rightarrow> string \<times> Model list \<Rightarrow> (string \<times> Model) set" where
  "entry_pairs spec e =
     (case map_of (Metrics spec) (fst e) of
        None \<Rightarrow> {} | Some m \<Rightarrow> (\<lambda>model. (WithModelKey m (Type model), model)) ` set (snd e))"

text \<open>The models the spec asks for, with their keys.\<close>

definition model_pairs :: "AOMSpec \<Rightarrow> (string \<times> Model) set" where
  "model_pairs spec = \<Union> (entry_pairs spec ` set (Models spec))"

definition model_keys :: "AOMSpec \<Rightarrow> string set" where
  "model_keys spec = fst ` model_pairs spec"

definition no_orphan :: "AOMSpec \<Rightarrow> bool" where
  "no_orphan spec \<longleftrightarrow> fst ` set (Models spec) \<subseteq> fst ` set (Metrics spec)"

text \<open>The two maps the loops fill, after the models \<open>P\<close>.\<close>

definition maps_at :: "NamespacedName \<Rightarrow> shape \<Rightarrow> (string \<times> Model) set \<Rightarrow> model_maps \<Rightarrow> 'c world \<Rightarrow> bool" where
  "maps_at name s P maps w \<longleftrightarrow>
     in_shape name (s\<lparr>model_dom := model_dom s \<union> fst ` P\<rparr>) w \<and> set (fst maps) = fst ` P \<and>
     wf_map (snd maps) \<and> set (snd maps) \<subseteq> P"

lemma new_model_var_triple:
  "triple (maps_at name s P maps) new_model_var (\<lambda>a w. maps_at name s P maps w \<and> a < length (model_vars w)) E"
proof (rule triple_returns)
  fix w assume w: "maps_at name s P maps w"
  let ?t = "w\<lparr>model_vars := model_vars w @ [zero_Model]\<rparr>"
  have "grows w ?t" by (simp add: grows_def cells)
  then have "maps_at name s P maps ?t" using w in_shape_grow [of name _ w ?t] by (simp add: maps_at_def)
  then show "\<exists>a t. new_model_var w = (Ret a, t) \<and> maps_at name s P maps t \<and> a < length (model_vars t)"
    by (auto simp: new_model_var_def alloc_def)
qed

lemma in_shape_set_model_var:
  "in_shape name s w \<Longrightarrow> in_shape name s (set_model_var a m w) \<and>
     length (model_vars (set_model_var a m w)) = length (model_vars w)"
  by (auto intro: in_shape_grow simp: grows_def cells set_model_var_def)

lemma store_model:
  assumes "in_shape name s w" and "a < length (model_vars w)"
  shows "\<exists>t. store_in ModelMap ModelMap_update name k a w = (Ret (), t) \<and>
    in_shape name (s\<lparr>model_dom := insert k (model_dom s)\<rparr>) t \<and> length (model_vars t) = length (model_vars w)"
  using in_shapeD [OF assms(1)] assms(2)
  by (auto simp: store_in_Ret model_cell_def
      intro!: in_shape_put [OF assms(1)] hide_ok_updates entry_updates)

lemma dom_update_alist [simp]: "dom (map_of (AList.update k v m)) = insert k (dom (map_of m))"
  by (simp add: update_conv')

lemma set_update_alist:
  assumes "wf_map m"
  shows "set (AList.update k v m) \<subseteq> insert (k, v) (set m)"
proof
  fix e assume e: "e \<in> set (AList.update k v m)"
  obtain j x where j: "e = (j, x)" by force
  have "distinct (map fst (AList.update k v m))" using assms by (simp add: wf_map_def keys_def distinct_update)
  then have "map_of (AList.update k v m) j = Some x" using e j by simp
  then show "e \<in> insert (k, v) (set m)" using j by (auto simp: update_conv' map_of_SomeD split: if_splits)
qed

lemma handle_model_returns:
  assumes "maps_at name s P maps w" and "b < length (model_vars w)"
  shows "\<exists>maps' t. handle_model name b metric model maps w = (Ret maps', t) \<and>
    maps_at name s (insert (WithModelKey metric (Type model), model) P) maps' t \<and> b < length (model_vars t)"
proof -
  let ?k = "WithModelKey metric (Type model)" and ?s = "s\<lparr>model_dom := model_dom s \<union> fst ` P\<rparr>"
  let ?w = "set_model_var b model w" and ?P = "insert (WithModelKey metric (Type model), model) P"
  obtain tmp ch where m: "maps = (tmp, ch)" by force
  have w': "in_shape name ?s ?w" "b < length (model_vars ?w)"
    using assms in_shape_set_model_var [of name ?s w] by (auto simp: maps_at_def)
  have ch: "set tmp = fst ` P" "wf_map ch" "set ch \<subseteq> P" using assms(1) m by (auto simp: maps_at_def)
  obtain t where t: "store_in ModelMap ModelMap_update name ?k b ?w = (Ret (), t)"
    "in_shape name (s\<lparr>model_dom := model_dom s \<union> fst ` ?P\<rparr>) t" "b < length (model_vars t)"
    using store_model [OF w', of ?k] w'(2) by auto
  have stored: "maps_at name s ?P (List.insert ?k tmp, c) t" if "wf_map c" "set c \<subseteq> ?P" for c
    using t(2) ch that by (simp add: maps_at_def)
  show ?thesis
  proof (cases "cm_Load (ModelMap (the_hide name ?w)) ?k")
    case (Ret old)
    then have "model_cell ?w ?k old"
      using in_shapeD [OF w'(1)] hide_ok_entries(2) entries_ok_Load by blast
    then obtain d where d: "deref (model_vars ?w) old = Some d" by (simp add: deref_def model_cell_def)
    have "?k \<in> model_dom s \<union> fst ` P"
      using Ret map_doms(2) [OF w'(1)] cm_Load_dom [of "ModelMap (the_hide name ?w)" ?k] by (auto simp: cm_dom_def)
    then have "in_shape name (s\<lparr>model_dom := model_dom s \<union> fst ` ?P\<rparr>) ?w"
      using w'(1) by (simp add: insert_absorb)
    then have "maps_at name s ?P (List.insert ?k tmp, ch) ?w" using ch by (auto simp: maps_at_def)
    moreover have "maps_at name s ?P (List.insert ?k tmp, AList.update ?k model ch) t"
      using ch(2,3) set_update_alist [OF ch(2), of ?k model] by (intro stored wf_map_update) blast+
    ultimately show ?thesis using m Ret d t w'(2) by (auto simp: handle_model_def Let_def)
  next
    case (Err e)
    then show ?thesis using m t stored [OF ch(2)] ch(3) by (auto simp: handle_model_def Let_def)
  next
    case (Panic p)
    then show ?thesis using m t stored [OF ch(2)] ch(3) by (auto simp: handle_model_def Let_def)
  qed
qed

lemma handle_models_triple:
  "triple (\<lambda>w. maps_at name s P maps w \<and> b < length (model_vars w)) (fold_act (handle_model name b metric) ms maps)
     (maps_at name s (P \<union> (\<lambda>model. (WithModelKey metric (Type model), model)) ` set ms)) E"
proof -
  let ?I = "\<lambda>(ms :: Model list) maps w. maps_at name s (P \<union> (\<lambda>model. (WithModelKey metric (Type model), model)) ` set ms) maps w \<and> b < length (model_vars w)"
  have "triple (?I [] maps) (fold_act (handle_model name b metric) ms maps) (?I ms) E"
  proof (rule triple_fold [where I = ?I], rule triple_returns)
    fix "done" x a w assume "?I done a w"
    then show "\<exists>a' t. handle_model name b metric x a w = (Ret a', t) \<and> ?I (done @ [x]) a' t"
      using handle_model_returns [of name s "P \<union> (\<lambda>model. (WithModelKey metric (Type model), model)) ` set done" a w b metric x]
      by simp
  qed
  then show ?thesis by (rule triple_weaken) auto
qed

lemma handle_metric_models_triple:
  assumes "map_of (Metrics spec) (fst e) = None \<Longrightarrow> (\<And>w. world_ok w \<Longrightarrow> E w)"
  shows "triple (maps_at name s P maps) (handle_metric_models name spec e maps) (maps_at name s (P \<union> entry_pairs spec e)) E"
proof (cases "map_of (Metrics spec) (fst e)")
  case None
  then have "E w" if "maps_at name s P maps w" for w
    using assms that by (simp add: maps_at_def in_shape_def)
  with None show ?thesis
    by (auto simp: handle_metric_models_def triple_def split: prod.splits)
next
  case (Some m)
  have "triple (maps_at name s P maps) (bind_act new_model_var (\<lambda>b. fold_act (handle_model name b m) (snd e) maps))
     (maps_at name s (P \<union> entry_pairs spec e)) E"
    using handle_models_triple [of name s P maps _ m "snd e"] Some
    by (intro triple_bind [OF new_model_var_triple]) (simp add: entry_pairs_def)
  with Some show ?thesis by (simp add: handle_metric_models_def split_beta)
qed

lemma orphan_entry:
  "wf_spec spec \<Longrightarrow> no_orphan spec \<Longrightarrow> e \<in> set (Models spec) \<Longrightarrow> map_of (Metrics spec) (fst e) \<noteq> None"
  by (auto simp: no_orphan_def map_of_eq_None_iff image_subset_iff)

lemma models_loop:
  assumes it: "fair_iter it" and spec: "wf_spec spec"
    and E: "\<not> no_orphan spec \<Longrightarrow> (\<And>w. world_ok w \<Longrightarrow> E w)"
  shows "triple (in_shape name s) (fold_act (handle_metric_models name spec) (entries it n (Models spec)) ([], []))
     (maps_at name s (model_pairs spec)) E"
proof -
  let ?es = "entries it n (Models spec)"
  let ?I = "\<lambda>es. maps_at name s (\<Union> (entry_pairs spec ` set es))"
  have es: "set ?es = set (Models spec)" using it spec by (simp add: wf_spec_def)
  have "triple (?I [] ([], [])) (fold_act (handle_metric_models name spec) ?es ([], [])) (?I ?es) E"
  proof (rule triple_fold)
    fix "done" e maps assume "e \<in> set ?es"
    then have "map_of (Metrics spec) (fst e) = None \<Longrightarrow> (\<And>w. world_ok w \<Longrightarrow> E w)"
      using orphan_entry [OF spec] E es by blast
    from handle_metric_models_triple [OF this, where name = name and s = s and maps = maps
        and P = "\<Union> (entry_pairs spec ` set done)"]
    have "triple (?I done maps) (handle_metric_models name spec e maps)
       (maps_at name s (\<Union> (entry_pairs spec ` set done) \<union> entry_pairs spec e)) E" .
    moreover have "\<Union> (entry_pairs spec ` set done) \<union> entry_pairs spec e = \<Union> (entry_pairs spec ` set (done @ [e]))"
      by auto
    ultimately show "triple (?I done maps) (handle_metric_models name spec e maps) (?I (done @ [e])) E" by simp
  qed
  then show ?thesis by (rule triple_weaken) (auto simp: maps_at_def es model_pairs_def)
qed

lemma handleModels_triple:
  assumes it: "fair_iter it" and spec: "wf_spec spec"
    and E: "\<not> no_orphan spec \<Longrightarrow> (\<And>w. world_ok w \<Longrightarrow> E w)"
  shows "triple (in_shape name s) (handleModels it name spec)
     (\<lambda>ch w. in_shape name (s\<lparr>model_dom := model_keys spec\<rparr>) w \<and> wf_map ch \<and> set ch \<subseteq> model_pairs spec) E"
  unfolding handleModels_def
proof (rule triple_bind [OF triple_GetHide], rule triple_bind [OF models_loop [OF it spec E]], assumption+,
    simp only: split_beta, rule triple_bind_bind)
  fix maps :: model_maps
  let ?R = "\<lambda>_ w. in_shape name (s\<lparr>model_dom := model_keys spec\<rparr>) w \<and> wf_map (snd maps) \<and> set (snd maps) \<subseteq> model_pairs spec"
  show "triple (maps_at name s (model_pairs spec) maps)
     (bind_act (read_act (\<lambda>w. it 5 (keys (cm_data (ModelMap (the_hide name w))))))
       (each_act (\<lambda>wmk. if wmk \<in> set (fst maps) then return_act () else delete_in ModelMap_update name wmk))) ?R E"
  proof (cases "set (fst maps) = model_keys spec \<and> wf_map (snd maps) \<and> set (snd maps) \<subseteq> model_pairs spec")
    case True
    let ?s = "s\<lparr>model_dom := model_dom s \<union> model_keys spec\<rparr>"
    have "triple (in_shape name ?s)
       (bind_act (read_act (\<lambda>w. it 5 (keys (cm_data (ModelMap (the_hide name w))))))
         (each_act (\<lambda>wmk. if wmk \<in> model_keys spec then return_act () else delete_in ModelMap_update name wmk)))
       (\<lambda>_. in_shape name (?s\<lparr>model_dom := model_keys spec\<rparr>)) E"
      by (rule prune_models [OF it]) simp
    then show ?thesis unfolding True [THEN conjunct1]
      by (rule triple_weaken) (use True in \<open>simp_all add: maps_at_def model_keys_def\<close>)
  qed (auto simp: maps_at_def triple_def model_keys_def)
  show "triple (?R ()) (return_act (snd maps))
    (\<lambda>ch w. in_shape name (s\<lparr>model_dom := model_keys spec\<rparr>) w \<and> wf_map ch \<and> set ch \<subseteq> model_pairs spec) E"
    by (rule triple_return) simp
qed

end
