(* ===== verification/Frames.thy ===== *)
theory Frames
  imports ControllerSpec
begin

text \<open>
  What the handlers of a reconciliation leave alone, however they end.
\<close>

text \<open>
  The package variables, the scaler of the instance and the hidden state of every other instance.
  Of the Prometheus collector only its existence is kept: workers are registered with it.
\<close>

definition background :: "NamespacedName \<Rightarrow> 'c world \<Rightarrow>
    bool \<times> bool \<times> 'c k8s_state \<times> (NamespacedName \<times> Scheduler) list \<times> Scaler option \<times> (NamespacedName \<Rightarrow> Hide option)" where
  "background name w =
     (promcDone w, pCollector w \<noteq> None, k8s_client w, schedulers w, hide_Scaler (the_hide name w),
      \<lambda>n. if n = name then None else Some (the_hide n w))"

lemma background_eq:
  "promcDone v = promcDone w \<Longrightarrow> (pCollector v = None) = (pCollector w = None) \<Longrightarrow> k8s_client v = k8s_client w \<Longrightarrow>
    schedulers v = schedulers w \<Longrightarrow> globalStore v = globalStore w \<Longrightarrow> background name v = background name w"
  by (simp add: background_def the_hide_def cong: if_cong)

lemma background_put [simp]:
  "(\<And>h. hide_Scaler (f h) = hide_Scaler h) \<Longrightarrow> background name (put_hide name f w) = background name w"
  by (simp add: background_def fun_eq_iff)

text \<open>Together with the stop channels, which only the collectors' handler writes.\<close>

definition stops :: "NamespacedName \<Rightarrow> 'c world \<Rightarrow> (string, addr) gomap \<times> bool store" where
  "stops name w = (CollectorMap (the_hide name w), channels w)"

definition surroundings :: "NamespacedName \<Rightarrow> 'c world \<Rightarrow>
    (bool \<times> bool \<times> 'c k8s_state \<times> (NamespacedName \<times> Scheduler) list \<times> Scaler option \<times> (NamespacedName \<Rightarrow> Hide option)) \<times>
    (string, addr) gomap \<times> bool store" where
  "surroundings name w = (background name w, stops name w)"

lemma keeps_background: "keeps (surroundings name) m \<Longrightarrow> keeps (background name) m"
  and keeps_stops: "keeps (surroundings name) m \<Longrightarrow> keeps (stops name) m"
  by (simp_all add: keeps_def surroundings_def)

lemma surroundings_put [simp]:
  "(\<And>h. hide_Scaler (f h) = hide_Scaler h \<and> CollectorMap (f h) = CollectorMap h) \<Longrightarrow>
    surroundings name (put_hide name f w) = surroundings name w"
  by (simp add: surroundings_def stops_def)

lemma surroundings_vars [simp]:
  "surroundings name (w\<lparr>metric_vars := x1\<rparr>) = surroundings name w"
  "surroundings name (w\<lparr>model_vars := x2\<rparr>) = surroundings name w"
  "surroundings name (w\<lparr>collectors := x3\<rparr>) = surroundings name w"
  "surroundings name (w\<lparr>predictors := x4\<rparr>) = surroundings name w"
  "background name (w\<lparr>channels := x5\<rparr>) = background name w"
  "background name (w\<lparr>goroutines := x6\<rparr>) = background name w"
  by (auto simp: surroundings_def stops_def the_hide_def intro!: background_eq)

lemma surroundings_set_vars [simp]:
  "surroundings name (set_metric_var a m w) = surroundings name w"
  "surroundings name (set_model_var a x w) = surroundings name w"
  by (simp_all add: set_metric_var_def set_model_var_def)

lemma surroundings_GetHide: "keeps (surroundings name) (GetHide name)"
  by (auto simp: keeps_def surroundings_def stops_def background_def fun_eq_iff the_hide_GetHide)
    (simp_all add: GetHide_def Let_def split: option.splits)

lemma surroundings_store:
  "(\<And>f h. hide_Scaler (upd f h) = hide_Scaler h \<and> CollectorMap (upd f h) = CollectorMap h) \<Longrightarrow>
    keeps (surroundings name) (store_in get upd name k a)"
  by (auto simp: keeps_def store_in_def split: go.splits)

lemma surroundings_delete:
  "(\<And>f h. hide_Scaler (upd f h) = hide_Scaler h \<and> CollectorMap (upd f h) = CollectorMap h) \<Longrightarrow>
    keeps (surroundings name) (delete_in upd name k)"
  unfolding delete_in_def by (intro keeps_rules) simp

lemma surroundings_steps [keeps_rules]:
  "keeps (surroundings name) new_metric_var" "keeps (surroundings name) new_model_var"
  "keeps (surroundings name) (store_in get MetricMap_update name k a)"
  "keeps (surroundings name) (store_in get ModelMap_update name k a)"
  "keeps (surroundings name) (store_in get PredictorMap_update name k a)"
  "keeps (surroundings name) (store_in get CollectorWorkerMap_update name k a)"
  "keeps (surroundings name) (delete_in MetricMap_update name k)"
  "keeps (surroundings name) (delete_in ModelMap_update name k)"
  "keeps (surroundings name) (delete_in PredictorMap_update name k)"
  "keeps (surroundings name) (delete_in CollectorWorkerMap_update name k)"
  by (simp_all add: surroundings_store surroundings_delete)
    (auto simp: keeps_def new_metric_var_def new_model_var_def alloc_def)

lemma surroundings_add_metric [keeps_rules]: "keeps (surroundings name) (add_metric name a m)"
  by (auto simp: keeps_def add_metric_def Let_def keeps_snd [OF surroundings_steps(3)] split: go.splits)

lemma surroundings_change [keeps_rules]:
  "keeps (surroundings name) (change_metrics name b ms :: ('c world, unit) act)"
proof (induction ms)
  case (Cons m ms)
  have "keeps (surroundings name) (bind_act (store_in MetricMap MetricMap_update name (NoModelKey m) b)
      (\<lambda>_. change_metrics name b ms) :: ('c world, unit) act)"
    by (rule keeps_bind, rule surroundings_steps, rule Cons)
  from keeps_snd [OF this] show ?case
    by (auto simp: keeps_def Let_def split: go.splits option.splits)
qed (simp add: keeps_def)

lemma surroundings_handle_model [keeps_rules]:
  "keeps (surroundings name) (handle_model name b metric model maps :: ('c world, model_maps) act)"
proof -
  have "keeps (surroundings name) (bind_act (store_in ModelMap ModelMap_update name k b) (\<lambda>_. return_act x) :: ('c world, model_maps) act)"
    for k x
    by (intro keeps_rules)
  from keeps_snd [OF this] show ?thesis
    by (auto simp: keeps_def handle_model_def Let_def split: go.splits option.splits prod.splits)
qed

lemma surroundings_handle_metric_models [keeps_rules]:
  "keeps (surroundings name) (handle_metric_models name spec e maps)"
  unfolding handle_metric_models_def Let_def by (auto split: prod.splits option.splits intro!: keeps_rules)

lemma surroundings_make [keeps_rules]: "keeps (surroundings name) (make_predictor name nmk wmk model :: ('c world, unit) act)"
  by (auto simp: keeps_def make_predictor_def Let_def keeps_snd [OF surroundings_steps(5)] alloc_def
      split: option.splits go.splits prod.splits)

lemma surroundings_handlers:
  "keeps (surroundings name) (handleMetrics it name spec :: ('c world, unit) act)"
  "keeps (surroundings name) (handleModels it name spec :: ('c world, (string, Model) gomap) act)"
  "keeps (surroundings name) (handlePredictor it name spec ch :: ('c world, unit) act)"
  unfolding handleMetrics_def handleModels_def handlePredictor_def
  by (intro keeps_rules surroundings_GetHide; auto split: prod.splits intro!: keeps_rules)+

section \<open>The collectors' handler\<close>

lemma background_GetHide: "keeps (background name) (GetHide name)"
  by (rule keeps_background [OF surroundings_GetHide])

lemma background_close [keeps_rules]: "keeps (background name) (close_channel c)"
  by (auto simp: keeps_def close_channel_def split: option.splits bool.splits)

lemma background_stop [keeps_rules]: "keeps (background name) (stop_collector name v :: ('c world, unit) act)"
proof -
  have "keeps (background name) (bind_act (close_channel c) (\<lambda>_. delete_in CollectorWorkerMap_update name v) :: ('c world, unit) act)" for c
    by (intro keeps_rules keeps_background [OF surroundings_steps(10)])
  from keeps_snd [OF this] show ?thesis by (auto simp: keeps_def stop_collector_def split: option.splits)
qed

lemma background_start [keeps_rules]: "keeps (background name) (start_collector name spec m :: ('c world, unit) act)"
proof -
  have "keeps (background name) (bind_act (store_in CollectorWorkerMap CollectorWorkerMap_update name k c)
      (\<lambda>_. modify (\<lambda>w. (put_hide name (CollectorMap_update f) w)\<lparr>goroutines := goroutines w @ gs\<rparr>)) :: ('c world, unit) act)" for k c f gs
    by (intro keeps_rules keeps_background [OF surroundings_steps(6)]) simp
  moreover have "background name (w\<lparr>pCollector := Some p, collectors := cs, channels := chs\<rparr>) = background name w"
    "background name (w\<lparr>pCollector := Some p\<rparr>) = background name w"
    if "pCollector w \<noteq> None" for p cs chs and w :: "'c world"
    using that by (auto intro!: background_eq)
  ultimately show ?thesis
    by (auto simp: keeps_def start_collector_def Let_def keeps_snd alloc_def split: option.splits go.splits)
qed

lemma background_handlers:
  "keeps (background name) (handleMetrics it name spec :: ('c world, unit) act)"
  "keeps (background name) (handleModels it name spec :: ('c world, (string, Model) gomap) act)"
  "keeps (background name) (handlePredictor it name spec ch :: ('c world, unit) act)"
  "keeps (background name) (handleCollector it name spec :: ('c world, StatusCollector list) act)"
  by (rule keeps_background, rule surroundings_handlers)+
    (unfold handleCollector_def, intro keeps_rules background_GetHide)

lemma background_handleUpdate: "keeps (background name) (handleUpdate it name spec :: ('c world, StatusCollector list) act)"
  unfolding handleUpdate_def by (intro keeps_rules background_handlers)

end
