(* ===== verification/ReconcileSpec.thy ===== *)
theory ReconcileSpec
  imports Frames
begin

text \<open>
  The collectors and predictors a reconciliation starts and stops, and the whole of it: the
  invariant of the shared state, the keys a reconciliation ends with, and when creation succeeds.
\<close>

section \<open>Collectors\<close>

text \<open>With no Prometheus collector made yet, the outcome \<open>E\<close> of a failure must cover any good state.\<close>

definition can_start :: "('c world \<Rightarrow> bool) \<Rightarrow> Promc option \<Rightarrow> bool" where
  "can_start E p \<longleftrightarrow> p = None \<longrightarrow> (\<forall>v. world_ok v \<longrightarrow> E v)"

lemma can_start_background:
  "can_start E (pCollector w) \<longleftrightarrow> (\<lambda>b. fst (snd b) \<or> can_start E None) (background name w)"
  by (auto simp: background_def can_start_def)

lemma triple_can_start:
  assumes "keeps (background name) m" and "triple P m Q E"
  shows "triple (\<lambda>w. P w \<and> can_start E (pCollector w)) m (\<lambda>a w. Q a w \<and> can_start E (pCollector w)) E"
  unfolding can_start_background [where name = name] by (rule triple_frame [OF assms])

lemma close_channel_triple:
  assumes "\<And>w. world_ok w \<Longrightarrow> E w"
  shows "triple (in_shape name s) (close_channel c) (\<lambda>_. in_shape name s) E"
proof (rule tripleI)
  fix w u t assume w: "in_shape name s w" and c: "close_channel c w = (Ret u, t)"
  then have "grows w t \<and> globalStore t = globalStore w"
    by (auto simp: close_channel_def grows_def cells split: option.splits bool.splits if_splits)
  with w show "in_shape name s t" using in_shape_grow by blast
qed (use assms in \<open>auto simp: close_channel_def in_shape_def split: option.splits bool.splits if_splits\<close>)

lemma stop_collector_triple:
  assumes "\<And>w. world_ok w \<Longrightarrow> E w"
  shows "triple (in_shape name s) (stop_collector name v)
    (\<lambda>_. in_shape name (s\<lparr>worker_dom := worker_dom s - {v}\<rparr>)) E"
proof -
  have "triple (in_shape name s) (bind_act (close_channel c) (\<lambda>_. delete_in CollectorWorkerMap_update name v))
     (\<lambda>_. in_shape name (s\<lparr>worker_dom := worker_dom s - {v}\<rparr>)) E" for c
    by (rule triple_bind [OF close_channel_triple [OF assms] delete_triples(4)])
  then show ?thesis
    using assms by (auto simp: triple_def stop_collector_def in_shape_def split: option.splits)
qed

lemma create_added:
  "\<exists>w. CreateWorker m (AddCustomMetrics m p) = Ret w \<and> worker_NoModelKey w = NoModelKey m"
  by (simp add: CreateWorker_def AddCustomMetrics_def update_conv' worker_NoModelKey_def NoModelKey_def)

lemma start_collector_returns:
  assumes w: "in_shape name s w" and p: "pCollector w = Some p"
  shows "\<exists>t. start_collector name spec m w = (Ret (), t) \<and>
    in_shape name (s\<lparr>worker_dom := insert (NoModelKey m) (worker_dom s), coll_dom := insert (NoModelKey m) (coll_dom s)\<rparr>) t \<and>
    pCollector t \<noteq> None"
proof -
  obtain wk where wk: "CreateWorker m (AddCustomMetrics m p) = Ret wk" "worker_NoModelKey wk = NoModelKey m"
    using create_added by blast
  let ?k = "NoModelKey m" and ?c = "length (collectors w)" and ?h = "the_hide name w"
  let ?w = "w\<lparr>pCollector := Some (AddCustomMetrics m p), collectors := collectors w @ [PromWorker wk],
              channels := channels w @ [False]\<rparr>"
  have grow: "grows w ?w" by (auto simp: grows_def cells nth_append)
  have w': "in_shape name s ?w" by (rule in_shape_grow [OF w grow]) simp
  have h: "the_hide name ?w = ?h" by (simp add: the_hide_def)
  have ok: "hide_ok ?w ?h" using in_shapeD [OF w'] h by simp
  let ?m = "(CollectorWorkerMap ?h)\<lparr>Data := Some (AList.update ?k ?c (cm_data (CollectorWorkerMap ?h)))\<rparr>"
  let ?f = "\<lambda>hd. hd\<lparr>CollectorWorkerMap := ?m\<rparr>" and ?g = "CollectorMap_update (AList.update ?k (length (channels w)))"
  have cell: "worker_cell ?w ?k ?c" using wk(2) by (simp add: worker_cell_def)
  let ?v = "put_hide name ?f ?w"
  have m: "entries_ok (worker_cell ?w) ?m" by (rule entries_ok_Store [OF hide_ok_entries(4) [OF ok] cell])
  have v1: "in_shape name (s\<lparr>worker_dom := insert ?k (worker_dom s)\<rparr>) ?v"
  proof (rule in_shape_put [OF w'])
    show "hide_ok ?w (?f (the_hide name ?w))" unfolding h by (rule hide_ok_updates(4) [OF ok m])
    show "shape_hide (?f (the_hide name ?w)) = s\<lparr>worker_dom := insert ?k (worker_dom s)\<rparr>"
      unfolding in_shapeD [OF w', THEN conjunct2] h by (simp add: shape_hide_def)
  qed
  have "hide_ok ?v (?g (the_hide name ?v))"
    using ok m by (auto simp: h hide_ok_def update_conv' channel_cell_def)
  moreover have "shape_hide (?g (the_hide name ?v)) =
      s\<lparr>worker_dom := insert ?k (worker_dom s), coll_dom := insert ?k (coll_dom s)\<rparr>"
    unfolding in_shapeD [OF w', THEN conjunct2] h by (simp add: h shape_hide_def)
  ultimately have v: "in_shape name (s\<lparr>worker_dom := insert ?k (worker_dom s), coll_dom := insert ?k (coll_dom s)\<rparr>)
      (put_hide name ?g ?v)"
    by (rule in_shape_put [OF v1])
  let ?t = "(put_hide name ?g ?v)\<lparr>goroutines := goroutines ?v @ [StartWorkerLoop name ?c (length (channels w)) (ScrapeInterval spec)]\<rparr>"
  have "in_shape name (s\<lparr>worker_dom := insert ?k (worker_dom s), coll_dom := insert ?k (coll_dom s)\<rparr>) ?t"
    by (rule in_shape_grow [OF v]) (simp_all add: grows_def cells)
  moreover have "start_collector name spec m w = (Ret (), ?t)"
    using p wk(1) ok h by (simp add: start_collector_def alloc_def Let_def store_in_Ret bind_act_def)
  ultimately show ?thesis by simp
qed

lemma start_collector_triple:
  fixes E :: "'c world \<Rightarrow> bool"
  shows "triple (\<lambda>w. in_shape name s w \<and> can_start E (pCollector w)) (start_collector name spec m)
    (\<lambda>_ w. in_shape name (s\<lparr>worker_dom := insert (NoModelKey m) (worker_dom s),
                             coll_dom := insert (NoModelKey m) (coll_dom s)\<rparr>) w \<and> can_start E (pCollector w)) E"
  unfolding triple_def
proof (intro allI impI)
  fix w :: "'c world" assume w: "in_shape name s w \<and> can_start E (pCollector w)"
  show "case start_collector name spec m w of (Ret a, t) \<Rightarrow>
        in_shape name (s\<lparr>worker_dom := insert (NoModelKey m) (worker_dom s),
          coll_dom := insert (NoModelKey m) (coll_dom s)\<rparr>) t \<and> can_start E (pCollector t)
      | (_, t) \<Rightarrow> E t"
  proof (cases "pCollector w")
    case None
    then show ?thesis using w by (simp add: start_collector_def can_start_def in_shape_def)
  next
    case (Some p)
    then show ?thesis using start_collector_returns [of name s w p spec m] w by (auto simp: can_start_def)
  qed
qed

lemma stop_loop:
  assumes "ks \<noteq> [] \<Longrightarrow> (\<And>w. world_ok w \<Longrightarrow> E w)"
  shows "triple (in_shape name s) (each_act (stop_collector name) ks)
    (\<lambda>_. in_shape name (s\<lparr>worker_dom := worker_dom s - set ks\<rparr>)) E"
proof -
  let ?I = "\<lambda>ks. in_shape name (s\<lparr>worker_dom := worker_dom s - set ks\<rparr>)"
  have "triple (?I []) (each_act (stop_collector name) ks) (\<lambda>_. ?I ks) E"
  proof (rule triple_each [where I = ?I])
    fix "done" k assume "k \<in> set ks"
    then have "\<And>w. world_ok w \<Longrightarrow> E w" using assms by (cases ks) auto
    from stop_collector_triple [OF this, where name = name and v = k and s = "s\<lparr>worker_dom := worker_dom s - set done\<rparr>"]
    have "triple (?I done) (stop_collector name k) (\<lambda>_. in_shape name (s\<lparr>worker_dom := worker_dom s - set done - {k}\<rparr>)) E"
      by simp
    moreover have "worker_dom s - set done - {k} = worker_dom s - set (done @ [k])" by auto
    ultimately show "triple (?I done) (stop_collector name k) (\<lambda>_. ?I (done @ [k])) E" by simp
  qed
  then show ?thesis by simp
qed

lemma start_loop:
  "triple (\<lambda>w. in_shape name s w \<and> can_start E (pCollector w)) (each_act (start_collector name spec) ms)
    (\<lambda>_. in_shape name (s\<lparr>worker_dom := worker_dom s \<union> NoModelKey ` set ms,
                            coll_dom := coll_dom s \<union> NoModelKey ` set ms\<rparr>)) E"
proof -
  let ?s = "\<lambda>ms :: Metric list. s\<lparr>worker_dom := worker_dom s \<union> NoModelKey ` set ms, coll_dom := coll_dom s \<union> NoModelKey ` set ms\<rparr>"
  let ?I = "\<lambda>ms w. in_shape name (?s ms) w \<and> can_start E (pCollector w)"
  have "triple (?I []) (each_act (start_collector name spec) ms) (\<lambda>_. ?I ms) E"
  proof (rule triple_each [where I = ?I])
    fix "done" m
    show "triple (?I done) (start_collector name spec m) (\<lambda>_. ?I (done @ [m])) E"
      using start_collector_triple [of name "?s done" E spec m] by simp
  qed
  then show ?thesis by (rule triple_weaken) auto
qed

text \<open>The keys of the workers after the collectors of a spec have been handled.\<close>

definition workers_after :: "shape \<Rightarrow> AOMSpec \<Rightarrow> string set" where
  "workers_after s spec =
     (worker_dom s - (coll_dom s - metric_keys spec)) \<union> (metric_keys spec - coll_dom s)"

lemma stop_and_start:
  fixes E :: "'c world \<Rightarrow> bool"
  assumes E: "\<not> coll_dom s \<subseteq> metric_keys spec \<Longrightarrow> (\<And>w. world_ok w \<Longrightarrow> E w)"
    and ms: "NoModelKey ` set ms = metric_keys spec - coll_dom s" and ks: "set ks = coll_dom s - metric_keys spec"
  shows "triple (\<lambda>w. in_shape name s w \<and> can_start E (pCollector w))
    (bind_act (each_act (stop_collector name) ks) (\<lambda>_.
     bind_act (each_act (start_collector name spec) ms) (\<lambda>_. return_act cs)))
    (\<lambda>_. in_shape name (s\<lparr>worker_dom := workers_after s spec, coll_dom := coll_dom s \<union> metric_keys spec\<rparr>)) E"
proof -
  have "ks \<noteq> [] \<Longrightarrow> (\<And>w. world_ok w \<Longrightarrow> E w)" using ks E by (cases ks) auto
  note stop = triple_can_start [OF keeps_each [OF background_stop] stop_loop [OF this]]
  have "workers_after s spec = worker_dom s - set ks \<union> NoModelKey ` set ms"
    "coll_dom s \<union> metric_keys spec = coll_dom s \<union> NoModelKey ` set ms"
    using ks ms by (auto simp: workers_after_def)
  then show ?thesis
    using start_loop [of name "s\<lparr>worker_dom := worker_dom s - set ks\<rparr>" E spec ms]
    by (intro triple_bind [OF stop] triple_bind [where R = "\<lambda>_. in_shape name (s\<lparr>worker_dom := workers_after s spec,
           coll_dom := coll_dom s \<union> metric_keys spec\<rparr>)"] triple_return) simp_all
qed

lemma handleCollector_triple:
  assumes it: "fair_iter it" and spec: "wf_spec spec"
    and E: "\<not> coll_dom s \<subseteq> metric_keys spec \<Longrightarrow> (\<And>w. world_ok w \<Longrightarrow> E w)"
  shows "triple (\<lambda>w. in_shape name s w \<and> can_start E (pCollector w)) (handleCollector it name spec)
    (\<lambda>_. in_shape name (s\<lparr>worker_dom := workers_after s spec, coll_dom := coll_dom s \<union> metric_keys spec\<rparr>)) E"
  unfolding handleCollector_def
proof (rule triple_bind [OF triple_can_start [OF background_GetHide triple_GetHide]], rule triple_bind)
  let ?P = "\<lambda>w. in_shape name s w \<and> can_start E (pCollector w)"
  let ?A = "\<lambda>ms. NoModelKey ` set ms = metric_keys spec - coll_dom s"
  show "triple ?P (read_act (\<lambda>w. filter (\<lambda>m. NoModelKey m \<notin> set (keys (CollectorMap (the_hide name w)))) (spec_metrics it 6 spec)))
     (\<lambda>ms w. ?P w \<and> ?A ms) E"
  proof (rule triple_read)
    fix w assume w: "?P w"
    then have "set (keys (CollectorMap (the_hide name w))) = coll_dom s" by (simp add: map_doms(5))
    moreover have "NoModelKey ` {m \<in> set (spec_metrics it 6 spec). NoModelKey m \<notin> coll_dom s} = metric_keys spec - coll_dom s"
      unfolding keys_spec_metrics [OF it spec, of 6, symmetric] by auto
    ultimately show "?P w \<and> ?A (filter (\<lambda>m. NoModelKey m \<notin> set (keys (CollectorMap (the_hide name w)))) (spec_metrics it 6 spec))"
      using w by (simp only: set_filter)
  qed
  fix ms
  show "triple (\<lambda>w. ?P w \<and> ?A ms)
     (bind_act (read_act (\<lambda>w. filter (\<lambda>k. k \<notin> metric_keys spec) (it 7 (keys (CollectorMap (the_hide name w)))))) (\<lambda>ks.
      bind_act (each_act (stop_collector name) ks) (\<lambda>_.
      bind_act (each_act (start_collector name spec) ms) (\<lambda>_.
        return_act (List.map status_collector (spec_metrics it 9 spec))))))
     (\<lambda>_. in_shape name (s\<lparr>worker_dom := workers_after s spec, coll_dom := coll_dom s \<union> metric_keys spec\<rparr>)) E"
  proof (rule triple_known, rule triple_bind)
    show "triple ?P (read_act (\<lambda>w. filter (\<lambda>k. k \<notin> metric_keys spec) (it 7 (keys (CollectorMap (the_hide name w))))))
       (\<lambda>ks w. ?P w \<and> set ks = coll_dom s - metric_keys spec) E"
      using it by (intro triple_read) (elim conjE, simp add: map_doms(5) set_diff_eq)
    fix ks assume ms: "?A ms"
    show "triple (\<lambda>w. ?P w \<and> set ks = coll_dom s - metric_keys spec)
      (bind_act (each_act (stop_collector name) ks) (\<lambda>_.
       bind_act (each_act (start_collector name spec) ms) (\<lambda>_.
         return_act (List.map status_collector (spec_metrics it 9 spec)))))
     (\<lambda>_. in_shape name (s\<lparr>worker_dom := workers_after s spec, coll_dom := coll_dom s \<union> metric_keys spec\<rparr>)) E"
      by (rule triple_known, rule stop_and_start [OF E ms]; assumption)
  qed
qed

section \<open>Predictors\<close>

text \<open>The attributes of a model parse for the type its key names.\<close>

definition buildable :: "string \<Rightarrow> (string, string) gomap \<Rightarrow> bool" where
  "buildable k attr =
     (if GetModelType k = ''GRU'' then (case gru_params attr of Ret _ \<Rightarrow> True | _ \<Rightarrow> False)
      else if GetModelType k = ''holt_winter'' then (case hw_New 0 attr k of Ret _ \<Rightarrow> True | _ \<Rightarrow> False)
      else False)"

lemma hw_New_any: "(\<exists>p. hw_New a attr k = Ret p) \<longleftrightarrow> (\<exists>p. hw_New b attr k = Ret p)"
  by (auto simp: hw_New_def go_simps)

lemma buildable_new: "(\<exists>p. fst (new_predictor a c attr k) = Ret p) \<longleftrightarrow> buildable k attr"
proof (rule new_predictor_cases [of k a c attr])
  assume "GetModelType k = ''holt_winter''" and *: "new_predictor a c attr k = (map_go HwPredictor (hw_New a attr k), c)"
  then show ?thesis
    using hw_New_any [of a attr k 0] by (auto simp: buildable_def go_simps split: go.splits)
qed (auto simp: buildable_def go_simps gru_New_def split: go.splits prod.splits)

text \<open>A predictor that was made is filed under its key.\<close>

lemma file_predictor:
  assumes v: "in_shape name s v" and id: "pred_Key pred = wmk" "pred_collector pred = c" and len: "c < length (collectors v)"
  shows "\<exists>t. store_in PredictorMap PredictorMap_update name wmk (length (predictors v)) (v\<lparr>predictors := predictors v @ [pred]\<rparr>) =
      (Ret (), t) \<and> in_shape name (s\<lparr>pred_dom := insert wmk (pred_dom s)\<rparr>) t"
proof -
  let ?h = "the_hide name v" and ?u = "v\<lparr>predictors := predictors v @ [pred]\<rparr>" and ?a = "length (predictors v)"
  have "grows v ?u" by (auto simp: grows_def cells nth_append)
  then have u: "in_shape name s ?u" using in_shape_grow [OF v] by simp
  have cell: "pred_cell ?u wmk ?a" using id len by (simp add: pred_cell_def)
  have h: "the_hide name ?u = ?h" by (simp add: the_hide_def)
  have ok: "hide_ok ?u ?h" "s = shape_hide ?h" using in_shapeD [OF u] h by simp_all
  let ?f = "PredictorMap_update (\<lambda>_. (PredictorMap ?h)\<lparr>Data := Some (AList.update wmk ?a (cm_data (PredictorMap ?h)))\<rparr>)"
  have "in_shape name (s\<lparr>pred_dom := insert wmk (pred_dom s)\<rparr>) (put_hide name ?f ?u)"
  proof (rule in_shape_put [OF u])
    show "hide_ok ?u (?f (the_hide name ?u))"
      unfolding h using ok(1) by (intro hide_ok_updates entries_ok_Store hide_ok_entries cell)
  qed (simp add: h ok(2))
  then show ?thesis using ok(1) h by (simp add: store_in_Ret)
qed

text \<open>With a worker, making the predictor either files it, or fails on attributes that do not parse.\<close>

lemma make_predictor_worker:
  assumes w: "in_shape name s w" and Ret: "cm_Load (CollectorWorkerMap (the_hide name w)) nmk = Ret c"
  shows "(\<exists>t. make_predictor name nmk wmk model w = (Ret (), t) \<and> in_shape name (s\<lparr>pred_dom := insert wmk (pred_dom s)\<rparr>) t) \<or>
    (\<exists>e t. make_predictor name nmk wmk model w = (Err e, t) \<and> world_ok t \<and> \<not> buildable wmk (attr_map model))"
proof -
  let ?c = "collectors w ! c"
  have len: "c < length (collectors w)"
    using entries_ok_Load [OF hide_ok_entries(4) Ret] in_shapeD [OF w] by (auto simp: worker_cell_def)
  obtain r c' where np: "new_predictor c ?c (attr_map model) wmk = (r, c')" by force
  let ?v = "w\<lparr>collectors := assign c c' (collectors w)\<rparr>"
  have "mc_NoModelKey c' = mc_NoModelKey ?c"
    using pred_id.make_collector [of c ?c "attr_map model" wmk] np by simp
  then have "grows w ?v" using len by (auto simp: grows_def cells assign_def nth_list_update)
  then have v: "in_shape name s ?v" by (rule in_shape_grow [OF w]) simp
  have run: "make_predictor name nmk wmk model w =
    (case r of Err e \<Rightarrow> (Err e, ?v) | Panic p \<Rightarrow> (Panic p, ?v)
      | Ret pred \<Rightarrow> store_in PredictorMap PredictorMap_update name wmk (length (predictors w))
                      (?v\<lparr>predictors := predictors w @ [pred]\<rparr>))"
    using Ret len np by (simp add: make_predictor_def deref_def new_predictor_def alloc_def split: go.splits)
  show ?thesis
  proof (cases r)
    case (Ret pred)
    have "pred_Key pred = wmk" "pred_collector pred = c" using pred_id.make_key np Ret by blast+
    from file_predictor [OF v this] len run Ret show ?thesis by auto
  next
    case (Err e)
    then have "\<not> buildable wmk (attr_map model)" using buildable_new [of c ?c "attr_map model" wmk] np by simp
    with Err run v show ?thesis by (simp add: in_shape_def)
  next
    case (Panic p)
    then show ?thesis using pred_id.make_total [of c ?c "attr_map model" wmk] np by auto
  qed
qed

lemma make_predictor_triple:
  fixes E :: "'c world \<Rightarrow> bool"
  assumes E: "\<not> (nmk \<in> worker_dom s \<and> buildable wmk (attr_map model)) \<Longrightarrow> (\<And>w. world_ok w \<Longrightarrow> E w)"
  shows "triple (in_shape name s) (make_predictor name nmk wmk model)
    (\<lambda>_. in_shape name (s\<lparr>pred_dom := insert wmk (pred_dom s)\<rparr>)) E"
  unfolding triple_def
proof (intro allI impI)
  fix w :: "'c world" assume w: "in_shape name s w"
  let ?m = "CollectorWorkerMap (the_hide name w)"
  show "case make_predictor name nmk wmk model w of
      (Ret a, t) \<Rightarrow> in_shape name (s\<lparr>pred_dom := insert wmk (pred_dom s)\<rparr>) t | (_, t) \<Rightarrow> E t"
  proof (cases "cm_Load ?m nmk")
    case (Err e)
    then have "nmk \<notin> worker_dom s" using cm_Load_dom [of ?m nmk] in_shapeD [OF w] by auto
    with Err E w show ?thesis by (simp add: make_predictor_def in_shape_def)
  next
    case (Panic p)
    then show ?thesis using cm.load_cases [of ?m nmk] by auto
  next
    case (Ret c)
    with make_predictor_worker [OF w this, of wmk model] E show ?thesis by auto
  qed
qed

definition metric_models :: "AOMSpec \<Rightarrow> (Model \<times> Metric) set" where
  "metric_models spec =
     (\<Union>e \<in> set (Models spec). case map_of (Metrics spec) (fst e) of
        None \<Rightarrow> {} | Some m \<Rightarrow> (\<lambda>model. (model, m)) ` set (snd e))"

lemma model_pairs_alt: "model_pairs spec = (\<lambda>mm. (pair_key mm, fst mm)) ` metric_models spec"
  by (force simp: model_pairs_def metric_models_def entry_pairs_def pair_key_def image_UN split: option.splits)

lemma metric_models_metric: "mm \<in> metric_models spec \<Longrightarrow> NoModelKey (snd mm) \<in> metric_keys spec"
  by (force simp: metric_models_def metric_keys_def split: option.splits dest: map_of_SomeD)

lemma spec_pairs_fold:
  assumes "\<forall>e \<in> set es. map_of (Metrics spec) (fst e) \<noteq> None"
  shows "\<exists>ps. fold_go (\<lambda>(key, models) acc.
         case map_of (Metrics spec) key of
           None \<Rightarrow> Err (NewError ''not found metric'')
         | Some metric \<Rightarrow> Ret (acc @ List.map (\<lambda>model. (model, metric)) models)) es acc = Ret ps \<and>
       set ps = set acc \<union> (\<Union>e \<in> set es. case map_of (Metrics spec) (fst e) of
        None \<Rightarrow> {} | Some m \<Rightarrow> (\<lambda>model. (model, m)) ` set (snd e))"
  using assms
proof (induction es arbitrary: acc)
  case (Cons e es)
  obtain key models where e: "e = (key, models)" by force
  with Cons.prems obtain m where m: "map_of (Metrics spec) key = Some m" by auto
  from Cons.IH [of "acc @ List.map (\<lambda>model. (model, m)) models"] Cons.prems show ?case
    by (simp add: e m Un_assoc)
qed simp

lemma spec_pairs_Ret:
  assumes "fair_iter it" and "wf_spec spec" and "no_orphan spec"
  shows "\<exists>ps. spec_pairs it n spec = Ret ps \<and> set ps = metric_models spec"
proof -
  have es: "set (entries it n (Models spec)) = set (Models spec)"
    using assms(1,2) by (simp add: wf_spec_def)
  have "\<forall>e \<in> set (entries it n (Models spec)). map_of (Metrics spec) (fst e) \<noteq> None"
    using orphan_entry [OF assms(2,3)] es by auto
  from spec_pairs_fold [OF this, of "[]"] show ?thesis
    by (auto simp: spec_pairs_def metric_models_def es)
qed

text \<open>
  Every predictor the spec asks for, and every changed one, can be made: the worker of its metric is
  there and its attributes parse.
\<close>

definition predictable :: "shape \<Rightarrow> AOMSpec \<Rightarrow> bool" where
  "predictable s spec \<longleftrightarrow>
     no_orphan spec \<and> metric_keys spec \<subseteq> worker_dom s \<and>
     (\<forall>mm \<in> metric_models spec. plain (Type (fst mm)) \<and> buildable (pair_key mm) (attr_map (fst mm)))"

lemma make_loop:
  assumes "\<And>x. x \<in> set xs \<Longrightarrow> \<not> (nmk x \<in> worker_dom s \<and> buildable (wmk x) (attr_map (model x))) \<Longrightarrow>
      (\<And>w. world_ok w \<Longrightarrow> E w)"
  shows "triple (in_shape name s) (each_act (\<lambda>x. make_predictor name (nmk x) (wmk x) (model x)) xs)
    (\<lambda>_. in_shape name (s\<lparr>pred_dom := pred_dom s \<union> wmk ` set xs\<rparr>)) E"
proof -
  let ?I = "\<lambda>xs. in_shape name (s\<lparr>pred_dom := pred_dom s \<union> wmk ` set xs\<rparr>)"
  have "triple (?I []) (each_act (\<lambda>x. make_predictor name (nmk x) (wmk x) (model x)) xs) (\<lambda>_. ?I xs) E"
  proof (rule triple_each [where I = ?I])
    fix "done" x assume x: "x \<in> set xs"
    have "triple (?I done) (make_predictor name (nmk x) (wmk x) (model x))
      (\<lambda>_. in_shape name ((s\<lparr>pred_dom := pred_dom s \<union> wmk ` set done\<rparr>)\<lparr>pred_dom := insert (wmk x) (pred_dom s \<union> wmk ` set done)\<rparr>)) E"
      using make_predictor_triple [of "nmk x" "s\<lparr>pred_dom := pred_dom s \<union> wmk ` set done\<rparr>" "wmk x" "model x" E name] assms [OF x]
      by simp
    then show "triple (?I done) (make_predictor name (nmk x) (wmk x) (model x)) (\<lambda>_. ?I (done @ [x])) E" by simp
  qed
  then show ?thesis by simp
qed

lemma delete_preds:
  "triple (in_shape name s) (each_act (delete_in PredictorMap_update name) ks)
    (\<lambda>_. in_shape name (s\<lparr>pred_dom := pred_dom s - set ks\<rparr>)) E"
proof -
  let ?I = "\<lambda>ks. in_shape name (s\<lparr>pred_dom := pred_dom s - set ks\<rparr>)"
  have "triple (?I []) (each_act (delete_in PredictorMap_update name) ks) (\<lambda>_. ?I ks) E"
  proof (rule triple_each [where I = ?I])
    fix "done" k
    have "pred_dom s - set (done @ [k]) = pred_dom s - set done - {k}" by auto
    then show "triple (?I done) (delete_in PredictorMap_update name k) (\<lambda>_. ?I (done @ [k])) E"
      using delete_triples(3) [of name "s\<lparr>pred_dom := pred_dom s - set done\<rparr>" k E] by simp
  qed
  then show ?thesis by simp
qed

lemma spec_pairs_RetD:
  assumes "fair_iter it" and "wf_spec spec" and "spec_pairs it n spec = Ret ps"
  shows "no_orphan spec \<and> set ps = metric_models spec"
proof -
  have es: "set (entries it n (Models spec)) = set (Models spec)"
    using assms(1,2) by (simp add: wf_spec_def)
  have "map_of (Metrics spec) (fst e) \<noteq> None" if "e \<in> set (Models spec)" for e
    using fold_go_Ret_each [OF assms(3) [unfolded spec_pairs_def], of e] that es
    by (auto split: option.splits prod.splits)
  then have "no_orphan spec" by (force simp: no_orphan_def map_of_eq_None_iff)
  then show ?thesis using spec_pairs_Ret [OF assms(1,2), of n] assms(3) by auto
qed

lemma lift_pairs_triple:
  assumes it: "fair_iter it" and spec: "wf_spec spec" and E: "\<not> no_orphan spec \<Longrightarrow> (\<And>w. world_ok w \<Longrightarrow> E w)"
  shows "triple (in_shape name s) (lift_go (\<lambda>w. map_go (g w) (spec_pairs it n spec)))
    (\<lambda>r w. in_shape name s w \<and> no_orphan spec \<and> (\<exists>ps. r = g w ps \<and> set ps = metric_models spec)) E"
proof (rule tripleI)
  fix w r t assume "in_shape name s w" and "lift_go (\<lambda>w. map_go (g w) (spec_pairs it n spec)) w = (Ret r, t)"
  then show "in_shape name s t \<and> no_orphan spec \<and> (\<exists>ps. r = g t ps \<and> set ps = metric_models spec)"
    using spec_pairs_RetD [OF it spec, of n] by (auto simp: go_simps)
next
  fix w e t assume "in_shape name s w" and "lift_go (\<lambda>w. map_go (g w) (spec_pairs it n spec)) w = (Err e, t)"
  moreover then have "\<not> no_orphan spec" using spec_pairs_Ret [OF it spec, of n] by auto
  ultimately show "E t" using E by (auto simp: in_shape_def)
next
  fix w e t assume "in_shape name s w" and "lift_go (\<lambda>w. map_go (g w) (spec_pairs it n spec)) w = (Panic e, t)"
  moreover then have "\<not> no_orphan spec" using spec_pairs_Ret [OF it spec, of n] by (auto simp: go_simps)
  ultimately show "E t" using E by (auto simp: in_shape_def)
qed

text \<open>What the last two loops of \<open>handlePredictor\<close> need of their lists.\<close>

lemma predictable_pair:
  assumes "predictable s spec" and "mm \<in> metric_models spec"
  shows "NoModelKey (snd mm) \<in> worker_dom s" and "buildable (pair_key mm) (attr_map (fst mm))"
    and "GetNoModelKey (pair_key mm) = NoModelKey (snd mm)"
  using assms metric_models_metric [OF assms(2)]
  by (auto simp: predictable_def pair_key_def WithModelKey_eq)

lemma predictable_change:
  assumes "predictable s spec" and "(wmk, model) \<in> model_pairs spec"
  shows "GetNoModelKey wmk \<in> worker_dom s" and "buildable wmk (attr_map model)"
proof -
  obtain mm where mm: "mm \<in> metric_models spec" "wmk = pair_key mm" "model = fst mm"
    using assms(2) by (auto simp: model_pairs_alt)
  show "GetNoModelKey wmk \<in> worker_dom s" "buildable wmk (attr_map model)"
    using predictable_pair [OF assms(1) mm(1)] mm by simp_all
qed

lemma model_keys_pairs: "model_keys spec = pair_key ` metric_models spec"
  by (auto simp: model_keys_def model_pairs_alt image_image)

text \<open>The loops of \<open>handlePredictor\<close>: what is missing, what is wanted, what is to go, and the making of the missing
  and of the changed ones.\<close>

lemma missing_triple:
  fixes E :: "'c world \<Rightarrow> bool"
  assumes "fair_iter it" and "wf_spec spec" and "\<not> no_orphan spec \<Longrightarrow> (\<And>w. world_ok w \<Longrightarrow> E w)"
  shows "triple (in_shape name s)
      (lift_go (\<lambda>w. map_go (filter (\<lambda>mm. pair_key mm \<notin> set (keys (cm_data (PredictorMap (the_hide name w)))))) (spec_pairs it n spec)))
      (\<lambda>xs w. in_shape name s w \<and> no_orphan spec \<and> set xs = {mm \<in> metric_models spec. pair_key mm \<notin> pred_dom s}) E"
proof (rule triple_weaken [OF lift_pairs_triple [OF assms, where s = s and name = name and n = n]])
  fix xs and w :: "'c world"
  assume xs: "in_shape name s w \<and> no_orphan spec \<and> (\<exists>ps. xs = filter (\<lambda>mm. pair_key mm \<notin>
      set (keys (cm_data (PredictorMap (the_hide name w))))) ps \<and> set ps = metric_models spec)"
  then have "set (keys (cm_data (PredictorMap (the_hide name w)))) = pred_dom s" by (simp add: map_doms(3))
  with xs show "in_shape name s w \<and> no_orphan spec \<and> set xs = {mm \<in> metric_models spec. pair_key mm \<notin> pred_dom s}" by auto
qed simp_all

lemma wanted_triple:
  fixes E :: "'c world \<Rightarrow> bool"
  assumes "fair_iter it" and "wf_spec spec" and "\<not> no_orphan spec \<Longrightarrow> (\<And>w. world_ok w \<Longrightarrow> E w)"
  shows "triple (in_shape name s) (lift_go (\<lambda>_. spec_pairs it n spec)) (\<lambda>r w. in_shape name s w \<and> set r = metric_models spec) E"
proof -
  have "triple (in_shape name s) (lift_go (\<lambda>w. map_go (\<lambda>x. x) (spec_pairs it n spec)))
      (\<lambda>r w. in_shape name s w \<and> set r = metric_models spec) E"
    by (rule triple_weaken [OF lift_pairs_triple [OF assms, where g = "\<lambda>_ x. x"]]) auto
  then show ?thesis by (simp add: go.map_ident)
qed

lemma unwanted_triple:
  assumes "fair_iter it" and "set wanted = metric_models spec"
  shows "triple (in_shape name s)
      (read_act (\<lambda>w. filter (\<lambda>k. k \<notin> pair_key ` set wanted) (it n (keys (cm_data (PredictorMap (the_hide name w)))))))
      (\<lambda>ks w. in_shape name s w \<and> set ks = pred_dom s - model_keys spec) E"
  using assms by (intro triple_read) (auto simp: map_doms(3) model_keys_pairs simp del: domIff)

lemma make_missing_triple:
  fixes E :: "'c world \<Rightarrow> bool"
  assumes "\<not> predictable s spec \<Longrightarrow> (\<And>w. world_ok w \<Longrightarrow> E w)" and "set toAdd \<subseteq> metric_models spec"
  shows "triple (in_shape name (s\<lparr>pred_dom := D\<rparr>))
     (each_act (\<lambda>mm. make_predictor name (NoModelKey (snd mm)) (pair_key mm) (fst mm)) toAdd)
     (\<lambda>_. in_shape name (s\<lparr>pred_dom := D \<union> pair_key ` set toAdd\<rparr>)) E"
proof -
  let ?s = "s\<lparr>pred_dom := D\<rparr>"
  have "triple (in_shape name ?s)
     (each_act (\<lambda>mm. make_predictor name (NoModelKey (snd mm)) (pair_key mm) (fst mm)) toAdd)
     (\<lambda>_. in_shape name (?s\<lparr>pred_dom := pred_dom ?s \<union> pair_key ` set toAdd\<rparr>)) E"
  proof (rule make_loop)
    fix mm and w :: "'c world"
    assume "mm \<in> set toAdd" and "world_ok w"
      and "\<not> (NoModelKey (snd mm) \<in> worker_dom ?s \<and> buildable (pair_key mm) (attr_map (fst mm)))"
    then show "E w" using predictable_pair [of s spec mm] assms by auto
  qed
  then show ?thesis by simp
qed

lemma make_changed_triple:
  fixes E :: "'c world \<Rightarrow> bool"
  assumes "\<not> predictable s spec \<Longrightarrow> (\<And>w. world_ok w \<Longrightarrow> E w)" and "set es \<subseteq> model_pairs spec"
  shows "triple (in_shape name (s\<lparr>pred_dom := model_keys spec\<rparr>))
     (each_act (\<lambda>(wmk, model). make_predictor name (GetNoModelKey wmk) wmk model) es)
     (\<lambda>_. in_shape name (s\<lparr>pred_dom := model_keys spec\<rparr>)) E"
proof -
  let ?s = "s\<lparr>pred_dom := model_keys spec\<rparr>"
  have "triple (in_shape name ?s)
     (each_act (\<lambda>x. make_predictor name (GetNoModelKey (fst x)) (fst x) (snd x)) es)
     (\<lambda>_. in_shape name (?s\<lparr>pred_dom := pred_dom ?s \<union> fst ` set es\<rparr>)) E"
  proof (rule make_loop)
    fix x and w :: "'c world"
    assume "x \<in> set es" and "world_ok w"
      and "\<not> (GetNoModelKey (fst x) \<in> worker_dom ?s \<and> buildable (fst x) (attr_map (snd x)))"
    then show "E w" using predictable_change [of s spec "fst x" "snd x"] assms by auto
  qed
  moreover have "model_keys spec \<union> fst ` set es = model_keys spec" using assms(2) by (auto simp: model_keys_def)
  ultimately show ?thesis by (simp add: split_beta')
qed

lemma handlePredictor_triple:
  fixes E :: "'c world \<Rightarrow> bool"
  assumes it: "fair_iter it" and spec: "wf_spec spec" and ch: "wf_map ch" "set ch \<subseteq> model_pairs spec"
    and E: "\<not> predictable s spec \<Longrightarrow> (\<And>w. world_ok w \<Longrightarrow> E w)"
  shows "triple (in_shape name s) (handlePredictor it name spec ch)
    (\<lambda>_. in_shape name (s\<lparr>pred_dom := model_keys spec\<rparr>)) E"
proof -
  have orphan: "\<not> no_orphan spec \<Longrightarrow> (\<And>w. world_ok w \<Longrightarrow> E w)" using E by (auto simp: predictable_def)
  show ?thesis
    unfolding handlePredictor_def
  proof (rule triple_bind [OF triple_GetHide], rule triple_bind [OF missing_triple [OF it spec orphan]], assumption+,
      rule triple_known, rule triple_bind [OF wanted_triple [OF it spec orphan]], assumption+, rule triple_known,
      rule triple_bind [OF unwanted_triple [OF it]], assumption, rule triple_known, rule triple_bind [OF delete_preds])
    fix toAdd wanted toDelete
    assume toAdd: "no_orphan spec \<and> set toAdd = {mm \<in> metric_models spec. pair_key mm \<notin> pred_dom s}"
      and toDelete: "set toDelete = pred_dom s - model_keys spec"
    have "pred_dom s - set toDelete \<union> pair_key ` set toAdd = model_keys spec"
      using toAdd toDelete by (auto simp: model_keys_pairs)
    moreover have "triple (in_shape name (s\<lparr>pred_dom := pred_dom s - set toDelete\<rparr>))
       (each_act (\<lambda>mm. make_predictor name (NoModelKey (snd mm)) (pair_key mm) (fst mm)) toAdd)
       (\<lambda>_. in_shape name (s\<lparr>pred_dom := pred_dom s - set toDelete \<union> pair_key ` set toAdd\<rparr>)) E"
      by (rule make_missing_triple [where spec = spec], erule E, assumption) (use toAdd in auto)
    moreover have "set (entries it 13 ch) \<subseteq> model_pairs spec" using it ch by simp
    ultimately show "triple (in_shape name (s\<lparr>pred_dom := pred_dom s - set toDelete\<rparr>))
       (bind_act (each_act (\<lambda>mm. make_predictor name (NoModelKey (snd mm)) (pair_key mm) (fst mm)) toAdd) (\<lambda>_.
         each_act (\<lambda>(wmk, model). make_predictor name (GetNoModelKey wmk) wmk model) (entries it 13 ch)))
       (\<lambda>_. in_shape name (s\<lparr>pred_dom := model_keys spec\<rparr>)) E"
      by (auto intro!: triple_bind [OF _ make_changed_triple] E)
  qed
qed

section \<open>The handler\<close>

definition reconciled :: "AOMSpec \<Rightarrow> shape \<Rightarrow> shape" where
  "reconciled spec s =
     \<lparr>metric_dom = metric_keys spec, model_dom = model_keys spec, pred_dom = model_keys spec,
      worker_dom = workers_after s spec, coll_dom = coll_dom s \<union> metric_keys spec\<rparr>"

text \<open>Nothing to stop, and everything the spec asks for can be made.\<close>

definition spec_fits :: "shape \<Rightarrow> AOMSpec \<Rightarrow> bool" where
  "spec_fits s spec \<longleftrightarrow>
     coll_dom s \<subseteq> metric_keys spec \<and> predictable (s\<lparr>worker_dom := workers_after s spec\<rparr>) spec"

lemma predictable_workers: "worker_dom s = worker_dom s' \<Longrightarrow> predictable s spec = predictable s' spec"
  by (simp add: predictable_def)

lemma handleUpdate_triple:
  fixes E :: "'c world \<Rightarrow> bool"
  assumes it: "fair_iter it" and spec: "wf_spec spec"
    and E: "\<not> spec_fits s spec \<Longrightarrow> (\<And>w. world_ok w \<Longrightarrow> E w)"
  shows "triple (\<lambda>w. in_shape name s w \<and> can_start E (pCollector w)) (handleUpdate it name spec)
    (\<lambda>_. in_shape name (reconciled spec s)) E"
proof -
  let ?s1 = "s\<lparr>metric_dom := metric_keys spec\<rparr>"
  let ?s2 = "?s1\<lparr>model_dom := model_keys spec\<rparr>"
  let ?s3 = "?s2\<lparr>worker_dom := workers_after s spec, coll_dom := coll_dom s \<union> metric_keys spec\<rparr>"
  let ?ok = "\<lambda>ch. wf_map ch \<and> set ch \<subseteq> model_pairs spec"
  have same: "workers_after ?s2 spec = workers_after s spec" by (simp add: workers_after_def)
  have final: "?s3\<lparr>pred_dom := model_keys spec\<rparr> = reconciled spec s" by (cases s) (simp add: reconciled_def)
  have E2: "\<not> no_orphan spec \<Longrightarrow> (\<And>w. world_ok w \<Longrightarrow> E w)"
    and E3: "\<not> coll_dom ?s2 \<subseteq> metric_keys spec \<Longrightarrow> (\<And>w. world_ok w \<Longrightarrow> E w)"
    and E4: "\<not> predictable ?s3 spec \<Longrightarrow> (\<And>w. world_ok w \<Longrightarrow> E w)"
    using E predictable_workers [of ?s3 "s\<lparr>worker_dom := workers_after s spec\<rparr>" spec]
    by (auto simp: spec_fits_def predictable_def)
  have models: "triple (\<lambda>w. in_shape name ?s1 w \<and> can_start E (pCollector w)) (handleModels it name spec)
      (\<lambda>ch w. (in_shape name ?s2 w \<and> can_start E (pCollector w)) \<and> ?ok ch) E"
    by (rule triple_weaken [OF triple_can_start [OF background_handlers(2)
      handleModels_triple [where E = E and s = ?s1 and name = name, OF it spec E2]]]) auto
  have collector: "triple (\<lambda>w. in_shape name ?s2 w \<and> can_start E (pCollector w)) (handleCollector it name spec)
      (\<lambda>_. in_shape name ?s3) E"
    using handleCollector_triple [where E = E and s = ?s2 and name = name, OF it spec E3] same by simp
  have predictor: "triple (in_shape name ?s3) (handlePredictor it name spec ch) (\<lambda>_. in_shape name (reconciled spec s)) E"
    if "?ok ch" for ch
    using handlePredictor_triple [where E = E and s = ?s3 and ch = ch and name = name, OF it spec _ _ E4] that final by simp
  show ?thesis
    unfolding handleUpdate_def
  proof (rule triple_bind [OF triple_can_start [OF background_handlers(1) handleMetrics_triple [OF it spec]]],
      rule triple_bind [OF models], rule triple_known, rule triple_bind [OF collector], rule triple_bind [OF predictor])
    show "triple (in_shape name (reconciled spec s)) (return_act cs) (\<lambda>_. in_shape name (reconciled spec s)) E" for cs
      by (rule triple_return)
  qed
qed

end
