(* ===== verification/HandleSpec.thy ===== *)
theory HandleSpec
  imports ReconcileSpec GruSpec
begin

text \<open>
  The whole of a reconciliation: the invariant it keeps whatever its outcome, the keys it ends with,
  and what happens to a metric that is removed.
\<close>

section \<open>The invariant\<close>

definition promc_ready :: "'c world \<Rightarrow> bool" where
  "promc_ready w \<longleftrightarrow> (promcDone w \<longrightarrow> pCollector w \<noteq> None)"

definition others :: "NamespacedName \<Rightarrow> 'c world \<Rightarrow> NamespacedName \<Rightarrow> Hide option" where
  "others name w = (\<lambda>n. if n = name then None else Some (the_hide n w))"

lemma keeps_others: "keeps (background name) m \<Longrightarrow> keeps (others name) m"
  by (simp add: keeps_def background_def others_def)

lemma in_shape_same:
  "in_shape name s w \<Longrightarrow> globalStore v = globalStore w \<Longrightarrow> grows w v \<Longrightarrow> in_shape name s v"
  by (rule in_shape_grow)

lemma init_promc_triple:
  "triple (\<lambda>w. in_shape name s w \<and> promc_ready w) (modify init_promc)
     (\<lambda>_ w. in_shape name s w \<and> pCollector w \<noteq> None) E"
proof (rule triple_modify, elim conjE, intro conjI)
  fix w :: "'c world" assume w: "in_shape name s w" "promc_ready w"
  show "in_shape name s (init_promc w)"
    by (rule in_shape_grow [OF w(1)]) (simp_all add: init_promc_def grows_def cells)
  show "pCollector (init_promc w) \<noteq> None" using w(2) by (simp add: init_promc_def promc_ready_def)
qed

definition address_ok :: "'c env \<Rightarrow> AOMSpec \<Rightarrow> bool" where
  "address_ok env spec \<longleftrightarrow> (\<exists>c. api_NewClient (env_prom env) (CollectorAddress spec) = Inr c)"

lemma set_server_address_triple:
  fixes E :: "'c world \<Rightarrow> bool"
  assumes E: "\<not> address_ok env spec \<Longrightarrow> (\<And>w. world_ok w \<Longrightarrow> pCollector w \<noteq> None \<Longrightarrow> E w)"
  shows "triple (\<lambda>w. in_shape name s w \<and> pCollector w \<noteq> None) (set_server_address (env_prom env) (CollectorAddress spec))
     (\<lambda>_ w. in_shape name s w \<and> pCollector w \<noteq> None) E"
  unfolding triple_def
proof (intro allI impI)
  fix w :: "'c world" assume w: "in_shape name s w \<and> pCollector w \<noteq> None"
  then obtain p where p: "pCollector w = Some p" by auto
  obtain r q where rq: "SetServerAddress (env_prom env) (CollectorAddress spec) p = (r, q)" by force
  let ?v = "w\<lparr>pCollector := Some q\<rparr>"
  have v: "in_shape name s ?v"
    by (rule in_shape_grow [of name s w]) (use w in \<open>simp_all add: grows_def cells\<close>)
  have "r = Ret () \<or> \<not> address_ok env spec"
    using rq by (auto simp: SetServerAddress_def address_ok_def split: sum.splits)
  then show "case set_server_address (env_prom env) (CollectorAddress spec) w of
      (Ret a, t) \<Rightarrow> in_shape name s t \<and> pCollector t \<noteq> None | (_, t) \<Rightarrow> E t"
    using v p rq E by (auto simp: set_server_address_def in_shape_def split: go.splits)
qed

definition the_scaler :: "NamespacedName \<Rightarrow> AOMSpec \<Rightarrow> Scaler" where
  "the_scaler name spec =
     Scaler_New (nn_Namespace name) (spec_ScaleTargetRef spec) (MaxReplicas spec) (MinReplicas spec)"

lemma put_scaler:
  assumes "in_shape name s w"
  shows "in_shape name s (put_hide name (hide_Scaler_update (\<lambda>_. x)) w)"
proof (rule in_shape_put [OF assms])
  show "hide_ok w (hide_Scaler_update (\<lambda>_. x) (the_hide name w))"
    by (rule hide_ok_updates(5)) (use in_shapeD [OF assms] in simp)
  show "shape_hide (hide_Scaler_update (\<lambda>_. x) (the_hide name w)) = s"
    using in_shapeD [OF assms] by (simp only: shape_hide_simps)
qed

lemma handleUpdate_framed:
  fixes E :: "'c world \<Rightarrow> bool"
  assumes it: "fair_iter it" and spec: "wf_spec spec"
    and E: "\<not> spec_fits s spec \<Longrightarrow> (\<And>w. world_ok w \<Longrightarrow> pCollector w \<noteq> None \<Longrightarrow> E w)"
  shows "triple (\<lambda>w. in_shape name s w \<and> pCollector w \<noteq> None \<and> hide_Scaler (the_hide name w) = sc)
    (handleUpdate it name spec)
    (\<lambda>_ w. in_shape name (reconciled spec s) w \<and> pCollector w \<noteq> None \<and> hide_Scaler (the_hide name w) = sc) E"
proof -
  let ?D = "\<lambda>w :: 'c world. \<not> spec_fits s spec \<and> world_ok w"
  let ?P = "\<lambda>w :: 'c world. in_shape name s w \<and> can_start ?D (pCollector w)"
  define F :: "bool \<times> bool \<times> 'c k8s_state \<times> (NamespacedName \<times> Scheduler) list \<times> Scaler option \<times> (NamespacedName \<Rightarrow> Hide option) \<Rightarrow> bool"
    where "F b \<longleftrightarrow> fst (snd b) \<and> fst (snd (snd (snd (snd b)))) = sc" for b
  have F: "F (background name w) \<longleftrightarrow> pCollector w \<noteq> None \<and> hide_Scaler (the_hide name w) = sc" for w :: "'c world"
    by (simp add: background_def F_def)
  have base: "triple ?P (handleUpdate it name spec) (\<lambda>_. in_shape name (reconciled spec s)) ?D"
    by (rule handleUpdate_triple [OF it spec]) simp
  show ?thesis
    by (rule triple_weaken [OF triple_frame_all [where F = F, OF background_handleUpdate base]])
      (use E in \<open>auto simp: F can_start_def\<close>)
qed

section \<open>Creation\<close>

lemma put_scaler_triple:
  "triple (\<lambda>w. in_shape name s w \<and> pCollector w \<noteq> None) (modify (put_hide name (hide_Scaler_update (\<lambda>_. sc))))
    (\<lambda>_ w. in_shape name s w \<and> pCollector w \<noteq> None \<and> hide_Scaler (the_hide name w) = sc) E"
  by (rule triple_modify) (auto intro: put_scaler)

definition runs :: "NamespacedName \<Rightarrow> 'c world \<Rightarrow> bool" where
  "runs name w \<longleftrightarrow> (\<exists>sch. map_of (schedulers w) name = Some sch \<and> RunLoop sch \<in> set (goroutines w))"

text \<open>The last two steps: look the scheduler up, or make it, and start its loop.\<close>

lemma start_scheduler_triple:
  "triple (\<lambda>w. in_shape name s w \<and> pCollector w \<noteq> None \<and> hide_Scaler (the_hide name w) = sc)
    (bind_act (GetOrNew name i) (\<lambda>schdlr.
       bind_act (modify (\<lambda>w. w\<lparr>goroutines := goroutines w @ [RunLoop schdlr]\<rparr>)) (\<lambda>_. return_act cs)))
    (\<lambda>_ w. in_shape name s w \<and> pCollector w \<noteq> None \<and> hide_Scaler (the_hide name w) = sc \<and> runs name w) E"
proof (rule triple_returns)
  fix w :: "'c world"
  assume w: "in_shape name s w \<and> pCollector w \<noteq> None \<and> hide_Scaler (the_hide name w) = sc"
  obtain sch v where v: "GetOrNew name i w = (Ret sch, v)" "map_of (schedulers v) name = Some sch"
    "globalStore v = globalStore w" "grows w v" "pCollector v = pCollector w"
    by (cases "map_of (schedulers w) name") (auto simp: GetOrNew_def Let_def grows_def cells update_conv')
  let ?t = "v\<lparr>goroutines := goroutines v @ [RunLoop sch]\<rparr>"
  have "grows w ?t" using v(4) by (simp add: grows_def cells)
  then have "in_shape name s ?t" using w v(3) by (auto intro: in_shape_grow)
  moreover have "hide_Scaler (the_hide name ?t) = sc" using w v(3) by (simp add: the_hide_def)
  ultimately show "\<exists>a t. (bind_act (GetOrNew name i) (\<lambda>schdlr.
       bind_act (modify (\<lambda>w. w\<lparr>goroutines := goroutines w @ [RunLoop schdlr]\<rparr>)) (\<lambda>_. return_act cs))) w = (Ret a, t) \<and>
     in_shape name s t \<and> pCollector t \<noteq> None \<and> hide_Scaler (the_hide name t) = sc \<and> runs name t"
    using w v by (auto simp: runs_def)
qed

lemma handleCreate_triple:
  fixes E :: "'c world \<Rightarrow> bool"
  assumes it: "fair_iter it" and spec: "wf_spec spec"
    and E: "\<not> (address_ok env spec \<and> spec_fits s spec) \<Longrightarrow> (\<And>w. world_ok w \<Longrightarrow> pCollector w \<noteq> None \<Longrightarrow> E w)"
  shows "triple (\<lambda>w. in_shape name s w \<and> promc_ready w) (handleCreate env it name spec)
    (\<lambda>_ w. in_shape name (reconciled spec s) w \<and> pCollector w \<noteq> None \<and>
       hide_Scaler (the_hide name w) = Some (the_scaler name spec) \<and> runs name w) E"
proof -
  let ?sc = "Some (the_scaler name spec)"
  have get: "triple (\<lambda>w. in_shape name s w \<and> pCollector w \<noteq> None) (GetHide name)
      (\<lambda>_ w. in_shape name s w \<and> pCollector w \<noteq> None) E"
    using triple_frame [OF background_GetHide triple_GetHide, where F = "\<lambda>b. fst (snd b)"] by (simp add: background_def)
  have E1: "\<not> address_ok env spec \<Longrightarrow> (\<And>w. world_ok w \<Longrightarrow> pCollector w \<noteq> None \<Longrightarrow> E w)"
    and E2: "\<not> spec_fits s spec \<Longrightarrow> (\<And>w. world_ok w \<Longrightarrow> pCollector w \<noteq> None \<Longrightarrow> E w)"
    using E by blast+
  show ?thesis
    unfolding handleCreate_def the_scaler_def [symmetric]
    by (rule triple_bind [OF init_promc_triple], rule triple_bind [OF set_server_address_triple [OF E1]], assumption+,
        rule triple_bind [OF get], rule triple_bind [OF put_scaler_triple],
        rule triple_bind [OF handleUpdate_framed [OF it spec E2]], assumption+, rule start_scheduler_triple)
qed

section \<open>Handle\<close>

definition good :: "'c world \<Rightarrow> bool" where
  "good w \<longleftrightarrow> world_ok w \<and> promc_ready w"

lemma good_shape: "good w \<longleftrightarrow> in_shape name (shape_of name w) w \<and> promc_ready w"
  by (simp add: good_def in_shape_def)

lemma handlers_good:
  fixes w :: "'c world"
  assumes it: "fair_iter it" and spec: "wf_spec spec" and w: "good w"
  shows "good (snd (handleCreate env it name spec w))" "good (snd (handleUpdate it name spec w))"
proof -
  let ?s = "shape_of name w"
  have "triple (\<lambda>w. in_shape name ?s w \<and> promc_ready w) (handleCreate env it name spec) (\<lambda>_. good) (good :: 'c world \<Rightarrow> bool)"
    by (rule triple_weaken [OF handleCreate_triple [OF it spec, where E = good and s = ?s]])
      (auto simp: good_def promc_ready_def in_shape_def)
  from triple_state [OF this] show "good (snd (handleCreate env it name spec w))"
    using w good_shape by blast
  have "triple (\<lambda>w. in_shape name ?s w \<and> can_start world_ok (pCollector w)) (handleUpdate it name spec)
      (\<lambda>_. world_ok) (world_ok :: 'c world \<Rightarrow> bool)"
    by (rule triple_weaken [OF handleUpdate_triple [OF it spec, where E = world_ok and s = ?s]])
      (auto simp: in_shape_def can_start_def)
  from triple_state [OF this] have "world_ok (snd (handleUpdate it name spec w))"
    using w by (simp add: good_def can_start_def in_shape_def)
  moreover have "background name (snd (handleUpdate it name spec w)) = background name w"
    by (rule keeps_snd [OF background_handleUpdate])
  ultimately show "good (snd (handleUpdate it name spec w))"
    using w by (simp add: good_def promc_ready_def background_def)
qed

lemma others_create: "keeps (others name) (handleCreate env it name spec)"
proof -
  have "keeps (others name) (modify init_promc)" "keeps (others name) (GetOrNew name i)"
    "keeps (others name) (modify (put_hide name f))"
    "keeps (others name) (modify (\<lambda>w. w\<lparr>goroutines := goroutines w @ gs\<rparr>))"
    "keeps (others name) (set_server_address lib url)" for i f gs lib url
    by (auto simp: keeps_def others_def init_promc_def GetOrNew_def Let_def the_hide_def put_hide_def
        update_conv' set_server_address_def fun_eq_iff split: option.splits prod.splits)
  then show ?thesis
    unfolding handleCreate_def
    by (intro keeps_bind keeps_basic(1) keeps_others [OF background_GetHide] keeps_others [OF background_handleUpdate])
qed

lemma new_client_world: "new_client env w = (r, v) \<Longrightarrow> \<exists>c. v = w\<lparr>k8s_client := c\<rparr>"
  by (auto simp: new_client_def split: prod.splits)

lemma hide_client [simp]: "the_hide name (w\<lparr>k8s_client := c\<rparr>) = the_hide name w"
  by (simp add: the_hide_def)

lemma in_shape_client: "in_shape name s w \<Longrightarrow> in_shape name s (w\<lparr>k8s_client := c\<rparr>)"
  by (erule in_shape_grow) (simp_all add: grows_def cells)

lemma good_client: "good w \<Longrightarrow> good (w\<lparr>k8s_client := c\<rparr>)"
  unfolding good_def promc_ready_def by (elim conjE, intro conjI, erule world_ok_grow) (simp_all add: grows_def cells)

lemma others_client [simp]: "others name (w\<lparr>k8s_client := c\<rparr>) = others name w"
  by (simp add: others_def cong: if_cong)

lemma Reconcile_state:
  "snd (Reconcile env it found w) = (case found of Found inst \<Rightarrow> snd (Handle env it inst w) | _ \<Rightarrow> w)"
  by (auto simp: Reconcile_def split: get_result.splits go.splits prod.splits)

section \<open>A first and a repeated reconciliation\<close>

definition empty_shape :: shape where
  "empty_shape = \<lparr>metric_dom = {}, model_dom = {}, pred_dom = {}, worker_dom = {}, coll_dom = {}\<rparr>"

lemma shape_fresh: "map_of (globalStore w) name = None \<Longrightarrow> shape_of name w = empty_shape"
  by (simp add: shape_of_def the_hide_def shape_hide_def Hide_Init_def new_Hide_def cm_init_def cm_dom_def
      cm_data_def empty_shape_def)

text \<open>The keys that belong to a spec.\<close>

definition spec_shape :: "AOMSpec \<Rightarrow> shape" where
  "spec_shape spec =
     \<lparr>metric_dom = metric_keys spec, model_dom = model_keys spec, pred_dom = model_keys spec,
      worker_dom = metric_keys spec, coll_dom = metric_keys spec\<rparr>"

text \<open>Every model belongs to a metric, is of a known type and has attributes that parse.\<close>

definition valid_spec :: "AOMSpec \<Rightarrow> bool" where
  "valid_spec spec \<longleftrightarrow>
     wf_spec spec \<and> no_orphan spec \<and>
     (\<forall>mm \<in> metric_models spec. plain (Type (fst mm)) \<and> buildable (pair_key mm) (attr_map (fst mm)))"

text \<open>States in which the workers of the metrics the instance has ever had are exactly those it has.\<close>

definition adding :: "shape \<Rightarrow> AOMSpec \<Rightarrow> bool" where
  "adding s spec \<longleftrightarrow> worker_dom s = coll_dom s \<and> coll_dom s \<subseteq> metric_keys spec"

lemma adding_reconciled:
  assumes "adding s spec" and "valid_spec spec"
  shows "spec_fits s spec" "reconciled spec s = spec_shape spec"
  using assms
  by (auto simp: adding_def spec_fits_def predictable_def valid_spec_def workers_after_def reconciled_def spec_shape_def)

lemma adding_again: "coll_dom s \<subseteq> metric_keys spec \<Longrightarrow> s = spec_shape old \<Longrightarrow> adding s spec"
  by (simp add: adding_def spec_shape_def)

lemma adding_empty: "adding empty_shape spec"
  by (simp add: adding_def empty_shape_def)

definition accepts_status :: "'c env \<Rightarrow> bool" where
  "accepts_status env \<longleftrightarrow> (\<forall>i. Status_Update env i = None)"

lemma handleCreate_returns:
  fixes w :: "'c world"
  assumes "fair_iter it" and "valid_spec spec" and "address_ok env spec" and "good w" and "adding (shape_of name w) spec"
  shows "\<exists>cs t. handleCreate env it name spec w = (Ret cs, t) \<and> in_shape name (spec_shape spec) t \<and> pCollector t \<noteq> None \<and>
    hide_Scaler (the_hide name t) = Some (the_scaler name spec) \<and> runs name t"
proof -
  have wf: "wf_spec spec" using assms(2) by (simp add: valid_spec_def)
  have pre: "in_shape name (shape_of name w) w \<and> promc_ready w" using assms(4) good_shape by blast
  note adding = adding_reconciled [OF assms(5,2)]
  note created = handleCreate_triple [OF assms(1) wf, where E = "\<lambda>_. False" and s = "shape_of name w" and name = name and env = env]
  show ?thesis
    using triple_returnsD [OF created pre] assms(3) adding by auto
qed

section \<open>An instance\<close>

text \<open>The state the program starts in, libraries that answer, and an instance with one metric and one
  model, for the witnesses.\<close>

definition start_world :: "'c world" where
  "start_world =
     \<lparr>globalStore = [], schedulers = [], metric_vars = [], model_vars = [], collectors = [], predictors = [],
      channels = [], promcDone = False, pCollector = None,
      k8s_client = \<lparr>GlobalClient = None, once_done = False\<rparr>, goroutines = []\<rparr>"

definition demo_env :: "(target \<Rightarrow> int32) env" where
  "demo_env = \<lparr>env_k8s = demo_libs, env_prom = five_libs, Status_Update = (\<lambda>_. None)\<rparr>"

definition demo_model :: Model where
  "demo_model = \<lparr>Type = ''GRU'', NeedTrain = True, UpdateInterval = 60, Attr = Some demo_attr\<rparr>"

definition spec_of :: "(string, Metric) gomap \<Rightarrow> (string, Model list) gomap \<Rightarrow> AOMSpec" where
  "spec_of metrics models =
     \<lparr>spec_ScaleTargetRef = \<lparr>Kind = ''Deployment'', refName = ''my-app-deployment'', APIVersion = ''apps/v1''\<rparr>,
      MinReplicas = 1, MaxReplicas = 5, CollectorAddress = ''http://127.0.0.1:9090'', ScrapeInterval = 15,
      Metrics = metrics, Models = models, spec_Interval = 30\<rparr>"

definition demo_spec :: AOMSpec where
  "demo_spec = spec_of [(''m1'', sample_metric ''http_request'' ''50'' 100)] [(''m1'', [demo_model])]"

definition demo_inst :: AOM where
  "demo_inst = \<lparr>aom_name = \<lparr>nn_Namespace = ''default'', nn_Name = ''aom''\<rparr>, Generation = 1, Spec = demo_spec,
                StatusCollectors = [], StatusGeneration = 0\<rparr>"

lemma start_good: "good start_world"
  by (simp add: good_def world_ok_def start_world_def the_hide_def hide_ok_Init promc_ready_def)

lemma buildable_demo: "buildable (WithModelKey m ''GRU'') demo_attr"
  using demo_fields by (simp add: buildable_def WithModelKey_eq plain_def gru_params_def)

lemma valid_with_model: "valid_spec (spec_of [(k, m)] [(k, [demo_model])])"
  by (auto simp: valid_spec_def wf_spec_def wf_map_def keys_def spec_of_def no_orphan_def metric_models_def demo_model_def
      plain_def pair_key_def attr_map_def buildable_demo)

lemma demo_valid: "valid_spec demo_spec"
  unfolding demo_spec_def by (rule valid_with_model)

lemma demo_client: "fst (new_client demo_env start_world) = Ret ()"
  by (simp add: new_client_def NewClient_def newClient_def start_world_def demo_env_def demo_libs_def)

lemma demo_address: "address_ok demo_env spec"
  by (simp add: address_ok_def demo_env_def five_libs_def)

lemma Reconcile_invariant:
  assumes "fair_iter it" and "good w" and "case found of Found inst \<Rightarrow> wf_spec (Spec inst) \<and> aom_name inst = name | _ \<Rightarrow> True"
  shows "good (snd (Reconcile env it found w)) \<and>
    (\<forall>n. n = name \<or> the_hide n (snd (Reconcile env it found w)) = the_hide n w)"
proof -
  have "good (snd (Handle env it inst w)) \<and> others name (snd (Handle env it inst w)) = others name w"
    if spec: "wf_spec (Spec inst)" "aom_name inst = name" for inst
  proof -
    obtain r v where run: "new_client env w = (r, v)" by force
    with assms(2) have v: "good v" "others name v = others name w"
      using new_client_world [OF run] good_client by auto
    have create: "good (snd (handleCreate env it name (Spec inst) v))"
      "others name (snd (handleCreate env it name (Spec inst) v)) = others name w"
      and update: "good (snd (handleUpdate it name (Spec inst) v))"
      "others name (snd (handleUpdate it name (Spec inst) v)) = others name w"
      by (simp_all only: handlers_good [OF assms(1) spec(1) v(1)] keeps_snd [OF others_create]
        keeps_snd [OF keeps_others [OF background_handleUpdate]] v(2))
    show ?thesis
      unfolding Handle_def
      using run v create update assms(2) spec(2) by (auto simp: bind_act_def split: prod.splits go.splits)
  qed
  then have "good (snd (Reconcile env it found w)) \<and> others name (snd (Reconcile env it found w)) = others name w"
    using assms by (auto simp: Reconcile_state split: get_result.splits)
  then show ?thesis by (auto simp: others_def fun_eq_iff split: if_splits)
qed

lemma keeps_client: "keeps (background name) m \<Longrightarrow> keeps k8s_client m"
  by (simp add: keeps_def background_def)

lemma client_create: "keeps k8s_client (handleCreate env it name spec)"
proof -
  have "keeps k8s_client (modify init_promc)" "keeps k8s_client (GetOrNew name i)"
    "keeps k8s_client (modify (put_hide name f))"
    "keeps k8s_client (modify (\<lambda>w. w\<lparr>goroutines := goroutines w @ gs\<rparr>))"
    "keeps k8s_client (set_server_address lib url)" for i f gs lib url
    by (auto simp: keeps_def init_promc_def GetOrNew_def Let_def put_hide_def set_server_address_def
        split: option.splits prod.splits)
  then show ?thesis
    unfolding handleCreate_def
    by (intro keeps_bind keeps_basic(1) keeps_client [OF background_GetHide] keeps_client [OF background_handleUpdate])
qed

lemma creates:
  fixes w :: "'c world"
  assumes "fair_iter it" and "valid_spec (Spec inst)" and "good w"
    and "map_of (globalStore w) (aom_name inst) = None"
    and "StatusGeneration inst = 0" and "Generation inst \<noteq> 0"
    and "fst (new_client env w) = Ret ()" and "address_ok env (Spec inst)" and "accepts_status env"
  shows "\<exists>w'. Handle env it inst w = (Ret (), w') \<and> good w' \<and>
    shape_of (aom_name inst) w' = spec_shape (Spec inst) \<and>
    hide_Scaler (the_hide (aom_name inst) w') = Some (the_scaler (aom_name inst) (Spec inst)) \<and>
    runs (aom_name inst) w' \<and> k8s_client w' = k8s_client (snd (new_client env w))"
proof -
  let ?n = "aom_name inst"
  obtain v where run: "new_client env w = (Ret (), v)" using assms(7) by (cases "new_client env w") auto
  then obtain c where "v = w\<lparr>k8s_client := c\<rparr>" using new_client_world by blast
  with assms(3,4) have "good v" "adding (shape_of ?n v) (Spec inst)"
    using good_client adding_empty shape_fresh [of v ?n] by auto
  from handleCreate_returns [OF assms(1,2,8) this] obtain cs t where
    "handleCreate env it ?n (Spec inst) v = (Ret cs, t)" "in_shape ?n (spec_shape (Spec inst)) t" "pCollector t \<noteq> None"
    "hide_Scaler (the_hide ?n t) = Some (the_scaler ?n (Spec inst))" "runs ?n t" by blast
  moreover have "k8s_client t = k8s_client v" by (rule keepsD [OF client_create calculation(1)])
  ultimately show ?thesis using run assms(5,6,9)
    by (auto simp: Handle_def accepts_status_def good_def in_shape_def promc_ready_def)
qed

section \<open>Properties\<close>

text \<open>C7: whatever the outcome of a reconciliation - success, error or panic, for a creation or an update,
  under any order of the map iterations - every pointer of every instance's maps still points to
  an object of its kind, predictors and workers are still filed under their own keys, and the
  hidden state of every other instance is untouched.\<close>

theorem Reconcile_keeps_invariant:
  assumes "fair_iter it" and "good w" and "case found of Found inst \<Rightarrow> wf_spec (Spec inst) \<and> aom_name inst = name | _ \<Rightarrow> True"
  shows "good (snd (Reconcile env it found w)) \<and>
    (\<forall>n. n = name \<or> the_hide n (snd (Reconcile env it found w)) = the_hide n w)"
  using assms by (rule Reconcile_invariant)

theorem Reconcile_keeps_invariant_witness:
  "good (snd (Reconcile demo_env (\<lambda>_. rev) (Found demo_inst) start_world)) \<and>
   the_hide \<lparr>nn_Namespace = ''default'', nn_Name = ''other''\<rparr>
     (snd (Reconcile demo_env (\<lambda>_. rev) (Found demo_inst) start_world)) = Hide_Init new_Hide"
proof -
  let ?n = "\<lparr>nn_Namespace = ''default'', nn_Name = ''other''\<rparr>"
  have "case Found demo_inst of Found inst \<Rightarrow> wf_spec (Spec inst) \<and> aom_name inst = aom_name demo_inst | _ \<Rightarrow> True"
    using demo_valid by (simp add: demo_inst_def valid_spec_def)
  note kept = Reconcile_keeps_invariant [OF fair_iter_rev start_good this, of demo_env]
  have "?n \<noteq> aom_name demo_inst" "the_hide ?n (start_world :: (target \<Rightarrow> int32) world) = Hide_Init new_Hide"
    by (simp_all add: demo_inst_def start_world_def the_hide_def)
  with kept show ?thesis by metis
qed

text \<open>C8: the first reconciliation of an instance whose spec is valid succeeds from any good state, if
  the Kubernetes and the Prometheus client can be made and the API server takes the status: every
  map then holds exactly the keys of the spec, the scaler has the spec's target and bounds, and
  the scheduler's loop runs.\<close>

theorem Handle_creates:
  fixes w :: "'c world"
  assumes "fair_iter it" and "valid_spec (Spec inst)" and "good w"
    and "map_of (globalStore w) (aom_name inst) = None"
    and "StatusGeneration inst = 0" and "Generation inst \<noteq> 0"
    and "fst (new_client env w) = Ret ()" and "address_ok env (Spec inst)" and "accepts_status env"
  shows "\<exists>w'. Handle env it inst w = (Ret (), w') \<and> good w' \<and>
    shape_of (aom_name inst) w' = spec_shape (Spec inst) \<and>
    hide_Scaler (the_hide (aom_name inst) w') = Some (the_scaler (aom_name inst) (Spec inst)) \<and>
    runs (aom_name inst) w'"
  using creates [OF assms] by blast

theorem Handle_creates_witness:
  "\<exists>w'. Handle demo_env (\<lambda>_ ks. ks) demo_inst start_world = (Ret (), w') \<and>
     shape_of (aom_name demo_inst) w' = spec_shape demo_spec \<and> runs (aom_name demo_inst) w'"
  using Handle_creates [OF fair_iter_id, of demo_inst start_world demo_env] demo_valid start_good demo_client
    demo_address [of demo_spec]
  by (auto simp: demo_inst_def accepts_status_def) (auto simp: start_world_def demo_env_def)

end
