(* ===== verification/Removal.thy ===== *)
theory Removal
  imports HandleSpec
begin

text \<open>
  Updates of an instance: with metrics only added, the maps follow the spec; a metric that is removed
  leaves its closed channel behind.
\<close>

section \<open>Closed channels\<close>

definition stopped :: "NamespacedName \<Rightarrow> string \<Rightarrow> 'c world \<Rightarrow> bool" where
  "stopped name v w \<longleftrightarrow> (\<exists>c. map_of (CollectorMap (the_hide name w)) v = Some c \<and> deref (channels w) c = Some True)"

lemma stopped_stops: "stops name t = stops name w \<Longrightarrow> stopped name v t = stopped name v w"
  by (simp add: stopped_def stops_def)

lemma close_channel_Ret:
  "close_channel c w = (Ret (), t) \<Longrightarrow> t = w\<lparr>channels := assign c True (channels w)\<rparr> \<and> deref (channels w) c = Some False"
  by (auto simp: close_channel_def split: option.splits bool.splits)

lemma stop_collector_cases:
  obtains (Stops) c t where "map_of (CollectorMap (the_hide name w)) k = Some c" "deref (channels w) c = Some False"
      "stop_collector name k w = (Ret (), t)" "CollectorMap (the_hide name t) = CollectorMap (the_hide name w)"
      "channels t = assign c True (channels w)"
  | (Panics) p where "stop_collector name k w = (Panic p, w)"
proof (cases "\<exists>c. map_of (CollectorMap (the_hide name w)) k = Some c \<and> deref (channels w) c = Some False")
  case True
  then obtain c where c: "map_of (CollectorMap (the_hide name w)) k = Some c" "deref (channels w) c = Some False" by blast
  let ?v = "w\<lparr>channels := assign c True (channels w)\<rparr>"
  let ?t = "put_hide name (CollectorWorkerMap_update (\<lambda>m. cm_Delete m k)) ?v"
  have "stop_collector name k w = (Ret (), ?t)"
    using c by (simp add: stop_collector_def close_channel_def delete_in_def bind_act_def)
  moreover have "the_hide name ?v = the_hide name w" by (simp add: the_hide_def)
  ultimately show ?thesis using Stops c by simp
next
  case False
  have "\<exists>p. stop_collector name k w = (Panic p, w)"
  proof (cases "map_of (CollectorMap (the_hide name w)) k")
    case (Some c)
    then have "deref (channels w) c \<noteq> Some False" using False by simp
    then show ?thesis
      using Some by (simp add: stop_collector_def close_channel_def bind_act_def split: option.splits bool.splits)
  qed (simp add: stop_collector_def)
  then obtain p where "stop_collector name k w = (Panic p, w)" ..
  then show ?thesis by (rule Panics)
qed

lemma stopped_assign:
  "stopped name v w \<Longrightarrow> CollectorMap (the_hide name t) = CollectorMap (the_hide name w) \<Longrightarrow>
    channels t = assign c True (channels w) \<Longrightarrow> stopped name v t"
  by (auto simp: stopped_def deref_assign)

text \<open>The loop that stops collectors: with a channel that is closed already it panics, and after it
  every channel it was asked to stop is closed.\<close>

lemma stop_loop_panics:
  "stopped name v w \<Longrightarrow> v \<in> set ks \<Longrightarrow> \<exists>p t. each_act (stop_collector name) ks w = (Panic p, t)"
proof (induction ks arbitrary: w)
  case (Cons k ks)
  show ?case
  proof (cases rule: stop_collector_cases [of name w k])
    case (Stops c t)
    then have "k \<noteq> v" using Cons.prems(1) by (auto simp: stopped_def)
    moreover have "stopped name v t" by (rule stopped_assign [OF Cons.prems(1) Stops(4,5)])
    ultimately show ?thesis using Cons Stops(3) by simp
  next
    case (Panics p)
    then show ?thesis by simp
  qed
qed simp

lemma stop_loop_stopped:
  "stopped name v w \<or> v \<in> set ks \<Longrightarrow> each_act (stop_collector name) ks w = (Ret (), t) \<Longrightarrow> stopped name v t"
proof (induction ks arbitrary: w)
  case (Cons k ks)
  show ?case
  proof (cases rule: stop_collector_cases [of name w k])
    case (Stops c u)
    have "stopped name k u"
      using Stops(1,2,4,5) by (auto simp: stopped_def deref_assign deref_eq_Some_iff)
    then have "stopped name v u \<or> v \<in> set ks"
      using Cons.prems(1) stopped_assign [OF _ Stops(4,5)] by auto
    then show ?thesis using Cons Stops(3) by simp
  next
    case (Panics p)
    then show ?thesis using Cons.prems(2) by simp
  qed
qed simp

text \<open>Starting another collector keeps the channel.\<close>

lemma start_collector_stopped:
  assumes "start_collector name spec m w = (Ret u, t)" and "NoModelKey m \<noteq> v" and "stopped name v w"
  shows "stopped name v t"
proof -
  obtain p wk where p: "pCollector w = Some p" and wk: "CreateWorker m (AddCustomMetrics m p) = Ret wk"
    using assms(1) by (auto simp: start_collector_def Let_def split: option.splits go.splits)
  let ?w = "w\<lparr>pCollector := Some (AddCustomMetrics m p), collectors := collectors w @ [PromWorker wk],
              channels := channels w @ [False]\<rparr>"
  let ?g = "CollectorMap_update (AList.update (NoModelKey m) (length (channels w)))"
  obtain v0 where v0: "store_in CollectorWorkerMap CollectorWorkerMap_update name (NoModelKey m) (length (collectors w)) ?w = (Ret (), v0)"
    and t: "t = (put_hide name ?g v0)\<lparr>goroutines := goroutines v0 @
      [StartWorkerLoop name (length (collectors w)) (length (channels w)) (ScrapeInterval spec)]\<rparr>"
    using assms(1) p wk by (auto simp: start_collector_def alloc_def Let_def bind_act_Ret)
  have "stops name v0 = stops name ?w" by (rule keepsD [OF keeps_stops [OF surroundings_steps(6)] v0])
  then have "stopped name v v0"
    using assms(3) by (auto simp: stops_def stopped_def the_hide_def deref_append deref_def nth_append split: if_splits)
  moreover have "the_hide name t = ?g (the_hide name v0)" "channels t = channels v0"
    by (simp_all add: t the_hide_def put_hide_def update_conv')
  ultimately show ?thesis using assms(2) by (auto simp: stopped_def update_conv')
qed

lemma start_loop_stopped:
  "v \<notin> NoModelKey ` set ms \<Longrightarrow> stopped name v w \<Longrightarrow> each_act (start_collector name spec) ms w = (Ret u, t) \<Longrightarrow> stopped name v t"
proof (induction ms arbitrary: w)
  case (Cons m ms)
  then obtain u where "start_collector name spec m w = (Ret (), u)" "each_act (start_collector name spec) ms u = (Ret (), t)"
    by (auto simp: bind_act_Ret)
  moreover have "NoModelKey m \<noteq> v" using Cons.prems(1) by auto
  ultimately show ?case using start_collector_stopped [of name spec m w "()" u v] Cons.prems Cons.IH [of u] by simp
qed simp

text \<open>The collectors' handler closes the channel of a removed metric, and panics when it finds it closed.\<close>

lemma to_delete:
  assumes "fair_iter it"
  shows "set (filter (\<lambda>k. k \<notin> metric_keys spec) (it 7 (keys (CollectorMap h)))) = dom (map_of (CollectorMap h)) - metric_keys spec"
  using assms by auto

lemma handleCollector_stops:
  assumes it: "fair_iter it" and spec: "wf_spec spec" and v: "v \<notin> metric_keys spec" "v \<in> dom (map_of (CollectorMap (the_hide name w)))"
    and run: "handleCollector it name spec w = (Ret cs, t)"
  shows "stopped name v t"
proof -
  obtain w0 where w0: "GetHide name w = (Ret (the_hide name w), w0)" "the_hide name w0 = the_hide name w"
    using GetHide_returns [of name w] the_hide_GetHide [of name name w] by (metis prod.collapse)
  let ?ks = "filter (\<lambda>k. k \<notin> metric_keys spec) (it 7 (keys (CollectorMap (the_hide name w))))"
  let ?ms = "filter (\<lambda>m. NoModelKey m \<notin> set (keys (CollectorMap (the_hide name w)))) (spec_metrics it 6 spec)"
  obtain u where u: "each_act (stop_collector name) ?ks w0 = (Ret (), u)" "each_act (start_collector name spec) ?ms u = (Ret (), t)"
    using run w0 by (auto simp: handleCollector_def bind_act_Ret)
  have "v \<in> set ?ks" unfolding to_delete [OF it] using v by simp
  then have "stopped name v u" using stop_loop_stopped [OF _ u(1)] by blast
  moreover have "v \<notin> NoModelKey ` set ?ms"
    using keys_spec_metrics [OF it spec, of 6] v(1) by auto
  ultimately show ?thesis using start_loop_stopped u(2) by blast
qed

lemma handleCollector_panics:
  assumes it: "fair_iter it" and v: "v \<notin> metric_keys spec" "stopped name v w"
  shows "\<exists>p t. handleCollector it name spec w = (Panic p, t)"
proof -
  obtain w0 where w0: "GetHide name w = (Ret (the_hide name w), w0)" "the_hide name w0 = the_hide name w"
    using GetHide_returns [of name w] the_hide_GetHide [of name name w] by (metis prod.collapse)
  have "stopped name v w0"
    using stopped_stops keepsD [OF keeps_stops [OF surroundings_GetHide] w0(1)] v(2) by blast
  moreover have "v \<in> set (filter (\<lambda>k. k \<notin> metric_keys spec) (it 7 (keys (CollectorMap (the_hide name w)))))"
    unfolding to_delete [OF it] using v by (auto simp: stopped_def)
  ultimately obtain p t where "each_act (stop_collector name)
      (filter (\<lambda>k. k \<notin> metric_keys spec) (it 7 (keys (CollectorMap (the_hide name w))))) w0 = (Panic p, t)"
    using stop_loop_panics by blast
  then show ?thesis using w0 by (simp add: handleCollector_def)
qed

lemma handleUpdate_stops:
  assumes it: "fair_iter it" and spec: "wf_spec spec" and v: "v \<notin> metric_keys spec" "v \<in> coll_dom (shape_of name w)"
    and run: "handleUpdate it name spec w = (Ret cs, t)"
  shows "stopped name v t"
proof -
  obtain w1 ch w2 w3 where
    steps: "handleMetrics it name spec w = (Ret (), w1)" "handleModels it name spec w1 = (Ret ch, w2)"
      "handleCollector it name spec w2 = (Ret cs, w3)" "handlePredictor it name spec ch w3 = (Ret (), t)"
    using run by (auto simp: handleUpdate_def bind_act_Ret)
  note same = keepsD [OF keeps_stops [OF surroundings_handlers(1)] steps(1)]
    keepsD [OF keeps_stops [OF surroundings_handlers(2)] steps(2)]
  then have "v \<in> dom (map_of (CollectorMap (the_hide name w2)))"
    using v(2) by (simp add: stops_def shape_of_def)
  from handleCollector_stops [OF it spec v(1) this steps(3)] show ?thesis
    using stopped_stops [OF keepsD [OF keeps_stops [OF surroundings_handlers(3)] steps(4)]] by blast
qed

lemma handleUpdate_panics:
  assumes it: "fair_iter it" and spec: "wf_spec spec" "no_orphan spec" and w: "world_ok w"
    and v: "v \<notin> metric_keys spec" "stopped name v w"
  shows "\<exists>p t. handleUpdate it name spec w = (Panic p, t)"
proof -
  let ?s = "shape_of name w"
  have "in_shape name ?s w" using w by (simp add: in_shape_def)
  from triple_returnsD [OF handleMetrics_triple [OF it spec(1)] this] obtain w1 where
    w1: "handleMetrics it name spec w = (Ret (), w1)" "in_shape name (?s\<lparr>metric_dom := metric_keys spec\<rparr>) w1" by auto
  have "\<exists>ch w2. handleModels it name spec w1 = (Ret ch, w2)"
    using triple_returnsD [OF handleModels_triple [OF it spec(1)] w1(2)] spec(2) by blast
  then obtain ch w2 where w2: "handleModels it name spec w1 = (Ret ch, w2)" by blast
  have "stopped name v w2"
    using v(2) stopped_stops [OF keepsD [OF keeps_stops [OF surroundings_handlers(1)] w1(1)]]
      stopped_stops [OF keepsD [OF keeps_stops [OF surroundings_handlers(2)] w2]] by blast
  then obtain p t where "handleCollector it name spec w2 = (Panic p, t)"
    using handleCollector_panics [OF it v(1)] by blast
  with w1 w2 show ?thesis by (auto simp: handleUpdate_def)
qed

section \<open>Instances\<close>

text \<open>A state after the creation of an instance, and one with a single channel in the map of the stop
  channels.\<close>

lemma demo_created:
  "\<exists>w :: (target \<Rightarrow> int32) world. good w \<and> pCollector w \<noteq> None \<and> shape_of name w = spec_shape demo_spec"
proof -
  have "shape_of name (start_world :: (target \<Rightarrow> int32) world) = empty_shape"
    by (rule shape_fresh) (simp add: start_world_def)
  then have "adding (shape_of name (start_world :: (target \<Rightarrow> int32) world)) demo_spec" using adding_empty by simp
  from handleCreate_returns [OF fair_iter_id demo_valid demo_address start_good this] show ?thesis
    by (auto simp: good_def in_shape_def promc_ready_def)
qed

lemma demo_client_any: "fst (new_client demo_env w) = Ret ()"
  by (simp add: new_client_def NewClient_def newClient_def demo_env_def demo_libs_def)

definition demo_name :: NamespacedName where
  "demo_name = \<lparr>nn_Namespace = ''default'', nn_Name = ''aom''\<rparr>"

definition channel_world :: "bool \<Rightarrow> (target \<Rightarrow> int32) world" where
  "channel_world shut =
     start_world\<lparr>globalStore := [(demo_name, (Hide_Init new_Hide)\<lparr>CollectorMap := [(''cpu$num$sum(delta(http_requests_total[30s]))'', 0)]\<rparr>)],
                 channels := [shut], promcDone := True, pCollector := Some Promc_New\<rparr>"

lemma channel_hide:
  "the_hide n (channel_world b) = (if n = demo_name
     then (Hide_Init new_Hide)\<lparr>CollectorMap := [(''cpu$num$sum(delta(http_requests_total[30s]))'', 0)]\<rparr> else Hide_Init new_Hide)"
  by (simp add: the_hide_def channel_world_def)

lemma channel_good: "good (channel_world b)"
proof -
  have "hide_ok (channel_world b) (the_hide n (channel_world b))" for n
    using hide_ok_Init [of "channel_world b"]
    by (simp add: channel_hide hide_ok_def wf_map_def keys_def channel_cell_def) (simp add: channel_world_def)
  then show ?thesis by (simp add: good_def world_ok_def promc_ready_def) (simp add: channel_world_def)
qed

lemma channel_shape:
  "coll_dom (shape_of demo_name (channel_world b)) = {''cpu$num$sum(delta(http_requests_total[30s]))''}"
  "worker_dom (shape_of demo_name (channel_world b)) = {}"
  by (simp_all add: shape_of_def channel_hide Hide_Init_def new_Hide_def cm_init_def cm_dom_def cm_data_def)

section \<open>Properties\<close>

text \<open>C9: an instance whose maps hold the keys of its old spec is updated to a valid new spec that keeps
  all its metrics: the update succeeds, and the maps then hold exactly the keys of the new spec.\<close>

theorem Handle_updates:
  fixes w :: "'c world"
  assumes "fair_iter it" and "valid_spec (Spec inst)" and "good w" and "pCollector w \<noteq> None"
    and "shape_of (aom_name inst) w = spec_shape old" and "metric_keys old \<subseteq> metric_keys (Spec inst)"
    and "0 < StatusGeneration inst" and "StatusGeneration inst < Generation inst"
    and "fst (new_client env w) = Ret ()" and "accepts_status env"
  shows "\<exists>w'. Handle env it inst w = (Ret (), w') \<and> good w' \<and>
    shape_of (aom_name inst) w' = spec_shape (Spec inst)"
proof -
  let ?n = "aom_name inst" and ?s = "shape_of (aom_name inst) w"
  have wf: "wf_spec (Spec inst)" using assms(2) by (simp add: valid_spec_def)
  obtain v where run: "new_client env w = (Ret (), v)" using assms(9) by (cases "new_client env w") auto
  then obtain c where v: "v = w\<lparr>k8s_client := c\<rparr>" using new_client_world by blast
  then have s: "in_shape ?n ?s v" and p: "pCollector v \<noteq> None" "promc_ready v"
    using assms(3,4) in_shape_client [of ?n ?s w c] good_shape [of w ?n] by (auto simp: promc_ready_def)
  have "adding ?s (Spec inst)" using assms(5,6) by (auto simp: adding_def spec_shape_def)
  note fits = adding_reconciled [OF this assms(2)]
  have "triple (\<lambda>v. in_shape ?n ?s v \<and> pCollector v \<noteq> None \<and> hide_Scaler (the_hide ?n v) = hide_Scaler (the_hide ?n w))
      (handleUpdate it ?n (Spec inst)) (\<lambda>_ t. in_shape ?n (spec_shape (Spec inst)) t \<and> pCollector t \<noteq> None \<and>
        hide_Scaler (the_hide ?n t) = hide_Scaler (the_hide ?n w)) (\<lambda>_. False)"
    using handleUpdate_framed [OF assms(1) wf, where E = "\<lambda>_. False" and s = ?s and name = ?n] fits by simp
  from triple_returnsD [OF this, of v] s p v obtain cs t where
    "handleUpdate it ?n (Spec inst) v = (Ret cs, t)" "in_shape ?n (spec_shape (Spec inst)) t" "pCollector t \<noteq> None"
    by auto
  with run assms(7,8,10) show ?thesis
    by (auto simp: Handle_def accepts_status_def good_def in_shape_def promc_ready_def)
qed

theorem Handle_updates_witness:
  "\<exists>w w' inst. Handle demo_env (\<lambda>_. rev) inst w = (Ret (), w') \<and>
     shape_of (aom_name inst) w' = spec_shape (Spec inst) \<and> metric_keys (Spec inst) \<noteq> metric_keys demo_spec"
proof -
  let ?ms = "[(''m1'', sample_metric ''http_request'' ''50'' 100), (''m2'', sample_metric ''cpu'' ''60'' 40)]"
  let ?spec = "spec_of ?ms [(''m1'', [demo_model])]"
  let ?inst = "\<lparr>aom_name = demo_name, Generation = 2, Spec = ?spec, StatusCollectors = [], StatusGeneration = 1\<rparr>"
  obtain w :: "(target \<Rightarrow> int32) world" where w: "good w" "pCollector w \<noteq> None" "shape_of demo_name w = spec_shape demo_spec"
    using demo_created by blast
  have "valid_spec ?spec"
    using demo_valid by (auto simp: demo_spec_def valid_spec_def wf_spec_def wf_map_def keys_def spec_of_def no_orphan_def metric_models_def)
  moreover have "metric_keys demo_spec \<subseteq> metric_keys ?spec" "metric_keys ?spec \<noteq> metric_keys demo_spec"
    by (auto simp: metric_keys_def demo_spec_def spec_of_def sample_metric_def NoModelKey_def)
  moreover have "accepts_status demo_env" by (simp add: accepts_status_def demo_env_def)
  ultimately show ?thesis
    using Handle_updates [OF fair_iter_rev, of ?inst w demo_spec demo_env] w demo_client_any [of w] by (auto 0 4)
qed

text \<open>C15: when an update that removes a metric succeeds, the next update that does not bring the metric back
  panics, whatever it changes: the stop channel stays in the map after it has been closed, and is
  closed again.\<close>

theorem update_after_removal_panics:
  fixes w :: "'c world"
  assumes "fair_iter it" and "fair_iter it'" and "good w" and "wf_spec spec" and "wf_spec spec'" and "no_orphan spec'"
    and "v \<in> coll_dom (shape_of name w)" and "v \<notin> metric_keys spec" and "v \<notin> metric_keys spec'"
    and "handleUpdate it name spec w = (Ret cs, w')"
  shows "\<exists>p t. handleUpdate it' name spec' w' = (Panic p, t)"
proof -
  have "good w'" using handlers_good(2) [OF assms(1,4,3), of name] assms(10) by simp
  then show ?thesis
    using handleUpdate_panics [OF assms(2,5,6) _ assms(9)] handleUpdate_stops [OF assms(1,4,8,7,10)]
    unfolding good_def by blast
qed

theorem update_after_removal_panics_witness:
  "\<exists>cs w' p t. handleUpdate (\<lambda>_ ks. ks) demo_name (spec_of [] []) (channel_world False) = (Ret cs, w') \<and>
     handleUpdate (\<lambda>_. rev) demo_name demo_spec w' = (Panic p, t)"
proof -
  have "fst (handleUpdate (\<lambda>_ ks. ks) demo_name (spec_of [] []) (channel_world False)) = Ret []"
    by code_simp
  then obtain cs w' where "handleUpdate (\<lambda>_ ks. ks) demo_name (spec_of [] []) (channel_world False) = (Ret cs, w')"
    by (metis prod.collapse)
  moreover from update_after_removal_panics [OF fair_iter_id fair_iter_rev channel_good _ _ _ _ _ _ this,
      where spec' = demo_spec and v = "''cpu$num$sum(delta(http_requests_total[30s]))''"]
  have "\<exists>p t. handleUpdate (\<lambda>_. rev) demo_name demo_spec w' = (Panic p, t)"
    using demo_valid by (simp add: channel_shape valid_spec_def) (simp add: wf_spec_def spec_of_def metric_keys_def
        demo_spec_def sample_metric_def NoModelKey_def)
  ultimately show ?thesis by blast
qed

text \<open>C18: a metric that was removed and is added again gets no worker: after the handler of the
  collectors has returned, its key is in the map of the stop channels and not in the map of the
  workers.\<close>

theorem readded_metric_has_no_worker:
  fixes w :: "'c world"
  assumes "fair_iter it" and "wf_spec spec" and "good w"
    and "v \<in> coll_dom (shape_of name w)" and "v \<notin> worker_dom (shape_of name w)" and "v \<in> metric_keys spec"
    and "handleCollector it name spec w = (Ret cs, w')"
  shows "v \<in> coll_dom (shape_of name w') \<and> v \<notin> worker_dom (shape_of name w')"
proof -
  let ?s = "shape_of name w"
  have "triple (\<lambda>w. in_shape name ?s w \<and> can_start (world_ok :: 'c world \<Rightarrow> bool) (pCollector w)) (handleCollector it name spec)
      (\<lambda>_. in_shape name (?s\<lparr>worker_dom := workers_after ?s spec, coll_dom := coll_dom ?s \<union> metric_keys spec\<rparr>))
      (world_ok :: 'c world \<Rightarrow> bool)"
    by (rule handleCollector_triple [OF assms(1,2)]) simp
  from triple_Ret [OF this _ assms(7)] have
    "shape_of name w' = ?s\<lparr>worker_dom := workers_after ?s spec, coll_dom := coll_dom ?s \<union> metric_keys spec\<rparr>"
    using assms(3) by (auto simp: good_def in_shape_def can_start_def)
  with assms(4-6) show ?thesis by (simp add: workers_after_def)
qed

theorem readded_metric_has_no_worker_witness:
  "\<exists>cs w'. handleCollector (\<lambda>_ ks. ks) demo_name (spec_of [(''m'', sample_metric ''cpu'' ''50'' 100)] []) (channel_world True) =
       (Ret cs, w') \<and> ''cpu$num$sum(delta(http_requests_total[30s]))'' \<notin> worker_dom (shape_of demo_name w')"
proof -
  let ?spec = "spec_of [(''m'', sample_metric ''cpu'' ''50'' 100)] []"
  have "fst (handleCollector (\<lambda>_ ks. ks) demo_name ?spec (channel_world True)) =
      Ret [status_collector (sample_metric ''cpu'' ''50'' 100)]"
    by code_simp
  then obtain w' where run: "handleCollector (\<lambda>_ ks. ks) demo_name ?spec (channel_world True) =
      (Ret [status_collector (sample_metric ''cpu'' ''50'' 100)], w')"
    by (metis prod.collapse)
  have "''cpu$num$sum(delta(http_requests_total[30s]))'' \<in> metric_keys ?spec" "wf_spec ?spec"
    by (simp_all add: metric_keys_def spec_of_def sample_metric_def NoModelKey_def wf_spec_def wf_map_def keys_def)
  with readded_metric_has_no_worker [OF fair_iter_id _ channel_good _ _ _ run,
      of "''cpu$num$sum(delta(http_requests_total[30s]))''"] run
  show ?thesis by (auto simp: channel_shape)
qed

end
