(* ===== verification/Aliasing.thy ===== *)
theory Aliasing
  imports Removal
begin

text \<open>
  The maps of metrics and models hold addresses of loop variables: how many different objects they
  can reach after the first reconciliation.
\<close>

section \<open>Addresses in a map\<close>

definition cells_of :: "addr ConcurrentMap \<Rightarrow> addr set" where
  "cells_of m = ran (map_of (cm_data m))"

lemma cells_of_subset: "cells_of m \<subseteq> A \<longleftrightarrow> (\<forall>k a. map_of (cm_data m) k = Some a \<longrightarrow> a \<in> A)"
  by (auto simp: cells_of_def ran_def)

lemma cells_of_Store: "cells_of m \<subseteq> A \<Longrightarrow> a \<in> A \<Longrightarrow> cm_Store m k a = Ret m' \<Longrightarrow> cells_of m' \<subseteq> A"
  unfolding cells_of_subset by (auto simp: cm_Store_def cm_data_def update_conv' split: option.splits if_splits)

lemma cells_of_Delete: "cells_of m \<subseteq> A \<Longrightarrow> cells_of (cm_Delete m k) \<subseteq> A"
  unfolding cells_of_subset by (auto simp: cm_Delete_def cm_data_def delete_conv' split: option.splits if_splits)

text \<open>One of the maps of an instance, read by \<open>get\<close> and written by \<open>upd\<close>.\<close>

definition reaches :: "(Hide \<Rightarrow> addr ConcurrentMap) \<Rightarrow> NamespacedName \<Rightarrow> addr set \<Rightarrow> 'c world \<Rightarrow> bool" where
  "reaches get name A w \<longleftrightarrow> cells_of (get (the_hide name w)) \<subseteq> A"

lemma reaches_vars [simp]:
  "reaches get name A (w\<lparr>metric_vars := ms\<rparr>) = reaches get name A w"
  "reaches get name A (w\<lparr>model_vars := mds\<rparr>) = reaches get name A w"
  by (simp_all add: reaches_def the_hide_def)

lemma reaches_set_vars [simp]:
  "reaches get name A (set_metric_var a m w) = reaches get name A w"
  "reaches get name A (set_model_var a md w) = reaches get name A w"
  by (simp_all add: set_metric_var_def set_model_var_def)

lemma reaches_mono: "reaches get name A w \<Longrightarrow> A \<subseteq> B \<Longrightarrow> reaches get name B w"
  by (auto simp: reaches_def)

abbreviation anyway :: "'c world \<Rightarrow> bool" where
  "anyway \<equiv> \<lambda>_. True"

lemma reaches_GetHide: "triple (reaches get name A) (GetHide name) (\<lambda>_. reaches get name A) anyway"
  by (auto simp: triple_def reaches_def split: prod.splits go.splits) (metis snd_conv the_hide_GetHide subsetD)

lemma reaches_store:
  assumes "\<And>m h. get (upd (\<lambda>_. m) h) = m" and "a \<in> A"
  shows "triple (reaches get name A) (store_in get upd name k a) (\<lambda>_. reaches get name A) anyway"
  using assms cells_of_Store by (auto simp: triple_def reaches_def store_in_def split: go.splits)

lemma reaches_storeD:
  "store_in get upd name k a w = (Ret u, t) \<Longrightarrow> reaches get name A w \<Longrightarrow> a \<in> A \<Longrightarrow>
    (\<And>m h. get (upd (\<lambda>_. m) h) = m) \<Longrightarrow> reaches get name A t"
  by (rule triple_Ret [OF reaches_store])

lemma reaches_delete:
  assumes "\<And>f h. get (upd f h) = f (get h)"
  shows "triple (reaches get name A) (delete_in upd name k) (\<lambda>_. reaches get name A) anyway"
  unfolding delete_in_def
  by (rule triple_modify) (use assms cells_of_Delete in \<open>simp add: reaches_def\<close>)

lemma reaches_each:
  "(\<And>x. x \<in> set xs \<Longrightarrow> triple (reaches get name A) (f x) (\<lambda>_. reaches get name A) anyway) \<Longrightarrow>
    triple (reaches get name A) (each_act f xs) (\<lambda>_. reaches get name A) anyway"
  by (rule triple_each [where I = "\<lambda>_. reaches get name A"]) simp

lemma reaches_prune:
  assumes "\<And>f h. get (upd f h) = f (get h)"
  shows "triple (reaches get name A)
    (each_act (\<lambda>k. if k \<in> K then return_act () else delete_in upd name k) ks) (\<lambda>_. reaches get name A) anyway"
  by (rule reaches_each) (auto intro!: triple_return reaches_delete assms)

section \<open>Metrics\<close>

lemma reaches_add_metric:
  "a \<in> A \<Longrightarrow> triple (reaches MetricMap name A) (add_metric name a m) (\<lambda>_. reaches MetricMap name A) anyway"
  by (auto simp: triple_def add_metric_def Let_def split: go.splits prod.splits dest: reaches_storeD)

lemma reaches_change:
  assumes "b \<in> A"
  shows "triple (reaches MetricMap name A) (change_metrics name b ms :: ('c world, unit) act) (\<lambda>_. reaches MetricMap name A) anyway"
proof (induction ms)
  case (Cons m ms)
  have "triple (reaches MetricMap name A) (bind_act (store_in MetricMap MetricMap_update name (NoModelKey m) b)
      (\<lambda>_. change_metrics name b ms) :: ('c world, unit) act) (\<lambda>_. reaches MetricMap name A) anyway"
    by (rule triple_bind [OF reaches_store [OF _ assms] Cons.IH]) simp
  note step = triple_Ret [OF this, rotated]
  show ?case
    by (auto simp: triple_def Let_def split: go.splits prod.splits option.splits intro: step)
qed (simp add: triple_def)

text \<open>A new variable is a new cell, and stays one.\<close>

lemma new_metric_cell:
  "triple (reaches get name A) new_metric_var (\<lambda>a. reaches get name (insert a A)) anyway"
  by (auto simp: triple_def new_metric_var_def alloc_def split: prod.splits) (auto simp: reaches_def)

lemma new_model_cell:
  "triple (reaches get name A) new_model_var (\<lambda>a. reaches get name (insert a A)) anyway"
  by (auto simp: triple_def new_model_var_def alloc_def split: prod.splits) (auto simp: reaches_def)

lemma handleMetrics_cells:
  "triple (reaches MetricMap name {}) (handleMetrics it name spec) (\<lambda>_ w. \<exists>a b. reaches MetricMap name {a, b} w) anyway"
  unfolding handleMetrics_def
proof (rule triple_bind [OF reaches_GetHide], rule triple_bind [OF new_metric_cell])
  fix a
  have add: "triple (reaches MetricMap name {a}) (each_act (add_metric name a) (spec_metrics it 1 spec)) (\<lambda>_. reaches MetricMap name {a}) anyway"
    by (rule reaches_each) (simp add: reaches_add_metric)
  have change: "triple (reaches MetricMap name {b, a}) (change_metrics name b (spec_metrics it 3 spec))
      (\<lambda>_ w. \<exists>a b. reaches MetricMap name {a, b} w) anyway" for b
    by (rule triple_weaken [OF reaches_change [of b "{b, a}"]]) auto
  show "triple (reaches MetricMap name {a}) (bind_act (each_act (add_metric name a) (spec_metrics it 1 spec)) (\<lambda>_.
     bind_act (read_act (\<lambda>w. it 2 (keys (cm_data (MetricMap (the_hide name w)))))) (\<lambda>ks.
     bind_act (each_act (\<lambda>nmk. if nmk \<in> metric_keys spec then return_act ()
                                else delete_in MetricMap_update name nmk) ks) (\<lambda>_.
     bind_act new_metric_var (\<lambda>b. change_metrics name b (spec_metrics it 3 spec))))))
    (\<lambda>_ w. \<exists>a b. reaches MetricMap name {a, b} w) anyway"
    by (rule triple_bind [OF add], rule triple_bind [where R = "\<lambda>_. reaches MetricMap name {a}"],
        rule triple_read, assumption, rule triple_bind [OF reaches_prune], simp,
        rule triple_bind [OF new_metric_cell change])
qed

section \<open>Models\<close>

lemma reaches_handle_model:
  assumes "b \<in> A"
  shows "triple (reaches ModelMap name A) (handle_model name b metric model maps :: ('c world, model_maps) act)
    (\<lambda>_. reaches ModelMap name A) anyway"
proof -
  have "triple (reaches ModelMap name A) (bind_act (store_in ModelMap ModelMap_update name k b) (\<lambda>_. return_act x) :: ('c world, model_maps) act)
      (\<lambda>_. reaches ModelMap name A) anyway" for k x
    by (rule triple_bind [OF reaches_store [OF _ assms]]) (auto intro: triple_return)
  note step = triple_Ret [OF this, rotated]
  show ?thesis
    by (auto simp: triple_def handle_model_def Let_def split: go.splits prod.splits option.splits intro: step)
qed

text \<open>At most \<open>n\<close> cells.\<close>

definition few :: "nat \<Rightarrow> (Hide \<Rightarrow> addr ConcurrentMap) \<Rightarrow> NamespacedName \<Rightarrow> 'c world \<Rightarrow> bool" where
  "few n get name w \<longleftrightarrow> (\<exists>A. finite A \<and> card A \<le> n \<and> reaches get name A w)"

lemma few_intro:
  "(\<And>A. finite A \<Longrightarrow> card A \<le> n \<Longrightarrow> triple (reaches get name A) m Q E) \<Longrightarrow> triple (few n get name) m Q E"
  unfolding triple_def few_def by (intro allI impI, elim exE conjE) simp

lemma reaches_few: "reaches get name A w \<Longrightarrow> finite A \<Longrightarrow> card A \<le> n \<Longrightarrow> few n get name w"
  unfolding few_def by blast

lemma few_handle_metric_models:
  "triple (few n ModelMap name) (handle_metric_models name spec e maps) (\<lambda>_. few (Suc n) ModelMap name) (anyway :: 'c world \<Rightarrow> bool)"
proof (rule few_intro)
  fix A :: "addr set" assume A: "finite A" "card A \<le> n"
  show "triple (reaches ModelMap name A) (handle_metric_models name spec e maps) (\<lambda>_. few (Suc n) ModelMap name)
      (anyway :: 'c world \<Rightarrow> bool)"
  proof (cases "map_of (Metrics spec) (fst e)")
    case None
    then show ?thesis by (simp add: handle_metric_models_def split_beta triple_def)
  next
    case (Some m)
    have "triple (reaches ModelMap name (insert b A)) (fold_act (handle_model name b m) (snd e) maps)
        (\<lambda>_. few (Suc n) ModelMap name) (anyway :: 'c world \<Rightarrow> bool)" for b
    proof (rule triple_weaken [OF triple_fold [where I = "\<lambda>_ _. reaches ModelMap name (insert b A)"]])
      show "triple (reaches ModelMap name (insert b A)) (handle_model name b m x a) (\<lambda>_. reaches ModelMap name (insert b A)) anyway" for x a
        by (rule reaches_handle_model) simp
      show "reaches ModelMap name (insert b A) w \<Longrightarrow> few (Suc n) ModelMap name w" for w :: "'c world"
        by (erule reaches_few) (use A in \<open>simp_all add: card_insert_if\<close>)
    qed simp_all
    from triple_bind [OF new_model_cell this] Some show ?thesis
      by (simp add: handle_metric_models_def split_beta)
  qed
qed

lemma handleModels_cells:
  assumes "fair_iter it"
  shows "triple (reaches ModelMap name {}) (handleModels it name spec)
    (\<lambda>_. few (length (Models spec)) ModelMap name) (anyway :: 'c world \<Rightarrow> bool)"
proof -
  let ?es = "entries it 4 (Models spec)" and ?few = "\<lambda>n. few n ModelMap name"
  have "triple (?few (length ([] :: (string \<times> Model list) list))) (fold_act (handle_metric_models name spec) ?es ([], []))
      (\<lambda>_. ?few (length ?es)) (anyway :: 'c world \<Rightarrow> bool)"
    by (rule triple_fold [where I = "\<lambda>es _. ?few (length es)"]) (simp add: few_handle_metric_models)
  then have loop: "triple (?few 0) (fold_act (handle_metric_models name spec) ?es ([], [])) (\<lambda>_. ?few (length ?es))
      (anyway :: 'c world \<Rightarrow> bool)" by simp
  have prune: "triple (?few n) (each_act (\<lambda>k. if k \<in> K then return_act () else delete_in ModelMap_update name k) ks) (\<lambda>_. ?few n)
      (anyway :: 'c world \<Rightarrow> bool)" for n K ks
    by (rule few_intro, rule triple_weaken [OF reaches_prune]) (auto intro: reaches_few)
  have rest: "triple (?few n) (bind_act (read_act f) (\<lambda>ks. bind_act
      (each_act (\<lambda>k. if k \<in> K then return_act () else delete_in ModelMap_update name k) ks) (\<lambda>_. return_act x)))
      (\<lambda>_. ?few n) (anyway :: 'c world \<Rightarrow> bool)" for n f K x
    by (rule triple_bind [OF triple_read triple_bind [OF prune triple_return]])
  have none: "reaches ModelMap name {} w \<Longrightarrow> ?few 0 w" for w :: "'c world" by (erule reaches_few) simp_all
  have first: "triple (reaches ModelMap name {}) (fold_act (handle_metric_models name spec) ?es ([], []))
      (\<lambda>_. ?few (length ?es)) (anyway :: 'c world \<Rightarrow> bool)"
    by (rule triple_weaken [OF loop none])
  have "triple (reaches ModelMap name {}) (handleModels it name spec) (\<lambda>_. ?few (length ?es)) (anyway :: 'c world \<Rightarrow> bool)"
    unfolding handleModels_def
    by (rule triple_bind [OF reaches_GetHide], rule triple_bind [OF first])
      (simp_all add: split_beta rest)
  then show ?thesis by (simp only: length_entries [OF assms])
qed

section \<open>Properties\<close>

definition found :: "(Hide \<Rightarrow> addr ConcurrentMap) \<Rightarrow> 'v store \<Rightarrow> Hide \<Rightarrow> 'v set" where
  "found get vars h = {x. \<exists>k a. cm_Load (get h) k = Ret a \<and> deref vars a = Some x}"

lemma found_card:
  assumes "few n get name w"
  shows "card (found get vars (the_hide name w)) \<le> n"
proof -
  from assms obtain A where A: "finite A" "card A \<le> n" "reaches get name A w" by (auto simp: few_def)
  have "found get vars (the_hide name w) \<subseteq> (\<lambda>a. the (deref vars a)) ` A"
    using A(3) by (auto simp: found_def reaches_def cells_of_subset cm_Load_Ret_iff image_iff) force
  then have "card (found get vars (the_hide name w)) \<le> card ((\<lambda>a. the (deref vars a)) ` A)"
    using A(1) by (intro card_mono) auto
  also have "\<dots> \<le> n" using card_image_le [OF A(1)] A(2) by (rule order_trans)
  finally show ?thesis .
qed

lemma fresh_reaches:
  assumes "map_of (globalStore w) name = None"
  shows "reaches MetricMap name {} w" "reaches ModelMap name {} w"
  using assms by (simp_all add: reaches_def the_hide_def Hide_Init_def new_Hide_def cells_of_def cm_init_def cm_data_def)

text \<open>C16: the first time an instance's metrics are stored, however many the spec has, all the entries of
  the map together lead to at most two different metrics: the entries are the addresses of the
  variables of the two loops, and every iteration overwrites the variable.\<close>

theorem metrics_share_variables:
  assumes "map_of (globalStore w) name = None" and "handleMetrics it name spec w = (Ret (), w')"
  shows "card (found MetricMap (metric_vars w') (the_hide name w')) \<le> 2"
proof -
  obtain a b where "reaches MetricMap name {a, b} w'"
    using triple_Ret [OF handleMetrics_cells fresh_reaches(1) [OF assms(1)] assms(2)] by blast
  then have "few 2 MetricMap name w'" by (rule reaches_few) (simp_all add: card_insert_if)
  then show ?thesis by (rule found_card)
qed

definition three_metrics :: AOMSpec where
  "three_metrics = spec_of [(''a'', sample_metric ''cpu'' ''50'' 40), (''b'', sample_metric ''mem'' ''60'' 30),
     (''c'', sample_metric ''net'' ''70'' 30)] []"

definition two_models :: AOMSpec where
  "two_models = spec_of [(''a'', sample_metric ''cpu'' ''50'' 40)]
     [(''a'', [demo_model, \<lparr>Type = ''holt_winter'', NeedTrain = False, UpdateInterval = 0, Attr = Some []\<rparr>])]"

lemma start_in_shape: "in_shape name empty_shape (start_world :: 'c world)"
proof -
  have "shape_of name (start_world :: 'c world) = empty_shape" by (rule shape_fresh) (simp add: start_world_def)
  moreover have "good (start_world :: 'c world)" by (rule start_good)
  ultimately show ?thesis by (simp add: good_def in_shape_def)
qed

lemma example_specs: "wf_spec three_metrics" "wf_spec two_models" "no_orphan two_models"
  by (simp_all add: three_metrics_def two_models_def spec_of_def wf_spec_def wf_map_def keys_def no_orphan_def)

lemma example_keys: "card (metric_keys three_metrics) = 3" "card (model_keys two_models) = 2"
  by (simp_all add: metric_keys_def three_metrics_def spec_of_def sample_metric_def NoModelKey_def model_keys_def
      model_pairs_def two_models_def entry_pairs_def demo_model_def WithModelKey_def)

theorem metrics_share_variables_witness:
  "\<exists>w'. handleMetrics (\<lambda>_ ks. ks) demo_name three_metrics (start_world :: (target \<Rightarrow> int32) world) = (Ret (), w') \<and>
     card (found MetricMap (metric_vars w') (the_hide demo_name w')) < card (metric_dom (shape_of demo_name w'))"
proof -
  obtain w' where w': "handleMetrics (\<lambda>_ ks. ks) demo_name three_metrics (start_world :: (target \<Rightarrow> int32) world) = (Ret (), w')"
    "in_shape demo_name (empty_shape\<lparr>metric_dom := metric_keys three_metrics\<rparr>) w'"
    using triple_returnsD [OF handleMetrics_triple [OF fair_iter_id example_specs(1)] start_in_shape [of demo_name, where 'c = "target \<Rightarrow> int32"]]
    by auto
  have "card (found MetricMap (metric_vars w') (the_hide demo_name w')) \<le> 2"
    by (rule metrics_share_variables [OF _ w'(1)]) (simp add: start_world_def)
  with w' show ?thesis by (auto simp: in_shape_def example_keys)
qed

text \<open>C17: the first time an instance's models are stored, the entries of the map together lead to at most
  one model for each metric that has models, however many models the metrics have.\<close>

theorem models_share_variables:
  assumes "fair_iter it" and "map_of (globalStore w) name = None" and "handleModels it name spec w = (Ret ch, w')"
  shows "card (found ModelMap (model_vars w') (the_hide name w')) \<le> length (Models spec)"
  by (rule found_card [OF triple_Ret [OF handleModels_cells [OF assms(1)] fresh_reaches(2) [OF assms(2)] assms(3)]])

theorem models_share_variables_witness:
  "\<exists>ch w'. handleModels (\<lambda>_ ks. ks) demo_name two_models (start_world :: (target \<Rightarrow> int32) world) = (Ret ch, w') \<and>
     card (found ModelMap (model_vars w') (the_hide demo_name w')) < card (model_dom (shape_of demo_name w'))"
proof -
  have "\<exists>ch w'. handleModels (\<lambda>_ ks. ks) demo_name two_models (start_world :: (target \<Rightarrow> int32) world) = (Ret ch, w') \<and>
    in_shape demo_name (empty_shape\<lparr>model_dom := model_keys two_models\<rparr>) w'"
    using triple_returnsD [OF handleModels_triple [OF fair_iter_id example_specs(2)] start_in_shape [of demo_name, where 'c = "target \<Rightarrow> int32"]]
      example_specs(3) by blast
  then obtain ch w' where w': "handleModels (\<lambda>_ ks. ks) demo_name two_models (start_world :: (target \<Rightarrow> int32) world) = (Ret ch, w')"
    "in_shape demo_name (empty_shape\<lparr>model_dom := model_keys two_models\<rparr>) w'" by blast
  have "card (found ModelMap (model_vars w') (the_hide demo_name w')) \<le> length (Models two_models)"
    by (rule models_share_variables [OF fair_iter_id _ w'(1)]) (simp add: start_world_def)
  also have "length (Models two_models) = 1" by (simp add: two_models_def spec_of_def)
  finally show ?thesis using w' by (auto simp: in_shape_def example_keys)
qed

end
