(* ===== verification/Scheduler.thy ===== *)
theory Scheduler
  imports Controller
begin

text \<open>
  scheduler/scheduler.go: one tick of the loop \<open>Run\<close>. The tick starts a goroutine for each predictor
  and trains, between two starts, the models that need it; it then waits for all of them. A
  prediction and a training are steps of their own. The oracle \<open>tick_order\<close> is the order in which
  they happen; the theorems hold for every permutation, which includes all the orders the run time
  can choose. The result channel has room for every predictor, so no goroutine waits for a reader,
  and it hands the results out in the order they were sent in.
\<close>

record ResPair =
  modelReplica :: "int32 list"
  rp_withModelKey :: string

text \<open>A prediction knows its key, its predictor and the variable its metric is in; a training its
  predictor.\<close>

datatype task = PredictTask string addr addr | TrainTask addr

record 'c tick_env =
  tick_gru :: gru_libs
  tick_k8s :: "'c k8s_libs"
  tick_oob :: "f64 \<Rightarrow> int32"
  tick_now :: int
  tick_iter :: iter
  tick_order :: "task list \<Rightarrow> task list"

text \<open>The state of a tick: the shared state, and the cluster.\<close>

type_synonym 'c state = "'c world \<times> 'c"

section \<open>Starting the goroutines\<close>

definition train_due :: "int \<Rightarrow> Hide \<Rightarrow> string \<Rightarrow> Model \<Rightarrow> bool" where
  "train_due now h withModelKey model =
     (case cm_Load (TrainHistory h) withModelKey of
        Ret lastTime \<Rightarrow> lastTime + seconds (UpdateInterval model) < now
      | _ \<Rightarrow> True)"

definition tasks_for :: "int \<Rightarrow> 'c world \<Rightarrow> Hide \<Rightarrow> string \<times> addr \<Rightarrow> task list go" where
  "tasks_for now w h entry =
     (let (withModelKey, pred) = entry
      in case cm_Load (ModelMap h) withModelKey of
           Ret ma \<Rightarrow>
             (case cm_Load (MetricMap h) (GetNoModelKey withModelKey) of
                Ret metric \<Rightarrow>
                  (case deref (model_vars w) ma of
                     None \<Rightarrow> Panic NilDereference
                   | Some model \<Rightarrow>
                       Ret (PredictTask withModelKey pred metric #
                            (if NeedTrain model \<and> train_due now h withModelKey model then [TrainTask pred] else [])))
              | _ \<Rightarrow> Ret [])
         | _ \<Rightarrow> Ret [])"

definition scheduled :: "'c tick_env \<Rightarrow> 'c world \<Rightarrow> Hide \<Rightarrow> task list go" where
  "scheduled env w h =
     fold_go (\<lambda>entry ts. map_go (\<lambda>new. ts @ new) (tasks_for (tick_now env) w h entry))
       (entries (tick_iter env) 20 (cm_data (PredictorMap h))) []"

section \<open>The goroutines\<close>

text \<open>\<open>None\<close> is a prediction that never returns: the tick then waits for ever.\<close>

definition predict_task ::
  "'c tick_env \<Rightarrow> Scaler option \<Rightarrow> string \<Rightarrow> addr \<Rightarrow> addr \<Rightarrow> 'c state \<Rightarrow> (ResPair list go \<times> 'c state) option" where
  "predict_task env scr withModelKey pred metric st =
     (let (w, cl) = st
      in case deref (predictors w) pred of
           None \<Rightarrow> Some (Panic NilDereference, (w, cl))
         | Some p \<Rightarrow>
             (case deref (collectors w) (pred_collector p) of
                None \<Rightarrow> Some (Panic NilDereference, (w, cl))
              | Some c \<Rightarrow>
                  (case pred_Predict (tick_gru env) p c of
                     None \<Rightarrow> None
                   | Some (r, c') \<Rightarrow>
                       (let w = w\<lparr>collectors := assign (pred_collector p) c' (collectors w)\<rparr>
                        in case r of
                             Panic x \<Rightarrow> Some (Panic x, (w, cl))
                           | Err e \<Rightarrow> Some (Ret [], (w, cl))
                           | Ret pResult \<Rightarrow>
                               (case deref (metric_vars w) metric of
                                  None \<Rightarrow> Some (Panic NilDereference, (w, cl))
                                | Some m \<Rightarrow>
                                    (case ParseFloat (Target m) of
                                       Panic x \<Rightarrow> Some (Panic x, (w, cl))
                                     | Err e \<Rightarrow> Some (Ret [], (w, cl))
                                     | Ret targetVal \<Rightarrow>
                                         (case GetModelReplica (tick_k8s env) (k8s_client w) scr (PredictMetric pResult)
                                                 (StartMetric pResult) (UnderThreshold (tick_oob env)) targetVal cl of
                                            (Panic x, cl') \<Rightarrow> Some (Panic x, (w, cl'))
                                          | (Err e, cl') \<Rightarrow> Some (Ret [], (w, cl'))
                                          | (Ret replicas, cl') \<Rightarrow>
                                              Some (Ret [\<lparr>modelReplica = replicas, rp_withModelKey = withModelKey\<rparr>],
                                                    (w, cl')))))))))"

text \<open>A GRU training that was handed over leaves a goroutine that waits for its end.\<close>

definition train_task :: "'c tick_env \<Rightarrow> addr \<Rightarrow> 'c state \<Rightarrow> ResPair list go \<times> 'c state" where
  "train_task env pred st =
     (let (w, cl) = st
      in case deref (predictors w) pred of
           None \<Rightarrow> (Panic NilDereference, (w, cl))
         | Some p \<Rightarrow>
             (case deref (collectors w) (pred_collector p) of
                None \<Rightarrow> (Panic NilDereference, (w, cl))
              | Some c \<Rightarrow>
                  (let (r, c') = pred_Train (tick_gru env) p c;
                       w = w\<lparr>collectors := assign (pred_collector p) c' (collectors w)\<rparr>
                   in case r of
                        Panic x \<Rightarrow> (Panic x, (w, cl))
                      | Err e \<Rightarrow> (Ret [], (w, cl))
                      | Ret _ \<Rightarrow>
                          (Ret [], (case p of
                                      GruPredictor _ \<Rightarrow> w\<lparr>goroutines := goroutines w @ [WaitLoop pred]\<rparr>
                                    | HwPredictor _ \<Rightarrow> w, cl)))))"

fun run_task :: "'c tick_env \<Rightarrow> Scaler option \<Rightarrow> task \<Rightarrow> 'c state \<Rightarrow> (ResPair list go \<times> 'c state) option" where
  "run_task env scr (PredictTask k pred metric) st = predict_task env scr k pred metric st"
| "run_task env scr (TrainTask pred) st = Some (train_task env pred st)"

text \<open>All of them, until the wait group is empty: the results in the order they were sent in.\<close>

fun run_tasks ::
  "'c tick_env \<Rightarrow> Scaler option \<Rightarrow> task list \<Rightarrow> ResPair list \<Rightarrow> 'c state \<Rightarrow> (ResPair list go \<times> 'c state) option" where
  "run_tasks env scr [] results st = Some (Ret results, st)"
| "run_tasks env scr (t # ts) results st =
     (case run_task env scr t st of
        None \<Rightarrow> None
      | Some (Ret rs, st') \<Rightarrow> run_tasks env scr ts (results @ rs) st'
      | Some (Err e, st') \<Rightarrow> Some (Err e, st')
      | Some (Panic x, st') \<Rightarrow> Some (Panic x, st'))"

section \<open>Aggregating the results\<close>

text \<open>The predicted counts of each metric's models.\<close>

definition add_result :: "ResPair \<Rightarrow> (string, int32 list list) gomap \<Rightarrow> (string, int32 list list) gomap" where
  "add_result pair modelReplicas =
     (let noModelKey = GetNoModelKey (rp_withModelKey pair)
      in case map_of modelReplicas noModelKey of
           None \<Rightarrow> AList.update noModelKey [modelReplica pair] modelReplicas
         | Some rs \<Rightarrow> AList.update noModelKey (rs @ [modelReplica pair]) modelReplicas)"

definition model_replicas :: "ResPair list \<Rightarrow> (string, int32 list list) gomap" where
  "model_replicas results = fold add_result results []"

text \<open>One list for each metric, aggregated over its models.\<close>

definition metric_replicas :: "iter \<Rightarrow> (string, int32 list list) gomap \<Rightarrow> (string, int32 list) gomap go" where
  "metric_replicas it modelReplicas =
     fold_go (\<lambda>(noModelKey, modelReplica) metricReplicas.
         and_then (GetMetricReplica modelReplica MaxStrategy) (\<lambda>r.
           Ret (AList.update noModelKey r metricReplicas)))
       (entries it 21 modelReplicas) []"

definition weighted :: "iter \<Rightarrow> 'c world \<Rightarrow> Hide \<Rightarrow> (string, int32 list) gomap \<Rightarrow> int32 list list go" where
  "weighted it w h metricReplicas =
     fold_go (\<lambda>(noModelKey, metricReplica) mReplicas.
         case cm_Load (MetricMap h) noModelKey of
           Ret a \<Rightarrow>
             (case deref (metric_vars w) a of
                None \<Rightarrow> Panic NilDereference
              | Some metric \<Rightarrow> Ret (mReplicas @ [MulSlice (Weight metric) metricReplica]))
         | _ \<Rightarrow> Ret mReplicas)
       (entries it 22 metricReplicas) []"

definition decide :: "iter \<Rightarrow> 'c world \<Rightarrow> Hide \<Rightarrow> ResPair list \<Rightarrow> int32 go" where
  "decide it w h results =
     and_then (metric_replicas it (model_replicas results)) (\<lambda>metricReplicas.
     and_then (weighted it w h metricReplicas) (\<lambda>mReplicas.
     and_then (AddSlice mReplicas) (\<lambda>objSet.
     and_then (GetScaleReplica objSet SelectMax) (\<lambda>targetReplica.
       quot32 targetReplica 100))))"

section \<open>The loop\<close>

definition tick :: "'c tick_env \<Rightarrow> Scheduler \<Rightarrow> 'c state \<Rightarrow> (unit go \<times> 'c state) option" where
  "tick env s st =
     (let (w, cl) = st;
          w = snd (GetHide (sched_Name s) w);
          h = the_hide (sched_Name s) w;
          scr = hide_Scaler h
      in case scheduled env w h of
           Err e \<Rightarrow> Some (Err e, (w, cl))
         | Panic x \<Rightarrow> Some (Panic x, (w, cl))
         | Ret ts \<Rightarrow>
             (case run_tasks env scr (tick_order env ts) [] (w, cl) of
                None \<Rightarrow> None
              | Some (Err e, st') \<Rightarrow> Some (Err e, st')
              | Some (Panic x, st') \<Rightarrow> Some (Panic x, st')
              | Some (Ret results, (w, cl)) \<Rightarrow>
                  if results = [] then Some (Ret (), (w, cl))
                  else
                    (case decide (tick_iter env) w (the_hide (sched_Name s) w) results of
                       Err e \<Rightarrow> Some (Err e, (w, cl))
                     | Panic x \<Rightarrow> Some (Panic x, (w, cl))
                     | Ret replica \<Rightarrow>
                         (case UpTo (tick_k8s env) (k8s_client w) scr replica cl of
                            (Panic x, cl') \<Rightarrow> Some (Panic x, (w, cl'))
                          | (_, cl') \<Rightarrow> Some (Ret (), (w, cl'))))))"

text \<open>\<open>time.NewTicker\<close> panics when the interval is not positive.\<close>

definition NewTicker :: "int \<Rightarrow> unit go" where
  "NewTicker d = (if 0 < d then Ret () else Panic NonPositiveTicker)"

definition Run_start :: "Scheduler \<Rightarrow> unit go" where
  "Run_start s = NewTicker (Interval s)"

end
