(* ===== verification/SchedulerSpec.thy ===== *)
theory SchedulerSpec
  imports Scheduler HandleSpec HoltWinterSpec
begin

text \<open>
  What a tick of the scheduler changes, what it decides, and how the decision follows from the
  predictions.
\<close>

section \<open>What a tick changes of the shared state\<close>

text \<open>Collectors hand samples out and goroutines are started; everything else stays.\<close>

definition only_samples :: "'c world \<Rightarrow> 'c world \<Rightarrow> bool" where
  "only_samples w w' \<longleftrightarrow>
     (\<exists>cs gs. w' = w\<lparr>collectors := cs, goroutines := goroutines w @ gs\<rparr> \<and> length cs = length (collectors w) \<and>
        (\<forall>a < length cs. mc_NoModelKey (cs ! a) = mc_NoModelKey (collectors w ! a)) \<and>
        (\<forall>g \<in> set gs. \<exists>a p. g = WaitLoop a \<and> deref (predictors w) a = Some (GruPredictor p)))"

lemma only_samples_refl [simp]: "only_samples w w"
  unfolding only_samples_def by (rule exI [of _ "collectors w"], rule exI [of _ "[]"]) simp

lemma only_samplesI:
  "length cs = length (collectors w) \<Longrightarrow> (\<And>a. a < length cs \<Longrightarrow> mc_NoModelKey (cs ! a) = mc_NoModelKey (collectors w ! a)) \<Longrightarrow>
    \<forall>g \<in> set gs. \<exists>a p. g = WaitLoop a \<and> deref (predictors w) a = Some (GruPredictor p) \<Longrightarrow>
    only_samples w (w\<lparr>collectors := cs, goroutines := goroutines w @ gs\<rparr>)"
  unfolding only_samples_def by blast

lemma only_samples_trans:
  assumes "only_samples u v" and "only_samples v w"
  shows "only_samples u w"
proof -
  obtain cs gs where v: "v = u\<lparr>collectors := cs, goroutines := goroutines u @ gs\<rparr>" "length cs = length (collectors u)"
    "\<forall>a < length cs. mc_NoModelKey (cs ! a) = mc_NoModelKey (collectors u ! a)"
    "\<forall>g \<in> set gs. \<exists>a p. g = WaitLoop a \<and> deref (predictors u) a = Some (GruPredictor p)"
    using assms(1) by (auto simp: only_samples_def)
  obtain ds hs where w: "w = v\<lparr>collectors := ds, goroutines := goroutines v @ hs\<rparr>" "length ds = length (collectors v)"
    "\<forall>a < length ds. mc_NoModelKey (ds ! a) = mc_NoModelKey (collectors v ! a)"
    "\<forall>g \<in> set hs. \<exists>a p. g = WaitLoop a \<and> deref (predictors v) a = Some (GruPredictor p)"
    using assms(2) by (auto simp: only_samples_def)
  have "w = u\<lparr>collectors := ds, goroutines := goroutines u @ gs @ hs\<rparr>" using v(1) w(1) by simp
  moreover have "only_samples u \<dots>" by (rule only_samplesI) (use v w in auto)
  ultimately show ?thesis by simp
qed

lemma only_samplesD:
  assumes "only_samples w w'"
  shows "globalStore w' = globalStore w" "k8s_client w' = k8s_client w" "metric_vars w' = metric_vars w"
    "model_vars w' = model_vars w" "predictors w' = predictors w" "the_hide n w' = the_hide n w"
    "length (collectors w') = length (collectors w)" "pCollector w' = pCollector w" "promcDone w' = promcDone w" "grows w w'"
  using assms by (auto simp: only_samples_def the_hide_def grows_def cells)

lemma only_samples_assign:
  assumes "a < length (collectors w)" and "mc_NoModelKey c = mc_NoModelKey (collectors w ! a)"
  shows "only_samples w (w\<lparr>collectors := assign a c (collectors w)\<rparr>)"
  unfolding only_samples_def
  by (rule exI [of _ "assign a c (collectors w)"], rule exI [of _ "[]"])
    (use assms in \<open>simp add: assign_def nth_list_update\<close>)

lemma only_samples_wait:
  "deref (predictors w) a = Some (GruPredictor p) \<Longrightarrow> only_samples w (w\<lparr>goroutines := goroutines w @ [WaitLoop a]\<rparr>)"
  unfolding only_samples_def by (rule exI [of _ "collectors w"], rule exI [of _ "[WaitLoop a]"]) simp

lemma train_task_samples:
  assumes "train_task env pred (w, cl) = (r, (w', cl'))"
  shows "only_samples w w' \<and> cl' = cl \<and> (r = Ret [] \<or> (\<exists>x. r = Panic x))"
proof -
  have one: "only_samples w (w\<lparr>collectors := assign (pred_collector p) c' (collectors w)\<rparr>)"
    if "deref (collectors w) (pred_collector p) = Some c" and "pred_Train (tick_gru env) p c = (q, c')" for p c c' q
    using that pred_id.train_collector by (intro only_samples_assign) (auto simp: deref_eq_Some_iff)
  have two: "only_samples w (w\<lparr>collectors := assign (pred_collector p) c' (collectors w), goroutines := goroutines w @ [WaitLoop pred]\<rparr>)"
    if "deref (collectors w) (pred_collector p) = Some c" and "pred_Train (tick_gru env) p c = (q, c')"
      and "deref (predictors w) pred = Some (GruPredictor g)" for p c c' q g
    using only_samples_trans [OF one [OF that(1,2)] only_samples_wait, of pred g] that(3) by simp
  from assms one two show ?thesis
    by (auto simp: train_task_def Let_def simp del: pred_collector.simps pred_Train.simps
        split: option.splits prod.splits go.splits Predictor.Predictor.splits)
qed

lemma predict_task_samples:
  assumes "predict_task env scr k pred metric (w, cl) = Some (r, (w', cl'))"
  shows "only_samples w w' \<and> (cl' = cl \<or> (\<exists>ms st s t. cl' = snd (GetModelReplica (tick_k8s env) (k8s_client w) scr ms st s t cl)))"
proof -
  have "only_samples w (w\<lparr>collectors := assign (pred_collector p) c' (collectors w)\<rparr>)"
    if "deref (collectors w) (pred_collector p) = Some c" and "pred_Predict (tick_gru env) p c = Some (q, c')" for p c c' q
    using that pred_id.predict_collector by (intro only_samples_assign) (auto simp: deref_eq_Some_iff)
  with assms show ?thesis
    by (auto simp: predict_task_def Let_def split: option.splits prod.splits go.splits) (metis snd_conv)+
qed

lemma run_task_samples:
  assumes "run_task env scr t (w, cl) = Some (r, (w', cl'))"
  shows "only_samples w w' \<and> (cl' = cl \<or> (\<exists>ms st s t. cl' = snd (GetModelReplica (tick_k8s env) (k8s_client w) scr ms st s t cl)))"
  using assms train_task_samples [of env _ w cl r w' cl'] predict_task_samples [of env scr _ _ _ w cl r w' cl']
  by (cases t) auto

lemma run_tasks_samples: "run_tasks env scr ts results (w, cl) = Some (r, (w', cl')) \<Longrightarrow> only_samples w w'"
proof (induction ts arbitrary: results w cl)
  case (Cons t ts)
  then obtain q v cv where step: "run_task env scr t (w, cl) = Some (q, (v, cv))"
    by (auto split: option.splits)
  from run_task_samples [OF step] have v: "only_samples w v" ..
  show ?case
  proof (cases q)
    case (Ret rs)
    with Cons.prems step have "run_tasks env scr ts (results @ rs) (v, cv) = Some (r, (w', cl'))" by simp
    from Cons.IH [OF this] v show ?thesis using only_samples_trans by blast
  qed (use Cons.prems step v in auto)
qed simp

section \<open>What a tick changes of the cluster\<close>

text \<open>A cluster that serves the scale target of the scaler.\<close>

definition serves_target ::
  "'c k8s_libs \<Rightarrow> 'c k8s_state \<Rightarrow> ('c \<Rightarrow> target \<Rightarrow> int32 option) \<Rightarrow> Scaler \<Rightarrow> 'c \<Rightarrow> int32 \<Rightarrow> bool" where
  "serves_target lib st view sc cl cur \<longleftrightarrow> serving lib st view \<and> view cl (scaler_target lib sc) = Some cur"

lemma GetModelReplica_served:
  "serves_target lib st view sc cl cur \<Longrightarrow>
    GetModelReplica lib st (Some sc) ms start strategy t cl = (Ret (strategy t start cur ms), cl)"
  unfolding serves_target_def by (elim conjE) (simp add: GetModelReplica_def GetReplica_serving [of lib st view])

lemma run_tasks_served:
  assumes "serves_target (tick_k8s env) (k8s_client w) view sc cl cur"
    and "run_tasks env (Some sc) ts results (w, cl) = Some (r, (w', cl'))"
  shows "only_samples w w' \<and> cl' = cl"
  using assms
proof (induction ts arbitrary: results w)
  case (Cons t ts)
  then obtain q v cv where step: "run_task env (Some sc) t (w, cl) = Some (q, (v, cv))"
    by (auto split: option.splits)
  from run_task_samples [OF step] have v: "only_samples w v" "cv = cl"
    using GetModelReplica_served [OF Cons.prems(1)] by auto
  from v(1) have served: "serves_target (tick_k8s env) (k8s_client v) view sc cl cur"
    using Cons.prems(1) only_samplesD(2) by metis
  show ?case
  proof (cases q)
    case (Ret rs)
    with Cons.prems(2) step v(2) have "run_tasks env (Some sc) ts (results @ rs) (v, cl) = Some (r, (w', cl'))" by simp
    from Cons.IH [OF served this] v(1) show ?thesis using only_samples_trans by blast
  qed (use Cons.prems(2) step v in auto)
qed simp

lemma tick_GetHide:
  "the_hide n (snd (GetHide m w)) = the_hide n w" "k8s_client (snd (GetHide m w)) = k8s_client w"
  "metric_vars (snd (GetHide m w)) = metric_vars w" "model_vars (snd (GetHide m w)) = model_vars w"
  "collectors (snd (GetHide m w)) = collectors w" "predictors (snd (GetHide m w)) = predictors w"
  by simp (simp_all add: GetHide_def Let_def split: option.splits)

lemma UpTo_served:
  assumes "serves_target lib st view sc cl cur"
  shows "\<exists>r cl'. UpTo lib st (Some sc) replica cl = (r, cl') \<and> \<not> (\<exists>x. r = Panic x) \<and>
    view cl' = (if sint cur < sint replica then (view cl)(scaler_target lib sc \<mapsto> min32 replica (MaxReplica sc)) else view cl)"
proof (cases "sint cur < sint replica")
  case True
  then show ?thesis using UpTo_scales [of lib st view cl sc cur replica] assms by (auto simp: serves_target_def)
next
  case False
  then show ?thesis using UpTo_refuses [of lib st view cl sc cur replica] assms by (auto simp: serves_target_def)
qed

text \<open>The tick as its two halves: the predictions, and the decision with its write.\<close>

definition act_on :: "'c tick_env \<Rightarrow> NamespacedName \<Rightarrow> Scaler option \<Rightarrow> ResPair list \<Rightarrow> 'c state \<Rightarrow> unit go \<times> 'c state" where
  "act_on env name scr results st =
     (if results = [] then (Ret (), st)
      else (case decide (tick_iter env) (fst st) (the_hide name (fst st)) results of
              Err e \<Rightarrow> (Err e, st)
            | Panic x \<Rightarrow> (Panic x, st)
            | Ret replica \<Rightarrow>
                (case UpTo (tick_k8s env) (k8s_client (fst st)) scr replica (snd st) of
                   (Panic x, cl') \<Rightarrow> (Panic x, (fst st, cl'))
                 | (_, cl') \<Rightarrow> (Ret (), (fst st, cl')))))"

lemma tick_halves:
  "tick env s (w, cl) =
    (let w0 = snd (GetHide (sched_Name s) w); h = the_hide (sched_Name s) w
     in case scheduled env w0 h of
          Err e \<Rightarrow> Some (Err e, (w0, cl)) | Panic x \<Rightarrow> Some (Panic x, (w0, cl))
        | Ret ts \<Rightarrow> (case run_tasks env (hide_Scaler h) (tick_order env ts) [] (w0, cl) of
                       None \<Rightarrow> None | Some (Err e, st') \<Rightarrow> Some (Err e, st') | Some (Panic x, st') \<Rightarrow> Some (Panic x, st')
                     | Some (Ret results, st') \<Rightarrow> Some (act_on env (sched_Name s) (hide_Scaler h) results st')))"
  by (auto simp: tick_def act_on_def Let_def split: go.splits option.splits prod.splits)

lemma act_on_served:
  assumes "serves_target (tick_k8s env) (k8s_client w) view sc cl cur"
    and "act_on env name (Some sc) results (w, cl) = (r, (w', cl'))"
  shows "w' = w \<and> (view cl' = view cl \<or> r = Ret () \<and> (\<exists>replica. sint cur < sint replica \<and>
    view cl' = (view cl)(scaler_target (tick_k8s env) sc \<mapsto> min32 replica (MaxReplica sc))))"
  using assms(2) UpTo_served [OF assms(1)] unfolding act_on_def
  by (auto split: if_splits go.splits prod.splits) (metis go.distinct prod.inject)+

lemma min32_le: "sint (min32 a b) \<le> sint b" "min32 a b = b \<or> min32 a b = a"
  by (auto simp: min32_def gt32_def)

section \<open>The decision\<close>

lemma quot32_100: "quot32 a 100 = Ret (word_of_int (sint a sdiv 100))"
  by (simp add: quot32_def)

lemma iter_single [simp]: "fair_iter it \<Longrightarrow> it n [k] = [k]"
  by (metis fair_iter_def mset_single_iff)

lemma entries_single [simp]: "fair_iter it \<Longrightarrow> entries it n [(k, v)] = [(k, v)]"
  by (simp add: entries_def keys_def)

lemma MaxStrategy_single: "MaxStrategy [rs] = Ret (map (\<lambda>r. max32 r 0) rs)"
proof (cases rs)
  case (Cons r rs')
  have "map2 max32 rs (replicate (length rs) 0) = map (\<lambda>r. max32 r 0) rs"
    by (rule nth_equalityI) auto
  then show ?thesis using MaxStrategy_eq [of "[rs]"] by simp
qed (simp add: MaxStrategy_def)

lemma AddSlice_single: "AddSlice [v # vs] = Ret (v # replicate (length vs) 0)"
  by (simp add: AddSlice_def)

lemma fold_max_zeros:
  "fold (\<lambda>y m. if gt32 y m then y else m) (replicate n (0 :: int32)) m = (if n = 0 then m else max32 0 m)"
proof (induction n arbitrary: m)
  case (Suc n)
  then show ?case using sint32_eq_iff [of m 0] by (auto simp: max32_def gt32_def)
qed simp

lemma SelectMax_zeros: "SelectMax (v # replicate n 0) = Ret (if n = 0 then v else max32 0 v)"
  unfolding SelectMax_def utils_Max_def list.case fold_max_zeros by (rule refl)

definition metric_at :: "'c world \<Rightarrow> Hide \<Rightarrow> string \<Rightarrow> Metric \<Rightarrow> bool" where
  "metric_at w h k m \<longleftrightarrow> (\<exists>a. cm_Load (MetricMap h) k = Ret a \<and> deref (metric_vars w) a = Some m)"

lemma decide_row:
  assumes "fair_iter it" and "metric_at w h k m" and "model_replicas results = [(k, rows)]"
    and "MaxStrategy rows = Ret (r # rs)"
  shows "decide it w h results =
    Ret (word_of_int (sint (if rs = [] then r * Weight m else max32 0 (r * Weight m)) sdiv 100))"
proof -
  have "metric_replicas it (model_replicas results) = Ret [(k, r # rs)]"
    using assms(1,3,4) by (simp add: metric_replicas_def GetMetricReplica_def)
  moreover have "weighted it w h [(k, r # rs)] = Ret [MulSlice (Weight m) (r # rs)]"
    using assms(1,2) by (auto simp: weighted_def metric_at_def)
  ultimately show ?thesis
    by (simp add: decide_def MulSlice_def AddSlice_single GetScaleReplica_def SelectMax_zeros quot32_100)
qed

lemma model_replicas_one:
  assumes "\<forall>p \<in> set results. GetNoModelKey (rp_withModelKey p) = k"
  shows "fold add_result results [(k, rows)] = [(k, rows @ map modelReplica results)]"
  using assms by (induction results arbitrary: rows) (auto simp: add_result_def)

lemma model_replicas_single:
  assumes "results \<noteq> []" and "\<forall>p \<in> set results. GetNoModelKey (rp_withModelKey p) = k"
  shows "model_replicas results = [(k, map modelReplica results)]"
proof -
  obtain p ps where "results = p # ps" using assms(1) by (cases results) auto
  then show ?thesis using assms(2) model_replicas_one [of ps k "[modelReplica p]"] by (simp add: model_replicas_def add_result_def)
qed

text \<open>The counts of several models of one metric: the first of the aggregated counts.\<close>

lemma MaxStrategy_first:
  assumes "rows \<noteq> []" and "\<forall>v \<in> set rows. length v = n" and "0 < n"
  shows "\<exists>rs. MaxStrategy rows = Ret (fold max32 (map hd rows) 0 # rs) \<and> length rs = n - 1"
proof -
  let ?res = "fold (\<lambda>v res. map2 max32 v res @ drop (length v) res) rows (replicate n 0)"
  have len: "length (hd rows) = n" using assms(1,2) by simp
  then have run: "MaxStrategy rows = Ret ?res" using MaxStrategy_eq [OF assms(1)] assms(2) by simp
  have n: "length ?res = n" using fold_map2_length [of rows "replicate n 0" max32] assms(2) by simp
  have "?res ! 0 = fold (\<lambda>v x. max32 (v ! 0) x) rows (replicate n 0 ! 0)"
    using fold_map2_nth [of rows "replicate n 0" 0 max32] assms(2,3) by simp
  also have "\<dots> = fold max32 (map hd rows) 0"
    using assms(2,3) by (simp add: fold_map comp_def) (rule fold_cong, auto simp: hd_conv_nth fun_eq_iff)
  finally have "?res ! 0 = fold max32 (map hd rows) 0" .
  then obtain rs where "?res = fold max32 (map hd rows) 0 # rs" using n assms(3) by (cases ?res) auto
  with run n show ?thesis by auto
qed

definition weighted_count :: "int32 \<Rightarrow> Metric \<Rightarrow> nat \<Rightarrow> int32" where
  "weighted_count r m n =
     word_of_int (sint (if n = 1 then r * Weight m else max32 0 (r * Weight m)) sdiv 100)"

text \<open>With a single metric the decision depends on the first predicted count of each model only: it is the largest
  of these, times the weight, divided by 100; all later counts, the forecast proper, are dropped.\<close>

lemma decide_one_metric:
  assumes "fair_iter it" and "metric_at w h k m" and "results \<noteq> []"
    and "\<forall>p \<in> set results. GetNoModelKey (rp_withModelKey p) = k \<and> length (modelReplica p) = n" and "0 < n"
  shows "decide it w h results = Ret (weighted_count (fold max32 (map (hd \<circ> modelReplica) results) 0) m n)"
proof -
  obtain rs where rs: "MaxStrategy (map modelReplica results) = Ret (fold max32 (map (hd \<circ> modelReplica) results) 0 # rs)"
    "length rs = n - 1"
    using MaxStrategy_first [of "map modelReplica results" n] assms(3-5) by auto
  moreover have "rs = [] \<longleftrightarrow> n = 1" using rs(2) assms(5) by (cases rs) auto
  ultimately show ?thesis
    using decide_row [OF assms(1,2) model_replicas_single [OF assms(3)] rs(1)] assms(4) by (simp add: weighted_count_def)
qed

section \<open>One metric, one Holt-Winters model\<close>

text \<open>
  An instance with one model, which needs no training, whose collector holds enough samples for its
  configuration. \<open>oldest\<close> is the first sample of the window the model looks back at.
\<close>

definition oldest :: "HoltWinter \<Rightarrow> worker \<Rightarrow> f64" where
  "oldest p wk = Value (data wk ! (length (data wk) - nat (lookBackward p)))"

definition enough_samples :: "HoltWinter \<Rightarrow> worker \<Rightarrow> bool" where
  "enough_samples p wk \<longleftrightarrow>
     lookBackward p \<le> int (length (data wk)) \<and> in64 (int (length (data wk))) \<and> 0 < slen p \<and>
     2 * slen p \<le> lookBackward p \<and> 0 \<le> lookForward p \<and> in64 (lookBackward p + lookForward p)"

definition one_forecast :: "'c world \<Rightarrow> Hide \<Rightarrow> string \<Rightarrow> HoltWinter \<Rightarrow> worker \<Rightarrow> Metric \<Rightarrow> bool" where
  "one_forecast w h k p wk m \<longleftrightarrow>
     (\<exists>a ma model. cm_data (PredictorMap h) = [(k, a)] \<and> deref (predictors w) a = Some (HwPredictor p) \<and>
        cm_Load (ModelMap h) k = Ret ma \<and> deref (model_vars w) ma = Some model \<and> \<not> NeedTrain model) \<and>
     metric_at w h (GetNoModelKey k) m \<and>
     deref (collectors w) (hw_collectorWorker p) = Some (PromWorker wk) \<and> enough_samples p wk"

lemma hw_forecast:
  assumes "enough_samples p wk"
  shows "\<exists>r. hw_Predict p (PromWorker wk) = (Ret r, PromWorker (wk\<lparr>data := []\<rparr>)) \<and>
    (\<exists>rest. PredictMetric r = oldest p wk # rest \<and> rest \<noteq> [])"
proof -
  from assms have c: "lookBackward p \<le> int (length (data wk))" "in64 (int (length (data wk)))" "0 < slen p"
    "2 * slen p \<le> lookBackward p" "0 \<le> lookForward p" "in64 (lookBackward p + lookForward p)"
    by (simp_all add: enough_samples_def)
  let ?d = "drop (length (data wk) - nat (lookBackward p)) (data wk)"
  obtain r where r: "hw_Predict p (PromWorker wk) = (Ret r, PromWorker (wk\<lparr>data := []\<rparr>))"
    "hd (PredictMetric r) = hd (map Value ?d)" "length (PredictMetric r) = nat (lookBackward p + lookForward p)"
    using hw_Predict_window [OF c] by (auto simp: Let_def)
  have "hd (map Value ?d) = oldest p wk" using c by (simp add: oldest_def hd_map hd_drop_conv_nth)
  moreover have "2 \<le> length (PredictMetric r)" using r(3) c by linarith
  ultimately have "\<exists>rest. PredictMetric r = oldest p wk # rest \<and> rest \<noteq> []"
    using r(2) by (cases "PredictMetric r"; cases "tl (PredictMetric r)") auto
  with r(1) show ?thesis by blast
qed

definition fair_order :: "'c tick_env \<Rightarrow> bool" where
  "fair_order env \<longleftrightarrow> (\<forall>ts. mset (tick_order env ts) = mset ts)"

definition count_for :: "(f64 \<Rightarrow> int32) \<Rightarrow> f64 \<Rightarrow> f64 \<Rightarrow> int32" where
  "count_for oob t x = (if flt x zero64 then 0 else int32_of_f64 oob (fceil (fdiv x t)))"

lemma one_forecast_task:
  assumes f: "one_forecast w h k p wk m"
    and served: "serves_target (tick_k8s env) (k8s_client w) view sc cl cur" and t: "ParseFloat (Target m) = Ret t"
  shows "\<exists>a mt rest w'. cm_data (PredictorMap h) = [(k, a)] \<and> tasks_for now w h (k, a) = Ret [PredictTask k a mt] \<and>
    rest \<noteq> [] \<and> only_samples w w' \<and> run_task env (Some sc) (PredictTask k a mt) (w, cl) =
      Some (Ret [\<lparr>modelReplica = count_for (tick_oob env) t (oldest p wk) # rest, rp_withModelKey = k\<rparr>], (w', cl))"
proof -
  obtain a ma model mt where h: "cm_data (PredictorMap h) = [(k, a)]" "deref (predictors w) a = Some (HwPredictor p)"
    "cm_Load (ModelMap h) k = Ret ma" "deref (model_vars w) ma = Some model" "\<not> NeedTrain model"
    "cm_Load (MetricMap h) (GetNoModelKey k) = Ret mt" "deref (metric_vars w) mt = Some m"
    "deref (collectors w) (hw_collectorWorker p) = Some (PromWorker wk)" "enough_samples p wk"
    using f unfolding one_forecast_def metric_at_def by blast
  obtain r rest where r: "hw_Predict p (PromWorker wk) = (Ret r, PromWorker (wk\<lparr>data := []\<rparr>))"
    "PredictMetric r = oldest p wk # rest" "rest \<noteq> []"
    using hw_forecast [OF h(9)] by blast
  let ?w = "w\<lparr>collectors := assign (hw_collectorWorker p) (PromWorker (wk\<lparr>data := []\<rparr>)) (collectors w)\<rparr>"
  have run: "run_task env (Some sc) (PredictTask k a mt) (w, cl) = Some (Ret [\<lparr>modelReplica =
      count_for (tick_oob env) t (oldest p wk) # map (count_for (tick_oob env) t) rest, rp_withModelKey = k\<rparr>], (?w, cl))"
    using h r t GetModelReplica_served [OF served]
    by (simp add: predict_task_def UnderThreshold_def count_for_def)
  moreover have "only_samples w ?w" using run_task_samples [OF run] by simp
  moreover have "tasks_for now w h (k, a) = Ret [PredictTask k a mt]" using h by (simp add: tasks_for_def)
  ultimately show ?thesis using h(1) r(3)
    by (intro exI [of _ a] exI [of _ mt] exI [of _ "map (count_for (tick_oob env) t) rest"] exI [of _ ?w]) simp
qed

lemma one_forecast_results:
  assumes "fair_iter (tick_iter env)" and "fair_order env" and f: "one_forecast w h k p wk m"
    and served: "serves_target (tick_k8s env) (k8s_client w) view sc cl cur" and t: "ParseFloat (Target m) = Ret t"
  shows "\<exists>ts rest w'. scheduled env w h = Ret ts \<and> rest \<noteq> [] \<and> only_samples w w' \<and>
    run_tasks env (Some sc) (tick_order env ts) [] (w, cl) =
      Some (Ret [\<lparr>modelReplica = count_for (tick_oob env) t (oldest p wk) # rest, rp_withModelKey = k\<rparr>], (w', cl))"
proof -
  obtain a mt rest w' where task: "cm_data (PredictorMap h) = [(k, a)]"
    "tasks_for (tick_now env) w h (k, a) = Ret [PredictTask k a mt]" "rest \<noteq> []" "only_samples w w'"
    "run_task env (Some sc) (PredictTask k a mt) (w, cl) =
      Some (Ret [\<lparr>modelReplica = count_for (tick_oob env) t (oldest p wk) # rest, rp_withModelKey = k\<rparr>], (w', cl))"
    using one_forecast_task [OF f served t] by blast
  have "scheduled env w h = Ret [PredictTask k a mt]"
    using task(1,2) assms(1) by (simp add: scheduled_def)
  moreover have "tick_order env [PredictTask k a mt] = [PredictTask k a mt]"
    using assms(2) unfolding fair_order_def by (metis mset_single_iff)
  ultimately show ?thesis using task(3-5)
    by (intro exI [of _ "[PredictTask k a mt]"] exI [of _ rest] exI [of _ w']) simp
qed

lemma one_forecast_GetHide: "one_forecast (snd (GetHide n w)) h k p wk m = one_forecast w h k p wk m"
  by (simp add: one_forecast_def metric_at_def tick_GetHide)

lemma one_forecast_decides:
  assumes "fair_iter it" and f: "one_forecast w h k p wk m" and w': "only_samples w w'" and "rest \<noteq> []"
  shows "decide it w' h [\<lparr>modelReplica = c # rest, rp_withModelKey = k\<rparr>] = Ret (weighted_count (max32 c 0) m 2)"
proof -
  have "metric_at w' h (GetNoModelKey k) m"
    using f only_samplesD(3) [OF w'] by (auto simp: one_forecast_def metric_at_def)
  from decide_one_metric [OF assms(1) this, of "[\<lparr>modelReplica = c # rest, rp_withModelKey = k\<rparr>]" "length (c # rest)"] assms(4)
  show ?thesis by (simp add: weighted_count_def)
qed

lemma tick_one_forecast:
  assumes "fair_iter (tick_iter env)" and "fair_order env"
    and "one_forecast w (the_hide (sched_Name s) w) k p wk m" and "hide_Scaler (the_hide (sched_Name s) w) = Some sc"
    and "serves_target (tick_k8s env) (k8s_client w) view sc cl cur" and "ParseFloat (Target m) = Ret t"
  shows "\<exists>w' cl'. tick env s (w, cl) = Some (Ret (), (w', cl')) \<and>
    (let n = weighted_count (max32 (count_for (tick_oob env) t (oldest p wk)) 0) m 2
     in view cl' = (if sint cur < sint n then (view cl)(scaler_target (tick_k8s env) sc \<mapsto> min32 n (MaxReplica sc))
                    else view cl))"
proof -
  let ?w0 = "snd (GetHide (sched_Name s) w)" and ?h = "the_hide (sched_Name s) w"
  have f: "one_forecast ?w0 ?h k p wk m" and served: "serves_target (tick_k8s env) (k8s_client ?w0) view sc cl cur"
    using assms(3,5) by (simp_all add: one_forecast_GetHide tick_GetHide)
  obtain ts rest v where ts: "scheduled env ?w0 ?h = Ret ts" "rest \<noteq> []" "only_samples ?w0 v"
    "run_tasks env (Some sc) (tick_order env ts) [] (?w0, cl) = Some (Ret
      [\<lparr>modelReplica = count_for (tick_oob env) t (oldest p wk) # rest, rp_withModelKey = k\<rparr>], (v, cl))"
    using one_forecast_results [OF assms(1,2) f served assms(6)] by blast
  let ?n = "weighted_count (max32 (count_for (tick_oob env) t (oldest p wk)) 0) m 2"
  have hide: "the_hide (sched_Name s) v = ?h" and "serves_target (tick_k8s env) (k8s_client v) view sc cl cur"
    using only_samplesD(2,6) [OF ts(3)] served by (simp_all add: tick_GetHide)
  from UpTo_served [OF this(2)] obtain r cl' where up: "UpTo (tick_k8s env) (k8s_client v) (Some sc) ?n cl = (r, cl')"
    "\<not> (\<exists>x. r = Panic x)"
    "view cl' = (if sint cur < sint ?n then (view cl)(scaler_target (tick_k8s env) sc \<mapsto> min32 ?n (MaxReplica sc)) else view cl)"
    by blast
  then have "act_on env (sched_Name s) (Some sc)
      [\<lparr>modelReplica = count_for (tick_oob env) t (oldest p wk) # rest, rp_withModelKey = k\<rparr>] (v, cl) = (Ret (), (v, cl'))"
    using one_forecast_decides [OF assms(1) f ts(3,2)] hide by (cases r) (auto simp: act_on_def)
  with ts assms(4) have "tick env s (w, cl) = Some (Ret (), (v, cl'))" by (simp add: tick_halves Let_def)
  with up(3) show ?thesis unfolding Let_def by blast
qed

section \<open>A cluster and an instance\<close>

text \<open>An instance whose metric has the target 5 and the weight 100, with the samples 10, 20, 12 and 22 in the
  window: one replica is running, and 22 would take five.\<close>

definition demo_key :: string where
  "demo_key = ''cpu$num$sum(delta(http_requests_total[30s]))$holt_winter''"

definition demo_sched :: Scheduler where
  "demo_sched = \<lparr>sched_Name = \<lparr>nn_Namespace = ''default'', nn_Name = ''aom''\<rparr>, Interval = seconds 30\<rparr>"

definition sampled :: worker where
  "sampled = \<lparr>w_type = \<lparr>mt_Name = ''cpu'', mt_Unit = ''num''\<rparr>, promql = ''sum(delta(http_requests_total[30s]))'',
              data = demo_samples, w_client = Some 0\<rparr>"

definition hw_world :: "(target \<Rightarrow> int32) world" where
  "hw_world =
     start_world\<lparr>globalStore := [(sched_Name demo_sched,
         (Hide_Init new_Hide)\<lparr>MetricMap := \<lparr>Data = Some [(GetNoModelKey demo_key, 0)]\<rparr>,
            PredictorMap := \<lparr>Data = Some [(demo_key, 0)]\<rparr>, ModelMap := \<lparr>Data = Some [(demo_key, 0)]\<rparr>,
            hide_Scaler := Some demo_scaler\<rparr>)],
       metric_vars := [sample_metric ''cpu'' ''5'' 100],
       model_vars := [\<lparr>Type = ''holt_winter'', NeedTrain = False, UpdateInterval = 0, Attr = Some []\<rparr>],
       collectors := [PromWorker sampled], predictors := [HwPredictor demo_hw], k8s_client := demo_k8s\<rparr>"

definition hw_env :: "(target \<Rightarrow> int32) tick_env" where
  "hw_env = \<lparr>tick_gru = demo_gru_libs demo_response, tick_k8s = demo_libs, tick_oob = (\<lambda>_. 0), tick_now = 0,
             tick_iter = (\<lambda>_. rev), tick_order = rev\<rparr>"

lemma hw_env_fair: "fair_iter (tick_iter hw_env)" "fair_order hw_env"
  by (simp_all add: hw_env_def fair_iter_rev fair_order_def)

lemma hw_served: "serves_target (tick_k8s hw_env) (k8s_client hw_world) demo_view demo_scaler (\<lambda>_. 1) 1"
  by (simp add: serves_target_def hw_env_def hw_world_def demo_view_def)

lemma hw_hide: "hide_Scaler (the_hide (sched_Name demo_sched) hw_world) = Some demo_scaler"
  by (simp add: hw_world_def the_hide_def)

lemma hw_one_forecast:
  "one_forecast hw_world (the_hide (sched_Name demo_sched) hw_world) demo_key demo_hw sampled (sample_metric ''cpu'' ''5'' 100)"
  by (simp add: one_forecast_def hw_world_def the_hide_def cm_data_def deref_def demo_hw_def metric_at_def cm_Load_def
      enough_samples_def sampled_def demo_samples_def in64_def)

lemma hw_target: "ParseFloat (Target (sample_metric ''cpu'' ''5'' 100)) = Ret (Fin False 5)"
proof -
  have "special_float ''5'' = None" "read_float ''5'' = Some (False, 5)" by code_simp+
  then show ?thesis using mk_f64_of_int [of 5 False] by (simp add: ParseFloat_def sample_metric_def)
qed

lemma hw_count: "weighted_count (max32 (count_for (tick_oob hw_env) (Fin False 5) (oldest demo_hw sampled)) 0)
    (sample_metric ''cpu'' ''5'' 100) 2 = 2"
proof -
  have "oldest demo_hw sampled = Fin False 10"
    by (simp add: oldest_def demo_hw_def sampled_def demo_samples_def f64_of_int_exact)
  moreover have "mk_f64 False 2 = Fin False 2" using mk_f64_of_int [of 2 False] by simp
  ultimately have "count_for (tick_oob hw_env) (Fin False 5) (oldest demo_hw sampled) = 2"
    by (simp add: count_for_def)
  moreover have "weighted_count (max32 2 0) (sample_metric ''cpu'' ''5'' 100) 2 = 2" by code_simp
  ultimately show ?thesis by simp
qed

lemmas hw_tick = tick_one_forecast [OF hw_env_fair hw_one_forecast hw_hide hw_served hw_target]

section \<open>Properties\<close>

text \<open>C6: whatever the predictors answer, in whatever order they run and however the tick ends, a tick
  changes at most the count of its instance's scale target in the cluster: the count it writes is
  at most the configured maximum, and either more than the current count or the maximum itself. It
  leaves the hidden state of every instance alone.\<close>

theorem tick_scales_within_bounds:
  assumes "serves_target (tick_k8s env) (k8s_client w) view sc cl cur"
    and "hide_Scaler (the_hide (sched_Name s) w) = Some sc"
    and "tick env s (w, cl) = Some (r, (w', cl'))"
  shows "(view cl' = view cl \<or>
      (\<exists>n. view cl' = (view cl)(scaler_target (tick_k8s env) sc \<mapsto> n) \<and> sint n \<le> sint (MaxReplica sc) \<and>
           (sint cur < sint n \<or> n = MaxReplica sc))) \<and>
    the_hide name w' = the_hide name w"
proof -
  let ?w0 = "snd (GetHide (sched_Name s) w)"
  have served: "serves_target (tick_k8s env) (k8s_client ?w0) view sc cl cur" using assms(1) by (simp add: tick_GetHide)
  show ?thesis
  proof (cases "scheduled env ?w0 (the_hide (sched_Name s) w)")
    case (Ret ts)
    then obtain q v cv where run: "run_tasks env (Some sc) (tick_order env ts) [] (?w0, cl) = Some (q, (v, cv))"
      using assms(2,3) by (auto simp: tick_halves Let_def split: option.splits)
    from run_tasks_served [OF served run] have v: "only_samples ?w0 v" "cv = cl" by auto
    then have hide: "the_hide name v = the_hide name w" and servedv: "serves_target (tick_k8s env) (k8s_client v) view sc cl cur"
      using only_samplesD(2,6) [OF v(1)] served by (auto simp: tick_GetHide)
    show ?thesis
    proof (cases q)
      case results: (Ret results)
      with Ret run assms(2,3) v(2) have "act_on env (sched_Name s) (Some sc) results (v, cl) = (r, (w', cl'))"
        by (simp add: tick_halves Let_def)
      from act_on_served [OF servedv this] hide show ?thesis
        using min32_le by (metis sint_min32 min_def order.refl)
    qed (use Ret run assms(2,3) v hide in \<open>auto simp: tick_halves Let_def\<close>)
  qed (use assms(2,3) in \<open>auto simp: tick_halves Let_def tick_GetHide\<close>)
qed

theorem tick_scales_within_bounds_witness:
  "\<exists>w' cl'. tick hw_env demo_sched (hw_world, \<lambda>_. 1) = Some (Ret (), (w', cl')) \<and>
     (demo_view cl' = demo_view (\<lambda>_. 1) \<or> (\<exists>n. demo_view cl' =
        (demo_view (\<lambda>_. 1))(scaler_target (tick_k8s hw_env) demo_scaler \<mapsto> n) \<and> sint n \<le> 5))"
proof -
  obtain w' cl' where run: "tick hw_env demo_sched (hw_world, \<lambda>_. 1) = Some (Ret (), (w', cl'))"
    using hw_tick by blast
  from tick_scales_within_bounds [OF hw_served hw_hide run] show ?thesis
    using run by (auto simp: demo_scaler_def Scaler_New_def)
qed

text \<open>C5: an instance with one metric and one Holt-Winters model is scaled by the oldest sample of the
  window the model looks back at, whatever the forecast: a tick raises the target to the count
  for that sample, weighted and cut at the maximum, if this is more than it has.\<close>

theorem tick_scales_by_oldest_sample:
  assumes "fair_iter (tick_iter env)" and "fair_order env"
    and "one_forecast w (the_hide (sched_Name s) w) k p wk m" and "hide_Scaler (the_hide (sched_Name s) w) = Some sc"
    and "serves_target (tick_k8s env) (k8s_client w) view sc cl cur" and "ParseFloat (Target m) = Ret t"
  shows "\<exists>w' cl'. tick env s (w, cl) = Some (Ret (), (w', cl')) \<and>
    (let n = weighted_count (max32 (count_for (tick_oob env) t (oldest p wk)) 0) m 2
     in view cl' = (if sint cur < sint n then (view cl)(scaler_target (tick_k8s env) sc \<mapsto> min32 n (MaxReplica sc))
                    else view cl))"
  using assms by (rule tick_one_forecast)

theorem tick_scales_by_oldest_sample_witness:
  "\<exists>w' cl'. tick hw_env demo_sched (hw_world, \<lambda>_. 1) = Some (Ret (), (w', cl')) \<and>
     demo_view cl' = (demo_view (\<lambda>_. 1))(scaler_target (tick_k8s hw_env) demo_scaler \<mapsto> 2)"
proof -
  have "min32 2 (MaxReplica demo_scaler) = 2" by code_simp
  with tick_scales_by_oldest_sample [OF hw_env_fair hw_one_forecast hw_hide hw_served hw_target] hw_count
  show ?thesis by (simp add: Let_def)
qed

end
