(* ===== verification/System.thy ===== *)
theory System
  imports SchedulerSpec Removal
begin

text \<open>
  The running operator: reconciliations, the loops of the schedulers and of the collectors, and the
  waits for the end of a training, interleaved in any order. Each reconciliation and each turn of a
  loop is one step.
\<close>

section \<open>The loop of a collector\<close>

datatype turn = Going bool | Ended

text \<open>
  One turn of the loop of \<open>StartWorker\<close>: \<open>ended\<close> is its variable \<open>end\<close>, \<open>ctx_done\<close> whether the context is
  done. \<open>break\<close> inside \<open>select\<close> leaves the \<open>select\<close>, so that the loop ends a turn later.
\<close>

definition worker_turn ::
  "prom_libs \<Rightarrow> int \<Rightarrow> bool \<Rightarrow> NamespacedName \<Rightarrow> addr \<Rightarrow> addr \<Rightarrow> bool \<Rightarrow> 'c world \<Rightarrow> turn go \<times> 'c world" where
  "worker_turn lib now ctx_done name worker stopC ended w =
     (case deref (collectors w) worker of
        None \<Rightarrow> (Panic NilDereference, w)
      | Some c \<Rightarrow>
          (case cm_Load (CollectorWorkerMap (the_hide name w)) (mc_NoModelKey c) of
             Ret _ \<Rightarrow>
               if ended then (Ret Ended, w)
               else if ctx_done \<or> deref (channels w) stopC = Some True then (Ret (Going True), w)
               else (let (r, c') = mc_Collect lib now c;
                         w = w\<lparr>collectors := assign worker c' (collectors w)\<rparr>
                     in case r of Panic x \<Rightarrow> (Panic x, w) | _ \<Rightarrow> (Ret (Going False), w))
           | _ \<Rightarrow> (Ret Ended, w)))"

definition StartWorker_start :: "int \<Rightarrow> unit go" where
  "StartWorker_start scrapeInterval = NewTicker (seconds scrapeInterval)"

text \<open>C14: once the controller has stopped the collector of a metric, the loop of its worker ends at its next
  turn and collects nothing more, whether or not it has seen the closed channel.\<close>

theorem stopped_worker_ends:
  assumes "stop_collector name v w = (Ret (), w')" and "deref (collectors w') worker = Some c" and "mc_NoModelKey c = v"
  shows "worker_turn lib now ctx_done name worker stopC ended w' = (Ret Ended, w')"
proof -
  obtain ch u where "close_channel ch w = (Ret (), u)" and w': "delete_in CollectorWorkerMap_update name v u = (Ret (), w')"
    using assms(1) by (auto simp: stop_collector_def bind_act_Ret split: option.splits)
  then have "CollectorWorkerMap (the_hide name w') = cm_Delete (CollectorWorkerMap (the_hide name u)) v"
    by (auto simp: delete_in_def)
  then have "v \<notin> cm_dom (CollectorWorkerMap (the_hide name w'))" by simp
  then have "cm_Load (CollectorWorkerMap (the_hide name w')) v \<noteq> Ret a" for a
    using cm_Load_dom by metis
  then show ?thesis using assms(2,3) by (simp add: worker_turn_def split: go.splits)
qed

definition collecting_world :: "(target \<Rightarrow> int32) world" where
  "collecting_world =
     start_world\<lparr>globalStore := [(demo_name, (Hide_Init new_Hide)\<lparr>CollectorMap := [(''cpu$m$up'', 0)],
                   CollectorWorkerMap := \<lparr>Data = Some [(''cpu$m$up'', 0)]\<rparr>\<rparr>)],
                 channels := [False], collectors := [PromWorker (empty_worker [])]\<rparr>"

theorem stopped_worker_ends_witness:
  "\<exists>w'. stop_collector demo_name ''cpu$m$up'' collecting_world = (Ret (), w') \<and>
     worker_turn five_libs 0 False demo_name 0 0 False w' = (Ret Ended, w')"
proof -
  obtain w' where run: "stop_collector demo_name ''cpu$m$up'' collecting_world = (Ret (), w')"
    and c: "deref (collectors w') 0 = Some (PromWorker (empty_worker []))"
    by (simp add: stop_collector_def collecting_world_def the_hide_def close_channel_def deref_def delete_in_def put_hide_def)
  have "mc_NoModelKey (PromWorker (empty_worker [])) = ''cpu$m$up''"
    by (simp add: worker_NoModelKey_def empty_worker_def)
  from stopped_worker_ends [OF run c this] run show ?thesis by blast
qed

section \<open>Goroutines and what they hold\<close>

definition gor_ok :: "'c world \<Rightarrow> goroutine \<Rightarrow> bool" where
  "gor_ok w g =
     (case g of
        StartWorkerLoop name worker stopC i \<Rightarrow> worker < length (collectors w) \<and> stopC < length (channels w)
      | RunLoop s \<Rightarrow> hide_Scaler (the_hide (sched_Name s) w) \<noteq> None
      | WaitLoop a \<Rightarrow> (\<exists>p. deref (predictors w) a = Some (GruPredictor p)))"

text \<open>What a task of a tick works on: its predictor, the collector of that, and the variable of its metric.\<close>

definition task_ok :: "'c world \<Rightarrow> task \<Rightarrow> bool" where
  "task_ok w t =
     (case t of
        PredictTask k a m \<Rightarrow> a < length (predictors w) \<and> pred_collector (predictors w ! a) < length (collectors w) \<and>
          m < length (metric_vars w)
      | TrainTask a \<Rightarrow> a < length (predictors w) \<and> pred_collector (predictors w ! a) < length (collectors w))"

definition procs_ok :: "'c world \<Rightarrow> bool" where
  "procs_ok w \<longleftrightarrow> (\<forall>n s. map_of (schedulers w) n = Some s \<longrightarrow> sched_Name s = n) \<and> (\<forall>g \<in> set (goroutines w). gor_ok w g)"

text \<open>What every step, whole or broken off, does to the goroutines: it starts some, and takes nothing away
  that one holds. This is all a goroutine relies on while others run.\<close>

definition evolves :: "'c world \<Rightarrow> 'c world \<Rightarrow> bool" where
  "evolves w w' \<longleftrightarrow>
     (\<forall>g. gor_ok w g \<longrightarrow> gor_ok w' g) \<and> (\<forall>t. task_ok w t \<longrightarrow> task_ok w' t) \<and> (procs_ok w \<longrightarrow> procs_ok w') \<and> (\<exists>gs. goroutines w' = goroutines w @ gs)"

lemma evolves_refl [simp]: "evolves w w"
  by (simp add: evolves_def)

lemma evolves_trans: "evolves u v \<Longrightarrow> evolves v w \<Longrightarrow> evolves u w"
  by (auto simp: evolves_def)

lemma evolvesI:
  assumes "length (collectors w) \<le> length (collectors w')" and "length (channels w) \<le> length (channels w')"
    and "\<And>n. hide_Scaler (the_hide n w) \<noteq> None \<Longrightarrow> hide_Scaler (the_hide n w') \<noteq> None"
    and "\<And>a p. deref (predictors w) a = Some (GruPredictor p) \<Longrightarrow> \<exists>q. deref (predictors w') a = Some (GruPredictor q)"
    and "goroutines w' = goroutines w @ gs" and "schedulers w' = schedulers w" and "procs_ok w \<Longrightarrow> \<forall>g \<in> set gs. gor_ok w' g"
    and "length (metric_vars w) \<le> length (metric_vars w')"
    and "\<And>a. a < length (predictors w) \<Longrightarrow>
      a < length (predictors w') \<and> pred_collector (predictors w' ! a) = pred_collector (predictors w ! a)"
  shows "evolves w w'"
proof -
  have keep: "gor_ok w' g" if "gor_ok w g" for g
    using that assms(1-4) by (cases g) (auto simp: gor_ok_def)
  then have procs: "procs_ok w'" if "procs_ok w"
    using that assms(5-7) by (auto simp: procs_ok_def)
  have "task_ok w' t" if "task_ok w t" for t
    using that assms(1,8,9) by (cases t) (auto simp: task_ok_def)
  with keep procs assms(5) show ?thesis by (auto simp: evolves_def)
qed

definition always :: "('s \<Rightarrow> 's \<Rightarrow> bool) \<Rightarrow> ('s, 'a) act \<Rightarrow> bool" where
  "always R m \<longleftrightarrow> (\<forall>s. R s (snd (m s)))"

named_theorems evolves_rules \<open>programs under which the goroutines only evolve\<close>

lemma always_snd: "always R m \<Longrightarrow> R s (snd (m s))"
  by (simp add: always_def)

lemma always_bind [evolves_rules]:
  assumes "always evolves m" and "\<And>a. always evolves (f a)"
  shows "always evolves (bind_act m f)"
  using assms unfolding always_def bind_act_def
  by (auto split: prod.splits go.splits) (metis evolves_trans snd_conv)+

lemma always_basic [evolves_rules]:
  "always evolves (return_act a)" "always evolves (read_act g)" "always evolves (lift_go l)"
  "(\<And>s. evolves s (f s)) \<Longrightarrow> always evolves (modify f)"
  by (simp_all add: always_def)

lemma always_fold [evolves_rules]: "(\<And>x a. always evolves (f x a)) \<Longrightarrow> always evolves (fold_act f xs a)"
proof (induction xs arbitrary: a)
  case (Cons x xs)
  show ?case unfolding fold_act.simps by (rule always_bind [OF Cons.prems Cons.IH [OF Cons.prems]])
qed (simp add: always_def)

lemma always_each [evolves_rules]: "(\<And>x. always evolves (f x)) \<Longrightarrow> always evolves (each_act f xs)"
  unfolding each_act_def by (rule always_fold)

lemma always_if [evolves_rules]: "always evolves m \<Longrightarrow> always evolves n \<Longrightarrow> always evolves (if b then m else n)"
  by simp

section \<open>The handlers\<close>

lemma evolves_same:
  assumes "globalStore w' = globalStore w" and "collectors w' = collectors w" and "channels w' = channels w"
    and "predictors w' = predictors w" and "goroutines w' = goroutines w" and "schedulers w' = schedulers w"
    and "length (metric_vars w) \<le> length (metric_vars w')"
  shows "evolves w w'"
  by (rule evolvesI [where gs = "[]"]) (use assms in \<open>simp_all add: the_hide_def\<close>)

lemma evolves_put:
  "(\<And>h. hide_Scaler h \<noteq> None \<Longrightarrow> hide_Scaler (f h) \<noteq> None) \<Longrightarrow> evolves w (put_hide name f w)"
  by (rule evolvesI [where gs = "[]"]) (auto split: if_splits)

lemma evolves_GetHide: "always evolves (GetHide name)"
  unfolding always_def
proof
  fix w :: "'c world"
  show "evolves w (snd (GetHide name w))"
    by (rule evolvesI [where gs = "[]"]) (auto simp: tick_GetHide, simp_all add: GetHide_def Let_def split: option.splits)
qed

lemma evolves_store:
  "(\<And>f h. hide_Scaler (upd f h) = hide_Scaler h) \<Longrightarrow> always evolves (store_in get upd name k a)"
  by (auto simp: always_def store_in_def intro!: evolves_put split: go.splits)

lemma evolves_delete:
  "(\<And>f h. hide_Scaler (upd f h) = hide_Scaler h) \<Longrightarrow> always evolves (delete_in upd name k)"
  unfolding delete_in_def by (auto simp: always_def intro!: evolves_put)

lemma evolves_steps [evolves_rules]:
  "always evolves new_metric_var" "always evolves new_model_var"
  "always evolves (store_in get MetricMap_update name k a)" "always evolves (store_in get ModelMap_update name k a)"
  "always evolves (store_in get PredictorMap_update name k a)"
  "always evolves (store_in get CollectorWorkerMap_update name k a)"
  "always evolves (delete_in MetricMap_update name k)" "always evolves (delete_in ModelMap_update name k)"
  "always evolves (delete_in PredictorMap_update name k)" "always evolves (delete_in CollectorWorkerMap_update name k)"
  by (simp_all add: evolves_store evolves_delete)
    (auto simp: always_def new_metric_var_def new_model_var_def alloc_def intro!: evolves_same)

lemma evolves_set_vars: "evolves w (set_metric_var a m w)" "evolves w (set_model_var a x w)"
  by (auto simp: set_metric_var_def set_model_var_def intro!: evolves_same)

lemma after_set:
  "always evolves m \<Longrightarrow> evolves w (snd (m (set_metric_var a x w)))"
  "always evolves m' \<Longrightarrow> evolves w (snd (m' (set_model_var a y w)))"
  unfolding always_def using evolves_trans evolves_set_vars by blast+

lemma alwaysI: "(\<And>s. R s (snd (m s))) \<Longrightarrow> always R m"
  by (simp add: always_def)

lemma evolves_add_metric [evolves_rules]: "always evolves (add_metric name a m)"
  using after_set(1) [OF evolves_steps(3)]
  by (intro alwaysI) (auto simp: add_metric_def Let_def evolves_set_vars split: go.splits)

lemma evolves_change [evolves_rules]: "always evolves (change_metrics name b ms :: ('c world, unit) act)"
proof (induction ms)
  case (Cons m ms)
  have "always evolves (bind_act (store_in MetricMap MetricMap_update name (NoModelKey m) b)
      (\<lambda>_. change_metrics name b ms) :: ('c world, unit) act)"
    by (rule always_bind, rule evolves_steps, rule Cons)
  from after_set(1) [OF this] show ?case
    by (intro alwaysI) (auto simp: Let_def evolves_set_vars split: go.splits option.splits)
qed (simp add: always_def)

lemma evolves_handle_model [evolves_rules]:
  "always evolves (handle_model name b metric model maps :: ('c world, model_maps) act)"
proof -
  have "always evolves (bind_act (store_in ModelMap ModelMap_update name k b) (\<lambda>_. return_act x) :: ('c world, model_maps) act)" for k x
    by (intro evolves_rules)
  from after_set(2) [OF this] show ?thesis
    by (intro alwaysI) (auto simp: handle_model_def Let_def evolves_set_vars split: go.splits option.splits prod.splits)
qed

lemma evolves_handle_metric_models [evolves_rules]: "always evolves (handle_metric_models name spec e maps)"
  unfolding handle_metric_models_def Let_def by (auto split: prod.splits option.splits intro!: evolves_rules)

lemma evolves_close [evolves_rules]: "always evolves (close_channel c)"
  unfolding always_def close_channel_def
  by (auto split: option.splits bool.splits intro!: evolvesI [where gs = "[]"] simp: the_hide_def)

lemma evolves_stop [evolves_rules]: "always evolves (stop_collector name v :: ('c world, unit) act)"
proof -
  have "always evolves (bind_act (close_channel c) (\<lambda>_. delete_in CollectorWorkerMap_update name v) :: ('c world, unit) act)" for c
    by (intro evolves_rules)
  from always_snd [OF this] show ?thesis by (auto simp: always_def stop_collector_def split: option.splits)
qed

lemma evolves_start [evolves_rules]: "always evolves (start_collector name spec m :: ('c world, unit) act)"
proof (rule alwaysI)
  fix w :: "'c world"
  show "evolves w (snd (start_collector name spec m w))"
  proof (cases "pCollector w")
    case (Some p)
    let ?p = "AddCustomMetrics m p"
    have added: "evolves w (w\<lparr>pCollector := Some ?p\<rparr>)" by (rule evolves_same) simp_all
    show ?thesis
    proof (cases "CreateWorker m ?p")
      case (Ret wk)
      let ?c = "length (collectors w)" and ?s = "length (channels w)"
      let ?w = "w\<lparr>pCollector := Some ?p, collectors := collectors w @ [PromWorker wk], channels := channels w @ [False]\<rparr>"
      have w: "evolves w ?w"
        by (rule evolvesI [where gs = "[]"]) (simp_all add: the_hide_def)
      obtain r v where store: "store_in CollectorWorkerMap CollectorWorkerMap_update name (NoModelKey m) ?c ?w = (r, v)" by force
      then have v: "evolves ?w v" using always_snd [OF evolves_steps(6)] by (metis snd_conv)
      have len: "length (collectors v) = Suc ?c" "length (channels v) = Suc ?s"
        using store by (auto simp: store_in_def split: go.splits)
      let ?t = "(put_hide name (CollectorMap_update (AList.update (NoModelKey m) ?s)) v)
        \<lparr>goroutines := goroutines v @ [StartWorkerLoop name ?c ?s (ScrapeInterval spec)]\<rparr>"
      have "hide_Scaler (the_hide n ?t) = hide_Scaler (the_hide n v)" for n
        by (simp add: the_hide_def put_hide_def update_conv' split: option.splits)
      then have "evolves v ?t"
        by (intro evolvesI [where gs = "[StartWorkerLoop name ?c ?s (ScrapeInterval spec)]"]) (simp_all add: gor_ok_def len)
      with w v have "evolves w ?t" "evolves w v" using evolves_trans by blast+
      with Some Ret store show ?thesis
        by (cases r) (simp_all add: start_collector_def alloc_def bind_act_def Let_def)
    qed (use Some added in \<open>simp_all add: start_collector_def Let_def\<close>)
  qed (simp add: start_collector_def)
qed

lemma evolves_make [evolves_rules]: "always evolves (make_predictor name nmk wmk model :: ('c world, unit) act)"
proof (rule alwaysI)
  fix w :: "'c world"
  have cols: "evolves w (w\<lparr>collectors := assign c x (collectors w)\<rparr>)" for c x
    by (rule evolvesI [where gs = "[]"]) (simp_all add: the_hide_def)
  have "evolves w (w\<lparr>collectors := assign c x (collectors w), predictors := predictors w @ [p]\<rparr>)" for c x p
    by (rule evolvesI [where gs = "[]"]) (auto simp: the_hide_def deref_def nth_append split: if_splits)
  from evolves_trans [OF this always_snd [OF evolves_steps(5)]] cols
  show "evolves w (snd (make_predictor name nmk wmk model w))"
    by (simp add: make_predictor_def Let_def alloc_def split: option.splits go.splits prod.splits)
qed

lemma evolves_handlers [evolves_rules]:
  "always evolves (handleMetrics it name spec :: ('c world, unit) act)"
  "always evolves (handleModels it name spec :: ('c world, (string, Model) gomap) act)"
  "always evolves (handleCollector it name spec :: ('c world, StatusCollector list) act)"
  "always evolves (handlePredictor it name spec ch :: ('c world, unit) act)"
  unfolding handleMetrics_def handleModels_def handleCollector_def handlePredictor_def
  by (intro evolves_rules evolves_GetHide; auto split: prod.splits intro!: evolves_rules)+

lemma evolves_handleUpdate: "always evolves (handleUpdate it name spec :: ('c world, StatusCollector list) act)"
  unfolding handleUpdate_def by (intro evolves_rules)

section \<open>Creation\<close>

definition has_scaler :: "NamespacedName \<Rightarrow> 'c world \<Rightarrow> bool" where
  "has_scaler name w \<longleftrightarrow> hide_Scaler (the_hide name w) \<noteq> None"

lemma evolves_scaler: "evolves w w' \<Longrightarrow> has_scaler name w \<Longrightarrow> has_scaler name w'"
  unfolding evolves_def
  by (elim conjE, drule spec [of _ "RunLoop \<lparr>sched_Name = name, Interval = 0\<rparr>"]) (simp add: gor_ok_def has_scaler_def)

lemma always_triple:
  assumes "always evolves m"
  shows "triple (evolves w) m (\<lambda>_. evolves w) (evolves w)"
    "triple (\<lambda>v. evolves w v \<and> has_scaler name v) m (\<lambda>_ v. evolves w v \<and> has_scaler name v) (evolves w)"
proof -
  have "evolves w t \<and> (has_scaler name v \<longrightarrow> has_scaler name t)" if "evolves w v" "m v = (r, t)" for v r t
    using always_snd [OF assms, of v] that evolves_trans evolves_scaler by (metis snd_conv)
  then show "triple (evolves w) m (\<lambda>_. evolves w) (evolves w)"
    "triple (\<lambda>v. evolves w v \<and> has_scaler name v) m (\<lambda>_ v. evolves w v \<and> has_scaler name v) (evolves w)"
    by (auto intro!: tripleI)
qed

lemma evolves_GetOrNew: "evolves w (snd (GetOrNew name i w))"
proof -
  have "evolves w (w\<lparr>schedulers := AList.update name \<lparr>sched_Name = name, Interval = i\<rparr> (schedulers w)\<rparr>)"
    by (auto simp: evolves_def procs_ok_def gor_ok_def task_ok_def the_hide_def update_conv' split: goroutine.splits task.splits)
  then show ?thesis by (simp add: GetOrNew_def Let_def split: option.splits)
qed

lemma evolves_run:
  assumes "GetOrNew name i v = (Ret s, u)" and "has_scaler name v"
  shows "evolves v (u\<lparr>goroutines := goroutines u @ [RunLoop s]\<rparr>)"
proof -
  have u: "evolves v u" using evolves_GetOrNew [of v name i] assms(1) by simp
  have s: "map_of (schedulers u) name = Some s"
    using assms(1) by (auto simp: GetOrNew_def Let_def update_conv' split: option.splits)
  have "evolves u (u\<lparr>goroutines := goroutines u @ [RunLoop s]\<rparr>)"
  proof (rule evolvesI)
    assume "procs_ok u"
    then have "sched_Name s = name" using s by (simp add: procs_ok_def)
    with evolves_scaler [OF u assms(2)]
    show "\<forall>g \<in> set [RunLoop s]. gor_ok (u\<lparr>goroutines := goroutines u @ [RunLoop s]\<rparr>) g"
      by (simp add: gor_ok_def has_scaler_def the_hide_def)
  qed (simp_all add: the_hide_def)
  with u show ?thesis by (rule evolves_trans)
qed

lemma evolves_handleCreate: "evolves w (snd (handleCreate env it name spec w))"
proof -
  have prom: "always evolves (modify init_promc)" "always evolves (set_server_address lib url)" for lib url
    by (auto simp: always_def init_promc_def set_server_address_def intro!: evolves_same split: option.splits prod.splits)
  have scaler: "triple (evolves w) (modify (put_hide name (hide_Scaler_update (\<lambda>_. Some sc))))
      (\<lambda>_ v. evolves w v \<and> has_scaler name v) (evolves w)" for sc
    by (rule triple_modify) (auto simp: has_scaler_def intro: evolves_trans [OF _ evolves_put])
  have run: "triple (\<lambda>v. evolves w v \<and> has_scaler name v) (bind_act (GetOrNew name i) (\<lambda>s.
      bind_act (modify (\<lambda>w. w\<lparr>goroutines := goroutines w @ [RunLoop s]\<rparr>)) (\<lambda>_. return_act cs)))
      (\<lambda>_. evolves w) (evolves w)" for i and cs :: "StatusCollector list"
  proof (rule triple_returns)
    fix v assume v: "evolves w v \<and> has_scaler name v"
    obtain s u where g: "GetOrNew name i v = (Ret s, u)"
      by (cases "map_of (schedulers v) name") (auto simp: GetOrNew_def Let_def)
    from evolves_trans [OF conjunct1 [OF v] evolves_run [OF g conjunct2 [OF v]]] g
    show "\<exists>a t. bind_act (GetOrNew name i) (\<lambda>s. bind_act (modify (\<lambda>w. w\<lparr>goroutines := goroutines w @ [RunLoop s]\<rparr>))
        (\<lambda>_. return_act cs)) v = (Ret a, t) \<and> evolves w t" by simp
  qed
  have "triple (evolves w) (handleCreate env it name spec) (\<lambda>_. evolves w) (evolves w)"
    unfolding handleCreate_def
    by (rule triple_bind [OF always_triple(1) [OF prom(1)]], rule triple_bind [OF always_triple(1) [OF prom(2)]],
        rule triple_bind [OF always_triple(1) [OF evolves_GetHide]], rule triple_bind [OF scaler],
        rule triple_bind [OF always_triple(2) [OF evolves_handleUpdate]], rule run)
  from triple_state [OF this, of w] show ?thesis by simp
qed

lemma always_handleCreate: "always evolves (handleCreate env it name spec)"
  by (rule alwaysI) (rule evolves_handleCreate)

lemma evolves_Reconcile: "evolves w (snd (Reconcile env it found w))"
proof -
  have "evolves w (snd (Handle env it inst w))" for inst
  proof -
    obtain r v where run: "new_client env w = (r, v)" by force
    then obtain c where "v = w\<lparr>k8s_client := c\<rparr>" using new_client_world by blast
    then have v: "evolves w v" by (auto intro!: evolves_same)
    have "always evolves (bind_act
          (if StatusGeneration inst = 0 then handleCreate env it (aom_name inst) (Spec inst)
           else if StatusGeneration inst < Generation inst then handleUpdate it (aom_name inst) (Spec inst)
           else return_act (StatusCollectors inst)) (\<lambda>cs. lift_go (\<lambda>_. f cs)))" for f :: "_ \<Rightarrow> unit go"
      by (intro evolves_rules evolves_handleUpdate always_handleCreate)
    from evolves_trans [OF v always_snd [OF this]] run v show ?thesis
      by (cases r) (auto simp: Handle_def)
  qed
  then show ?thesis by (simp add: Reconcile_state split: get_result.splits)
qed

section \<open>The loops\<close>

lemma only_samples_evolves: "only_samples w w' \<Longrightarrow> evolves w w'"
proof -
  assume "only_samples w w'"
  then obtain cs gs where w': "w' = w\<lparr>collectors := cs, goroutines := goroutines w @ gs\<rparr>" "length cs = length (collectors w)"
    "\<forall>g \<in> set gs. \<exists>a p. g = WaitLoop a \<and> deref (predictors w) a = Some (GruPredictor p)"
    by (auto simp: only_samples_def)
  then show ?thesis
    by (intro evolvesI [where gs = gs]) (auto simp: the_hide_def gor_ok_def)
qed

lemma only_samples_good: "only_samples w w' \<Longrightarrow> good w \<Longrightarrow> good w'"
  using only_samplesD(1,8-10) world_ok_grow by (metis good_def promc_ready_def)

lemma good_GetHide: "good w \<Longrightarrow> good (snd (GetHide name w))"
proof -
  assume w: "good w"
  have "in_shape name (shape_of name w) (snd (GetHide name w))"
    using GetHide_triple w good_shape by blast
  moreover have "background name (snd (GetHide name w)) = background name w" by (rule keeps_snd [OF background_GetHide])
  ultimately show ?thesis using w by (auto simp: good_def in_shape_def promc_ready_def background_def)
qed

lemma act_on_world: "act_on env name scr results st = (r, st') \<Longrightarrow> fst st' = fst st"
  by (auto simp: act_on_def split: if_splits go.splits prod.splits)

lemma tick_world:
  assumes "tick env s (w, cl) = Some (r, (w', cl'))"
  shows "only_samples (snd (GetHide (sched_Name s) w)) w'"
proof -
  let ?w0 = "snd (GetHide (sched_Name s) w)"
  show ?thesis
  proof (cases "scheduled env ?w0 (the_hide (sched_Name s) w)")
    case (Ret ts)
    then obtain q v cv where run: "run_tasks env (hide_Scaler (the_hide (sched_Name s) w)) (tick_order env ts) [] (?w0, cl) = Some (q, (v, cv))"
      using assms by (auto simp: tick_halves Let_def split: option.splits)
    from run_tasks_samples [OF run] have v: "only_samples ?w0 v" .
    show ?thesis
    proof (cases q)
      case results: (Ret results)
      with Ret run assms have "act_on env (sched_Name s) (hide_Scaler (the_hide (sched_Name s) w)) results (v, cv) = (r, (w', cl'))"
        by (simp add: tick_halves Let_def)
      from act_on_world [OF this] v show ?thesis by simp
    qed (use Ret run assms v in \<open>auto simp: tick_halves Let_def\<close>)
  qed (use assms in \<open>auto simp: tick_halves Let_def\<close>)
qed

lemma worker_turn_samples:
  assumes "worker_turn lib now d name a ch ended w = (r, w')"
  shows "only_samples w w'"
proof -
  have "only_samples w (w\<lparr>collectors := assign a c' (collectors w)\<rparr>)"
    if "deref (collectors w) a = Some c" and "mc_Collect lib now c = (q, c')" for c q c'
    using that mc.key_collect [of lib now c] by (intro only_samples_assign) (auto simp: deref_eq_Some_iff)
  with assms show ?thesis
    by (auto simp: worker_turn_def Let_def split: option.splits go.splits if_splits prod.splits)
qed

section \<open>The system\<close>

text \<open>A goroutine that has not run yet, one whose loop runs (with the variable \<open>end\<close>), and one that is done.\<close>

datatype phase = Fresh | Active bool | Done

type_synonym 'c sys = "'c world \<times> 'c \<times> (nat \<Rightarrow> phase)"

text \<open>
  A step that panics ends the process and is no step. The API server hands out objects whose maps have
  distinct keys; the libraries, the clocks and the orders of map iterations are chosen anew at each step,
  and the cluster changes at any time.
\<close>

inductive sys_step :: "'c sys \<Rightarrow> 'c sys \<Rightarrow> bool" where
  reconcile: "fair_iter it \<Longrightarrow> (case found of Found inst \<Rightarrow> wf_spec (Spec inst) | _ \<Rightarrow> True) \<Longrightarrow>
    Reconcile env it found w = (Ret res, w') \<Longrightarrow> sys_step (w, cl, ph) (w', cl, ph)"
| start_worker: "i < length (goroutines w) \<Longrightarrow> goroutines w ! i = StartWorkerLoop name a ch iv \<Longrightarrow> ph i = Fresh \<Longrightarrow>
    StartWorker_start iv = Ret () \<Longrightarrow> GetHide name w = (Ret h, w') \<Longrightarrow>
    sys_step (w, cl, ph) (w', cl, ph(i := Active False))"
| turn: "i < length (goroutines w) \<Longrightarrow> goroutines w ! i = StartWorkerLoop name a ch iv \<Longrightarrow> ph i = Active ended \<Longrightarrow>
    worker_turn lib now ctx_done name a ch ended w = (Ret t, w') \<Longrightarrow>
    sys_step (w, cl, ph) (w', cl, ph(i := (case t of Going e \<Rightarrow> Active e | Ended \<Rightarrow> Done)))"
| start_run: "i < length (goroutines w) \<Longrightarrow> goroutines w ! i = RunLoop s \<Longrightarrow> ph i = Fresh \<Longrightarrow>
    Run_start s = Ret () \<Longrightarrow> sys_step (w, cl, ph) (w, cl, ph(i := Active False))"
| tick: "i < length (goroutines w) \<Longrightarrow> goroutines w ! i = RunLoop s \<Longrightarrow> ph i = Active ended \<Longrightarrow>
    fair_iter (tick_iter tenv) \<Longrightarrow> fair_order tenv \<Longrightarrow> tick tenv s (w, cl) = Some (Ret (), (w', cl')) \<Longrightarrow>
    sys_step (w, cl, ph) (w', cl', ph)"
| trained: "i < length (goroutines w) \<Longrightarrow> goroutines w ! i = WaitLoop a \<Longrightarrow> ph i = Fresh \<Longrightarrow>
    deref (predictors w) a = Some (GruPredictor g) \<Longrightarrow> WaitAndUpdate glib l g = Some (r, g') \<Longrightarrow> \<not> (\<exists>x. r = Panic x) \<Longrightarrow>
    sys_step (w, cl, ph) (w\<lparr>predictors := assign a (GruPredictor g') (predictors w)\<rparr>, cl, ph(i := Done))"
| cluster: "sys_step (w, cl, ph) (w, cl', ph)"

definition sys_ok :: "'c sys \<Rightarrow> bool" where
  "sys_ok st \<longleftrightarrow> good (fst st) \<and> procs_ok (fst st)"

lemma good_Reconcile:
  assumes "fair_iter it" and "good w" and "case found of Found inst \<Rightarrow> wf_spec (Spec inst) | _ \<Rightarrow> True"
  shows "good (snd (Reconcile env it found w))"
  using Reconcile_invariant [OF assms(1,2), of "case found of Found inst \<Rightarrow> aom_name inst | _ \<Rightarrow> name" found env] assms(3)
  by (auto split: get_result.splits)

lemma trained_good:
  assumes "good w" and "deref (predictors w) a = Some (GruPredictor g)" and "WaitAndUpdate glib l g = Some (r, g')"
  shows "good (w\<lparr>predictors := assign a (GruPredictor g') (predictors w)\<rparr>) \<and>
    evolves w (w\<lparr>predictors := assign a (GruPredictor g') (predictors w)\<rparr>)"
proof -
  let ?w = "w\<lparr>predictors := assign a (GruPredictor g') (predictors w)\<rparr>"
  have g: "gru_Key g' = gru_Key g" "gru_collectorWorker g' = gru_collectorWorker g"
    using WaitAndUpdate_changes [OF assms(3)] by (auto simp: gru_Key_def)
  have "grows w ?w"
    using assms(2) g by (auto simp: grows_def cells assign_def nth_list_update deref_eq_Some_iff)
  then have "good ?w" using assms(1) world_ok_grow [of w ?w] by (simp add: good_def promc_ready_def)
  moreover have "evolves w ?w"
    by (rule evolvesI [where gs = "[]"]) (use assms(2) g(2) in \<open>auto simp: the_hide_def deref_assign assign_def nth_list_update deref_eq_Some_iff\<close>)
  ultimately show ?thesis by simp
qed

lemma sys_step_keeps: "sys_step st st' \<Longrightarrow> sys_ok st \<Longrightarrow> sys_ok st' \<and> evolves (fst st) (fst st')"
proof (induction rule: sys_step.induct)
  case (reconcile it found env w res w' cl ph)
  then have "good w'" "evolves w w'"
    using good_Reconcile [of it w found env] evolves_Reconcile [of w env it found] by (auto simp: sys_ok_def)
  then show ?case using reconcile by (auto simp: sys_ok_def evolves_def)
next
  case (start_worker i w name a ch iv ph h w' cl)
  then have "good w'" "evolves w w'"
    using good_GetHide [of w name] always_snd [OF evolves_GetHide, of w name] by (auto simp: sys_ok_def)
  then show ?case using start_worker by (auto simp: sys_ok_def evolves_def)
next
  case (turn i w name a ch iv ph ended lib now ctx_done t w' cl)
  from worker_turn_samples [OF turn(4)] turn only_samples_good only_samples_evolves
  show ?case by (fastforce simp: sys_ok_def evolves_def)
next
  case (tick i w s ph ended tenv cl w' cl')
  from tick_world [OF tick(6)] have w': "only_samples (snd (GetHide (sched_Name s) w)) w'" .
  then have "evolves w w'"
    using only_samples_evolves always_snd [OF evolves_GetHide] evolves_trans by blast
  moreover have "good w'" using only_samples_good [OF w' good_GetHide] tick by (simp add: sys_ok_def)
  ultimately show ?case using tick by (auto simp: sys_ok_def evolves_def)
next
  case (trained i w a ph g glib l r g' cl)
  then show ?case using trained_good [of w a g glib l r g'] by (auto simp: sys_ok_def evolves_def)
qed (auto simp: sys_ok_def)

end
