(* ===== verification/NilSafety.thy ===== *)
theory NilSafety
  imports System
begin

text \<open>
  No step of a running operator dereferences a nil pointer: the lemmas follow the panics of each
  operation to their kinds.
\<close>

section \<open>Operations that do not dereference nil\<close>

named_theorems nil_rules \<open>operations that do not panic with a nil dereference\<close>

definition no_nil :: "'a go \<Rightarrow> bool" where
  "no_nil r \<longleftrightarrow> r \<noteq> Panic NilDereference"

lemma no_nil_simps [simp]:
  "no_nil (Ret a)" "no_nil (Err e)" "no_nil (Panic x) \<longleftrightarrow> x \<noteq> NilDereference"
  by (simp_all add: no_nil_def)

lemma no_nil_and_then [nil_rules]: "no_nil r \<Longrightarrow> (\<And>a. no_nil (f a)) \<Longrightarrow> no_nil (and_then r f)"
  by (cases r) simp_all

lemma no_nil_map_go [simp]: "no_nil (map_go f r) = no_nil r"
  by (cases r) simp_all

lemma no_nil_fold [nil_rules]: "(\<And>x s. no_nil (f x s)) \<Longrightarrow> no_nil (fold_go f xs s)"
proof (induction xs arbitrary: s)
  case (Cons x xs)
  show ?case unfolding fold_go.simps by (rule no_nil_and_then [OF Cons.prems Cons.IH [OF Cons.prems]])
qed simp

lemma no_nil_fold_set: "(\<And>x s. x \<in> set xs \<Longrightarrow> no_nil (f x s)) \<Longrightarrow> no_nil (fold_go f xs s)"
proof (induction xs arbitrary: s)
  case (Cons x xs)
  show ?case unfolding fold_go.simps by (rule no_nil_and_then) (simp_all add: Cons)
qed simp

lemma no_nil_basic [nil_rules]:
  "no_nil (index xs i)" "no_nil (slice xs lo hi)" "no_nil (quot64 a b)" "no_nil (quot32 c d)" "no_nil (utils_Max ys)"
  by (simp_all add: index_def slice_def quot64_def quot32_def utils_Max_def split: list.splits)

lemma no_nil_hw [nil_rules]: "no_nil (tripleExponentialSmoothing p series)"
  unfolding tripleExponentialSmoothing_def initialSeasonalComponents_def seasonAverages_def initialTrend_def
  by (intro nil_rules no_nil_simps)

lemma hw_Predict_no_nil: "no_nil (fst (hw_Predict p c))"
  by (auto simp: hw_Predict_def Let_def split: prod.splits intro!: nil_rules)

lemma ask_no_nil: "ask lib g payload = Some r \<Longrightarrow> no_nil r"
  by (auto simp: ask_def SetNetwork_def SetBody_def SetAddress_def split: option.splits)

lemma gru_Predict_no_nil:
  assumes "gru_Predict lib g c = Some (r, c')"
  shows "no_nil r"
proof -
  have "no_nil (understand lib h s)" for h s
    unfolding understand_def by (intro nil_rules) (auto split: sum.splits intro!: nil_rules)
  then have "no_nil (and_then q (understand lib h))" if "ask lib g payload = Some q" for q h payload
    using ask_no_nil [OF that] by (intro no_nil_and_then)
  moreover have "no_nil (slice xs lo hi)" for xs :: "sample list" and lo hi by (rule nil_rules)
  then have "slice xs lo hi = Panic x \<Longrightarrow> x \<noteq> NilDereference" for xs :: "sample list" and lo hi x
    by (metis no_nil_simps(3))
  moreover have "Marshal lib rq \<noteq> Panic x" for rq x by (simp add: Marshal_def split: sum.splits)
  ultimately show ?thesis
    using assms by (auto simp: gru_Predict_def Let_def split: if_splits prod.splits go.splits)
qed

lemma pred_Predict_no_nil: "pred_Predict lib p c = Some (r, c') \<Longrightarrow> no_nil r"
  using hw_Predict_no_nil by (cases p) (auto dest: gru_Predict_no_nil, metis fst_conv)

lemma pred_Train_no_nil: "no_nil (fst (pred_Train lib p c))"
proof (cases p)
  case (GruPredictor g)
  have "no_nil (Marshal lib rq)" for rq by (simp add: Marshal_def split: sum.splits)
  then show ?thesis
    using GruPredictor by (auto simp: gru_Train_def Let_def split: prod.splits sum.splits option.splits intro!: nil_rules)
qed (simp add: hw_Train_def)

lemma ParseFloat_no_nil: "no_nil (ParseFloat s)"
  using ParseFloat_no_panic [of s] by (cases "ParseFloat s") auto

lemma MaxStrategy_no_nil [nil_rules]: "no_nil (MaxStrategy rs)"
  by (cases "rs = []") (simp_all add: MaxStrategy_eq, simp add: MaxStrategy_def)

lemma AddSlice_no_nil [nil_rules]: "no_nil (AddSlice rs)"
  by (auto simp: AddSlice_def split: list.splits intro!: no_nil_and_then no_nil_fold)

section \<open>A tick\<close>

lemma entries_map_of: "fair_iter it \<Longrightarrow> (k, v) \<in> set (entries it n m) \<Longrightarrow> map_of m k = Some v"
  by (auto simp: entries_def)

lemma scheduled_ok:
  assumes "fair_iter (tick_iter env)" and "hide_ok w h"
  shows "\<exists>ts. scheduled env w h = Ret ts \<and> (\<forall>t \<in> set ts. task_ok w t)"
  unfolding scheduled_def
proof (rule fold_go_total)
  fix e :: "string \<times> addr" and ts
  assume e: "e \<in> set (entries (tick_iter env) 20 (cm_data (PredictorMap h)))" and ts: "\<forall>t \<in> set ts. task_ok w t"
  obtain k a where ka: "e = (k, a)" by force
  have "map_of (cm_data (PredictorMap h)) k = Some a" by (rule entries_map_of [OF assms(1) e [unfolded ka]])
  then have a: "pred_cell w k a" using hide_ok_entries(3) [OF assms(2)] unfolding entries_ok_def by blast
  have model: "deref (model_vars w) m \<noteq> None" if "cm_Load (ModelMap h) k' = Ret m" for k' m
    using entries_ok_Load [OF hide_ok_entries(2) [OF assms(2)] that] by (simp add: model_cell_def deref_def)
  have metric: "m < length (metric_vars w)" if "cm_Load (MetricMap h) k' = Ret m" for k' m
    using entries_ok_Load [OF hide_ok_entries(1) [OF assms(2)] that] by (simp add: metric_cell_def)
  have "\<exists>new. tasks_for (tick_now env) w h e = Ret new \<and> (\<forall>t \<in> set new. task_ok w t)"
    using a by (auto simp: tasks_for_def ka task_ok_def pred_cell_def dest: model metric split: go.splits option.splits)
  then show "\<exists>ts'. map_go (\<lambda>new. ts @ new) (tasks_for (tick_now env) w h e) = Ret ts' \<and> (\<forall>t \<in> set ts'. task_ok w t)"
    using ts by auto
qed simp

lemma task_ok_samples: "only_samples w w' \<Longrightarrow> task_ok w t \<Longrightarrow> task_ok w' t"
  by (cases t) (simp_all add: task_ok_def only_samplesD(3,5,7))

definition client_set :: "'c world \<Rightarrow> bool" where
  "client_set w \<longleftrightarrow> GlobalClient (k8s_client w) \<noteq> None"

lemma client_calls_no_nil:
  assumes "client_set w"
  shows "no_nil (fst (GetModelReplica lib (k8s_client w) (Some sc) ms st strategy t cl))"
    "no_nil (fst (UpTo lib (k8s_client w) (Some sc) n cl))"
  using assms
  by (auto simp: client_set_def GetModelReplica_def UpTo_def GetReplica_def SetReplica_def Let_def
      split: prod.splits go.splits sum.splits)

lemma train_task_no_nil: "task_ok w (TrainTask a) \<Longrightarrow> no_nil (fst (train_task env a (w, cl)))"
  using pred_Train_no_nil [of "tick_gru env" "predictors w ! a" "collectors w ! pred_collector (predictors w ! a)"]
  by (auto simp: train_task_def task_ok_def deref_def Let_def split: prod.splits go.splits)

lemma predict_task_no_nil:
  assumes "task_ok w (PredictTask k a m)" and "client_set w" and "predict_task env (Some sc) k a m (w, cl) = Some (r, st)"
  shows "no_nil r"
proof -
  let ?p = "predictors w ! a" and ?c = "collectors w ! pred_collector (predictors w ! a)"
  obtain q c' where run: "pred_Predict (tick_gru env) ?p ?c = Some (q, c')"
    using assms(1,3) by (auto simp: predict_task_def task_ok_def deref_def Let_def split: option.splits)
  have q: "no_nil q" by (rule pred_Predict_no_nil [OF run])
  let ?w = "w\<lparr>collectors := assign (pred_collector ?p) c' (collectors w)\<rparr>"
  have "client_set ?w" using assms(2) by (simp add: client_set_def)
  then have calls: "no_nil (fst (GetModelReplica lib (k8s_client w) (Some sc) ms st strategy t cl))" for lib ms st strategy t
    using client_calls_no_nil(1) [of ?w] by simp
  have float: "no_nil (ParseFloat s)" for s by (rule ParseFloat_no_nil)
  show ?thesis
  proof (cases q)
    case (Ret pr)
    then show ?thesis
      using assms(1,3) run float [of "Target (metric_vars w ! m)"] calls
      by (auto simp: predict_task_def task_ok_def deref_def Let_def split: go.splits prod.splits) (metis fst_conv no_nil_simps)+
  qed (use assms(1,3) run q in \<open>auto simp: predict_task_def task_ok_def deref_def Let_def\<close>)
qed

lemma run_tasks_no_nil:
  "\<forall>t \<in> set ts. task_ok w t \<Longrightarrow> client_set w \<Longrightarrow>
    run_tasks env (Some sc) ts results (w, cl) = Some (r, st) \<Longrightarrow> no_nil r"
proof (induction ts arbitrary: results w cl)
  case (Cons t ts)
  then obtain q v cv where step: "run_task env (Some sc) t (w, cl) = Some (q, (v, cv))"
    by (auto split: option.splits)
  have q: "no_nil q"
    using step Cons.prems(1,2) predict_task_no_nil [of w _ _ _ env sc cl q "(v, cv)"] train_task_no_nil [of w _ env cl]
    by (cases t) (auto, metis fst_conv)
  have v: "only_samples w v" using run_task_samples [OF step] ..
  then have "\<forall>t \<in> set ts. task_ok v t" "client_set v"
    using Cons.prems(1,2) task_ok_samples only_samplesD(2) by (fastforce simp: client_set_def)+
  with Cons step q show ?case by (auto split: go.splits)
qed auto

lemma decide_no_nil:
  assumes "hide_ok w h"
  shows "no_nil (decide it w h results)"
proof -
  have "deref (metric_vars w) a \<noteq> None" if "cm_Load (MetricMap h) k = Ret a" for k a
    using entries_ok_Load [OF hide_ok_entries(1) [OF assms] that] by (simp add: metric_cell_def deref_def)
  then have "no_nil (weighted it w h mr)" for mr
    unfolding weighted_def by (intro no_nil_fold) (fastforce split: prod.splits go.splits option.splits)
  moreover have "no_nil (metric_replicas it mr)" for mr
    unfolding metric_replicas_def GetMetricReplica_def by (intro no_nil_fold) (auto intro!: nil_rules)
  ultimately show ?thesis
    unfolding decide_def GetScaleReplica_def SelectMax_def by (intro nil_rules)
qed

lemma tick_no_nil:
  assumes "world_ok w" and "has_scaler (sched_Name s) w" and "client_set w" and "fair_iter (tick_iter env)" and "fair_order env"
    and "tick env s (w, cl) = Some (r, st)"
  shows "no_nil r"
proof -
  let ?n = "sched_Name s" and ?h = "the_hide (sched_Name s) w"
  let ?w0 = "snd (GetHide ?n w)"
  obtain sc where sc: "hide_Scaler ?h = Some sc" using assms(2) by (auto simp: has_scaler_def)
  have w0: "world_ok ?w0" "client_set ?w0"
    using GetHide_triple [of ?n "shape_of ?n w" w] assms(1,3) by (auto simp: in_shape_def client_set_def tick_GetHide)
  obtain ts where ts: "scheduled env ?w0 ?h = Ret ts" "\<forall>t \<in> set ts. task_ok ?w0 t"
    using scheduled_ok [OF assms(4) world_okD [OF w0(1), of ?n]] by (auto simp: tick_GetHide)
  have "set (tick_order env ts) = set ts"
    using assms(5) unfolding fair_order_def by (metis set_mset_mset)
  with ts(2) have oks: "\<forall>t \<in> set (tick_order env ts). task_ok ?w0 t" by simp
  obtain q v cv where run: "run_tasks env (Some sc) (tick_order env ts) [] (?w0, cl) = Some (q, (v, cv))"
    using assms(6) ts(1) sc by (auto simp: tick_halves Let_def split: option.splits)
  have q: "no_nil q" by (rule run_tasks_no_nil [OF oks w0(2) run])
  note v = run_tasks_samples [OF run]
  have vok: "hide_ok v (the_hide ?n v)" "client_set v"
    using world_ok_grow [OF w0(1)] only_samplesD(1,2,10) [OF v] w0(2) by (auto simp: world_ok_def client_set_def)
  show ?thesis
  proof (cases q)
    case (Ret results)
    have "no_nil (fst (act_on env ?n (Some sc) results (v, cv)))"
      using decide_no_nil [OF vok(1), of "tick_iter env" results] client_calls_no_nil(2) [OF vok(2), of "tick_k8s env" sc _ cv]
      by (auto simp: act_on_def split: go.splits prod.splits) (metis fst_conv no_nil_simps(3))
    then show ?thesis using assms(6) ts(1) sc run Ret by (auto simp: tick_halves Let_def)
  qed (use assms(6) ts(1) sc run q in \<open>auto simp: tick_halves Let_def\<close>)
qed

section \<open>Properties\<close>

definition start_sys :: "'c \<Rightarrow> 'c sys" where
  "start_sys cl = (start_world, cl, \<lambda>_. Fresh)"

lemma reachable_ok: "sys_step\<^sup>*\<^sup>* (start_sys cl) st \<Longrightarrow> sys_ok st"
proof (induction rule: rtranclp_induct)
  case base
  then show ?case using start_good by (simp add: sys_ok_def start_sys_def procs_ok_def) (simp add: start_world_def)
qed (use sys_step_keeps in blast)

text \<open>In every state the operator can reach, under any interleaving of reconciliations, ticks,
  collections and trainings, with any answers of the API server, the cluster, the Prometheus server
  and the Python processes: every pointer in the maps leads to an object of its kind filed under its
  own key, and every goroutine holds what it works on - a collector's loop its worker and its channel,
  a scheduler's loop an instance that has a scaler, a waiting goroutine a GRU predictor.\<close>

lemma reachable_safe:
  assumes "sys_step\<^sup>*\<^sup>* (start_sys cl0) (w, cl, ph)"
  shows "world_ok w \<and> list_all (gor_ok w) (goroutines w)"
  using reachable_ok [OF assms] by (simp add: sys_ok_def good_def procs_ok_def list_all_iff)

text \<open>In every state the operator can reach in which the Kubernetes client has been made, no tick of a
  scheduler whose loop was started dereferences a nil pointer.\<close>

lemma reachable_no_nil:
  assumes "sys_step\<^sup>*\<^sup>* (start_sys cl0) (w, cl, ph)" and "client_set w"
    and "RunLoop s \<in> set (goroutines w)" and "fair_iter (tick_iter env)" and "fair_order env"
    and "tick env s (w, cl) = Some (r, st)"
  shows "r \<noteq> Panic NilDereference"
proof -
  have ok: "world_ok w" "gor_ok w (RunLoop s)"
    using reachable_ok [OF assms(1)] assms(3) by (auto simp: sys_ok_def good_def procs_ok_def)
  then have "has_scaler (sched_Name s) w" by (simp add: gor_ok_def has_scaler_def)
  from tick_no_nil [OF ok(1) this assms(2,4-6)] show ?thesis by (simp add: no_nil_def)
qed

end
