(* ===== verification/Retry.thy ===== *)
theory Retry
  imports System
begin

text \<open>
  A creation that is retried because the API server refused the status: every handler is repeated, and
  so is the start of the scheduler's loop.
\<close>

section \<open>The loops of an instance\<close>

definition loops :: "NamespacedName \<Rightarrow> 'c world \<Rightarrow> nat" where
  "loops name w =
     (case map_of (schedulers w) name of None \<Rightarrow> 0 | Some s \<Rightarrow> count_list (goroutines w) (RunLoop s))"

lemma loops_client [simp]: "loops name (w\<lparr>k8s_client := c\<rparr>) = loops name w"
  by (simp add: loops_def cong: option.case_cong)

lemma loops_GetHide: "loops name (snd (GetHide n w)) = loops name w"
  by (simp add: GetHide_def loops_def Let_def split: option.splits)

lemma loops_set_address: "loops name (snd (set_server_address lib url w)) = loops name w"
  by (auto simp: set_server_address_def loops_def split: option.splits prod.splits)

lemma loops_handleUpdate: "loops name w \<le> loops name (snd (handleUpdate it n spec w))"
proof -
  let ?t = "snd (handleUpdate it n spec w)"
  have "schedulers ?t = schedulers w"
    using keeps_snd [OF background_handleUpdate, of n it spec w] by (simp add: background_def)
  moreover obtain gs where "goroutines ?t = goroutines w @ gs"
    using always_snd [OF evolves_handleUpdate] unfolding evolves_def by blast
  ultimately show ?thesis by (simp add: loops_def split: option.splits)
qed

lemma loops_start:
  assumes "GetOrNew name i w = (r, u)"
  shows "\<exists>s. r = Ret s \<and> Suc (loops name w) \<le> loops name (u\<lparr>goroutines := goroutines u @ [RunLoop s]\<rparr>)"
  using assms by (auto simp: GetOrNew_def Let_def loops_def update_conv' split: option.splits)

lemma loops_triple:
  assumes "\<And>w. loops name w \<le> loops name (snd (m w))"
  shows "triple (\<lambda>v. k \<le> loops name v) m (\<lambda>_ v. k \<le> loops name v) (\<lambda>_. True)"
  by (rule tripleI) (use assms in \<open>metis le_trans snd_conv\<close>)+

lemma handleCreate_loops:
  assumes "handleCreate env it name spec w = (Ret cs, t)"
  shows "Suc (loops name w) \<le> loops name t"
proof -
  let ?k = "loops name w"
  have run: "triple (\<lambda>v. ?k \<le> loops name v) (bind_act (GetOrNew name i) (\<lambda>s.
      bind_act (modify (\<lambda>w. w\<lparr>goroutines := goroutines w @ [RunLoop s]\<rparr>)) (\<lambda>_. return_act cs)))
      (\<lambda>_ v. Suc ?k \<le> loops name v) (\<lambda>_. True)" for i and cs :: "StatusCollector list"
  proof (rule triple_returns)
    fix v assume v: "?k \<le> loops name v"
    obtain r u where g: "GetOrNew name i v = (r, u)" by force
    from loops_start [OF this] v g
    show "\<exists>a t. bind_act (GetOrNew name i) (\<lambda>s. bind_act (modify (\<lambda>w. w\<lparr>goroutines := goroutines w @ [RunLoop s]\<rparr>))
        (\<lambda>_. return_act cs)) v = (Ret a, t) \<and> Suc ?k \<le> loops name t" by auto
  qed
  have keep: "loops name w \<le> loops name (snd (modify init_promc w))" "loops name w \<le> loops name (snd (modify (put_hide n f) w))"
    for w :: "'a world" and n f
    by (simp_all add: loops_def init_promc_def put_hide_def cong: option.case_cong)
  have "triple (\<lambda>v. ?k \<le> loops name v) (handleCreate env it name spec) (\<lambda>_ v. Suc ?k \<le> loops name v) (\<lambda>_. True)"
    unfolding handleCreate_def
    by (rule triple_bind [OF loops_triple [OF keep(1)]], rule triple_bind [OF loops_triple [OF eq_imp_le [OF sym [OF loops_set_address]]]],
        rule triple_bind [OF loops_triple [OF eq_imp_le [OF sym [OF loops_GetHide]]]], rule triple_bind [OF loops_triple [OF keep(2)]],
        rule triple_bind [OF loops_triple [OF loops_handleUpdate]], rule run)
  from triple_Ret [OF this _ assms] show ?thesis by simp
qed

section \<open>Two reconciliations\<close>

lemma new_client_again:
  assumes "fst (new_client env w) = Ret ()" and "k8s_client v = k8s_client (snd (new_client env w))"
  shows "new_client env' v = (Ret (), v)"
  using assms by (auto simp: new_client_def NewClient_def split: prod.splits if_splits)

lemma create_step:
  fixes w :: "'c world"
  assumes "fair_iter it" and "valid_spec (Spec inst)" and "good w" and "adding (shape_of (aom_name inst) w) (Spec inst)"
    and "StatusGeneration inst = 0" and "Generation inst \<noteq> 0"
    and "fst (new_client env w) = Ret ()" and "address_ok env (Spec inst)"
  obtains cs t where
    "Reconcile env it (Found inst) w =
       (Ret (case Status_Update env (inst\<lparr>StatusCollectors := cs, StatusGeneration := Generation inst\<rparr>) of
               None \<Rightarrow> \<lparr>RequeueAfter = 0, reconcile_error = None\<rparr> | Some e \<Rightarrow> retry e), t)"
    "good t" "adding (shape_of (aom_name inst) t) (Spec inst)" "Suc (loops (aom_name inst) w) \<le> loops (aom_name inst) t"
    "k8s_client t = k8s_client (snd (new_client env w))"
proof -
  let ?n = "aom_name inst"
  obtain v where run: "new_client env w = (Ret (), v)" using assms(7) by (cases "new_client env w") auto
  then obtain c where v: "v = w\<lparr>k8s_client := c\<rparr>" using new_client_world by blast
  then have "good v" "shape_of ?n v = shape_of ?n w" using assms(3) good_client by (auto simp: shape_of_def)
  with handleCreate_returns [OF assms(1,2,8), of v ?n] assms(4) obtain cs t where
    t: "handleCreate env it ?n (Spec inst) v = (Ret cs, t)" "in_shape ?n (spec_shape (Spec inst)) t" "pCollector t \<noteq> None"
    by auto
  moreover have "good t" using t(2,3) by (auto simp: good_def in_shape_def promc_ready_def)
  moreover have "adding (shape_of ?n t) (Spec inst)" using t(2) by (auto simp: in_shape_def adding_def spec_shape_def)
  moreover have "Suc (loops ?n w) \<le> loops ?n t" using handleCreate_loops [OF t(1)] v by simp
  moreover have "k8s_client t = k8s_client (snd (new_client env w))" using keepsD [OF client_create t(1)] run by simp
  moreover have "Reconcile env it (Found inst) w =
       (Ret (case Status_Update env (inst\<lparr>StatusCollectors := cs, StatusGeneration := Generation inst\<rparr>) of
               None \<Rightarrow> \<lparr>RequeueAfter = 0, reconcile_error = None\<rparr> | Some e \<Rightarrow> retry e), t)"
    using run t(1) assms(5,6) by (simp add: Reconcile_def Handle_def split: option.splits)
  ultimately show ?thesis by (intro that)
qed

section \<open>Property\<close>

text \<open>C19: when the API server refuses the status after a creation, the reconciliation asks for a retry, the
  retry creates the instance again and succeeds, and from then on at least two loops of the same
  scheduler run, both of which scale the instance at every tick.\<close>

theorem retried_creation_runs_twice:
  fixes w :: "'c world"
  assumes "fair_iter it" and "fair_iter it'" and "valid_spec (Spec inst)" and "good w"
    and "map_of (globalStore w) (aom_name inst) = None"
    and "StatusGeneration inst = 0" and "Generation inst \<noteq> 0" and "fst (new_client env w) = Ret ()"
    and "address_ok env (Spec inst)" and "\<And>i. Status_Update env i = Some e"
    and "address_ok env' (Spec inst)" and "accepts_status env'"
  shows "\<exists>w1 w2. Reconcile env it (Found inst) w = (Ret (retry e), w1) \<and>
    Reconcile env' it' (Found inst) w1 = (Ret \<lparr>RequeueAfter = 0, reconcile_error = None\<rparr>, w2) \<and>
    2 \<le> loops (aom_name inst) w2"
proof -
  have "adding (shape_of (aom_name inst) w) (Spec inst)" using shape_fresh [OF assms(5)] adding_empty by simp
  then obtain w1 where w1: "Reconcile env it (Found inst) w = (Ret (retry e), w1)" "good w1"
    "adding (shape_of (aom_name inst) w1) (Spec inst)" "Suc (loops (aom_name inst) w) \<le> loops (aom_name inst) w1"
    "k8s_client w1 = k8s_client (snd (new_client env w))"
    using create_step [OF assms(1,3,4) _ assms(6-9)] assms(10) by auto
  have "fst (new_client env' w1) = Ret ()" using new_client_again [OF assms(8) w1(5)] by simp
  with create_step [OF assms(2,3) w1(2,3) assms(6,7) _ assms(11)] assms(12) obtain w2 where
    "Reconcile env' it' (Found inst) w1 = (Ret \<lparr>RequeueAfter = 0, reconcile_error = None\<rparr>, w2)"
    "Suc (loops (aom_name inst) w1) \<le> loops (aom_name inst) w2"
    by (auto simp: accepts_status_def)
  with w1(1,4) show ?thesis by force
qed

theorem retried_creation_runs_twice_witness:
  "\<exists>w1 w2. Reconcile (demo_env\<lparr>Status_Update := (\<lambda>_. Some (External ''conflict''))\<rparr>) (\<lambda>_ ks. ks) (Found demo_inst) start_world =
       (Ret (retry (External ''conflict'')), w1) \<and>
     Reconcile demo_env (\<lambda>_. rev) (Found demo_inst) w1 = (Ret \<lparr>RequeueAfter = 0, reconcile_error = None\<rparr>, w2) \<and>
     2 \<le> loops (aom_name demo_inst) w2"
proof (rule retried_creation_runs_twice [OF fair_iter_id fair_iter_rev])
  show "valid_spec (Spec demo_inst)" "StatusGeneration demo_inst = 0" "Generation demo_inst \<noteq> 0"
    using demo_valid by (simp_all add: demo_inst_def)
  show "good (start_world :: (target \<Rightarrow> int32) world)" by (rule start_good)
  show "map_of (globalStore (start_world :: (target \<Rightarrow> int32) world)) (aom_name demo_inst) = None"
    by (simp add: start_world_def)
  show "fst (new_client (demo_env\<lparr>Status_Update := (\<lambda>_. Some (External ''conflict''))\<rparr>) start_world) = Ret ()"
    using demo_client by (simp add: new_client_def)
  show "address_ok (demo_env\<lparr>Status_Update := (\<lambda>_. Some (External ''conflict''))\<rparr>) (Spec demo_inst)"
    using demo_address [of "Spec demo_inst"] by (simp add: address_ok_def)
  show "address_ok demo_env (Spec demo_inst)" by (rule demo_address)
  show "accepts_status demo_env" by (simp add: accepts_status_def demo_env_def)
qed simp

end
