(* ===== verification/DeepCopy.thy ===== *)
theory DeepCopy
  imports Controller
begin

text \<open>
  The deep copies of the API types: api/v1/zz_generated.deepcopy.go and \<open>Model.DeepCopyInto\<close>. Here the maps
  and slices of an object are what they are in memory, cells of a heap that values point to, with \<open>None\<close> for
  nil. The theorem is that a copy reads like the original and shares no cell with it.
\<close>

section \<open>The objects in memory\<close>

record mem_Model =
  mem_Type :: string
  mem_NeedTrain :: bool
  mem_UpdateInterval :: int
  mem_Attr :: "addr option"

record mem_Spec =
  mem_ScaleTargetRef :: CrossVersionObjectReference
  mem_MinReplicas :: int32
  mem_MaxReplicas :: int32
  mem_Collector :: "string \<times> int"
  mem_Metrics :: "addr option"
  mem_Models :: "addr option"
  mem_Interval :: int

record mem_Status =
  mem_StatusCollectors :: "addr option"
  mem_Generation :: int

text \<open>\<open>'m\<close> is the metadata of apimachinery; its copy is an argument of the definitions below.\<close>

record 'm mem_AOM =
  mem_TypeMeta :: "string \<times> string"
  mem_ObjectMeta :: 'm
  mem_spec :: mem_Spec
  mem_status :: mem_Status

record ('m, 'l) mem_AOMList =
  list_TypeMeta :: "string \<times> string"
  list_ListMeta :: 'l
  mem_Items :: "addr option"

text \<open>One store for each type of map and of array.\<close>

record 'm heap =
  attr_maps :: "(string, string) gomap store"
  metric_maps :: "(string, Metric) gomap store"
  model_slices :: "mem_Model list store"
  models_maps :: "(string, addr option) gomap store"
  collector_slices :: "StatusCollector list store"
  items_slices :: "'m mem_AOM list store"

definition cell :: "'a list store \<Rightarrow> addr \<Rightarrow> 'a list" where
  "cell st a = (case deref st a of None \<Rightarrow> [] | Some x \<Rightarrow> x)"

section \<open>Copying\<close>

text \<open>\<open>out = in\<close>, for values without pointers.\<close>

definition plain_copy :: "'a \<Rightarrow> 'h \<Rightarrow> 'a \<times> 'h" where
  "plain_copy x h = (x, h)"

text \<open>The elements of a slice, in order.\<close>

fun copy_each :: "('a \<Rightarrow> 'h \<Rightarrow> 'a \<times> 'h) \<Rightarrow> 'a list \<Rightarrow> 'h \<Rightarrow> 'a list \<times> 'h" where
  "copy_each f [] h = ([], h)"
| "copy_each f (x # xs) h = (let (y, h1) = f x h; (ys, h2) = copy_each f xs h1 in (y # ys, h2))"

text \<open>The entries of a map, in the order of a \<open>range\<close>.\<close>

fun copy_entries ::
  "('a \<Rightarrow> 'h \<Rightarrow> 'a \<times> 'h) \<Rightarrow> (string \<times> 'a) list \<Rightarrow> (string, 'a) gomap \<Rightarrow> 'h \<Rightarrow> (string, 'a) gomap \<times> 'h" where
  "copy_entries f [] out h = (out, h)"
| "copy_entries f ((key, v) # es) out h =
     (let (outVal, h1) = f v h in copy_entries f es (AList.update key outVal out) h1)"

definition copy_map ::
  "iter \<Rightarrow> nat \<Rightarrow> ('a \<Rightarrow> 'h \<Rightarrow> 'a \<times> 'h) \<Rightarrow> (string, 'a) gomap \<Rightarrow> 'h \<Rightarrow> (string, 'a) gomap \<times> 'h" where
  "copy_map it n f m = copy_entries f (entries it n m) []"

text \<open>A map or slice that is not nil is made anew; what it is filled with is copied first, which only
  changes the addresses.\<close>

definition copy_ptr ::
  "('h \<Rightarrow> 'a list store) \<Rightarrow> (('a list store \<Rightarrow> 'a list store) \<Rightarrow> 'h \<Rightarrow> 'h) \<Rightarrow>
   ('a list \<Rightarrow> 'h \<Rightarrow> 'a list \<times> 'h) \<Rightarrow> addr option \<Rightarrow> 'h \<Rightarrow> addr option \<times> 'h" where
  "copy_ptr sel upd f p h =
     (case p of
        None \<Rightarrow> (None, h)
      | Some a \<Rightarrow>
          (let (x, h1) = f (cell (sel h) a) h
           in (Some (length (sel h1)), upd (\<lambda>st. st @ [x]) h1)))"

text \<open>The copy of a model always has an attribute map of its own, an empty one for nil.\<close>

definition mem_Model_DeepCopyInto :: "iter \<Rightarrow> mem_Model \<Rightarrow> 'm heap \<Rightarrow> mem_Model \<times> 'm heap" where
  "mem_Model_DeepCopyInto it m h =
     (let (tmap, h1) = copy_map it 30 plain_copy (case mem_Attr m of None \<Rightarrow> [] | Some a \<Rightarrow> cell (attr_maps h) a) h
      in (\<lparr>mem_Type = mem_Type m, mem_NeedTrain = mem_NeedTrain m, mem_UpdateInterval = mem_UpdateInterval m,
           mem_Attr = Some (length (attr_maps h1))\<rparr>, attr_maps_update (\<lambda>st. st @ [tmap]) h1))"

definition AOMSpec_DeepCopyInto :: "iter \<Rightarrow> mem_Spec \<Rightarrow> 'm heap \<Rightarrow> mem_Spec \<times> 'm heap" where
  "AOMSpec_DeepCopyInto it s h =
     (let (metrics, h1) = copy_ptr metric_maps metric_maps_update (copy_map it 31 plain_copy) (mem_Metrics s) h;
          (models, h2) = copy_ptr models_maps models_maps_update
             (copy_map it 32 (copy_ptr model_slices model_slices_update (copy_each (mem_Model_DeepCopyInto it))))
             (mem_Models s) h1
      in (s\<lparr>mem_Metrics := metrics, mem_Models := models\<rparr>, h2))"

definition AOMStatus_DeepCopyInto :: "mem_Status \<Rightarrow> 'm heap \<Rightarrow> mem_Status \<times> 'm heap" where
  "AOMStatus_DeepCopyInto s h =
     (let (cs, h1) = copy_ptr collector_slices collector_slices_update plain_copy (mem_StatusCollectors s) h
      in (s\<lparr>mem_StatusCollectors := cs\<rparr>, h1))"

definition AOM_DeepCopyInto :: "('m \<Rightarrow> 'm) \<Rightarrow> iter \<Rightarrow> 'm mem_AOM \<Rightarrow> 'm heap \<Rightarrow> 'm mem_AOM \<times> 'm heap" where
  "AOM_DeepCopyInto meta it x h =
     (let (spec, h1) = AOMSpec_DeepCopyInto it (mem_spec x) h;
          (status, h2) = AOMStatus_DeepCopyInto (mem_status x) h1
      in (\<lparr>mem_TypeMeta = mem_TypeMeta x, mem_ObjectMeta = meta (mem_ObjectMeta x), mem_spec = spec, mem_status = status\<rparr>, h2))"

definition AOMList_DeepCopyInto ::
  "('m \<Rightarrow> 'm) \<Rightarrow> ('l \<Rightarrow> 'l) \<Rightarrow> iter \<Rightarrow> ('m, 'l) mem_AOMList \<Rightarrow> 'm heap \<Rightarrow> ('m, 'l) mem_AOMList \<times> 'm heap" where
  "AOMList_DeepCopyInto meta lmeta it l h =
     (let (items, h1) = copy_ptr items_slices items_slices_update (copy_each (AOM_DeepCopyInto meta it)) (mem_Items l) h
      in (\<lparr>list_TypeMeta = list_TypeMeta l, list_ListMeta = lmeta (list_ListMeta l), mem_Items = items\<rparr>, h1))"

text \<open>\<open>DeepCopy\<close> of a pointer, nil for nil; \<open>DeepCopyObject\<close> is the same behind an interface.\<close>

definition DeepCopy :: "('a \<Rightarrow> 'h \<Rightarrow> 'a \<times> 'h) \<Rightarrow> 'a option \<Rightarrow> 'h \<Rightarrow> 'a option \<times> 'h" where
  "DeepCopy into p h =
     (case p of None \<Rightarrow> (None, h) | Some x \<Rightarrow> (let (out, h1) = into x h in (Some out, h1)))"

definition DeepCopyObject :: "('a \<Rightarrow> 'h \<Rightarrow> 'a \<times> 'h) \<Rightarrow> 'a option \<Rightarrow> 'h \<Rightarrow> 'a option \<times> 'h" where
  "DeepCopyObject into p h =
     (let (c, h1) = DeepCopy into p h in case c of Some out \<Rightarrow> (Some out, h1) | None \<Rightarrow> (None, h1))"

definition AOM_DeepCopy :: "('m \<Rightarrow> 'm) \<Rightarrow> iter \<Rightarrow> 'm mem_AOM option \<Rightarrow> 'm heap \<Rightarrow> 'm mem_AOM option \<times> 'm heap" where
  "AOM_DeepCopy meta it = DeepCopy (AOM_DeepCopyInto meta it)"

definition AOM_DeepCopyObject :: "('m \<Rightarrow> 'm) \<Rightarrow> iter \<Rightarrow> 'm mem_AOM option \<Rightarrow> 'm heap \<Rightarrow> 'm mem_AOM option \<times> 'm heap" where
  "AOM_DeepCopyObject meta it = DeepCopyObject (AOM_DeepCopyInto meta it)"

definition AOMList_DeepCopy ::
  "('m \<Rightarrow> 'm) \<Rightarrow> ('l \<Rightarrow> 'l) \<Rightarrow> iter \<Rightarrow> ('m, 'l) mem_AOMList option \<Rightarrow> 'm heap \<Rightarrow> ('m, 'l) mem_AOMList option \<times> 'm heap" where
  "AOMList_DeepCopy meta lmeta it = DeepCopy (AOMList_DeepCopyInto meta lmeta it)"

definition AOMList_DeepCopyObject ::
  "('m \<Rightarrow> 'm) \<Rightarrow> ('l \<Rightarrow> 'l) \<Rightarrow> iter \<Rightarrow> ('m, 'l) mem_AOMList option \<Rightarrow> 'm heap \<Rightarrow> ('m, 'l) mem_AOMList option \<times> 'm heap" where
  "AOMList_DeepCopyObject meta lmeta it = DeepCopyObject (AOMList_DeepCopyInto meta lmeta it)"

definition AOMSpec_DeepCopy :: "iter \<Rightarrow> mem_Spec option \<Rightarrow> 'm heap \<Rightarrow> mem_Spec option \<times> 'm heap" where
  "AOMSpec_DeepCopy it = DeepCopy (AOMSpec_DeepCopyInto it)"

definition AOMStatus_DeepCopy :: "mem_Status option \<Rightarrow> 'm heap \<Rightarrow> mem_Status option \<times> 'm heap" where
  "AOMStatus_DeepCopy = DeepCopy AOMStatus_DeepCopyInto"

definition Collector_DeepCopy :: "(string \<times> int) option \<Rightarrow> 'm heap \<Rightarrow> (string \<times> int) option \<times> 'm heap" where
  "Collector_DeepCopy = DeepCopy plain_copy"

definition StatusCollector_DeepCopy :: "StatusCollector option \<Rightarrow> 'm heap \<Rightarrow> StatusCollector option \<times> 'm heap" where
  "StatusCollector_DeepCopy = DeepCopy plain_copy"

section \<open>What is kept when the heap grows\<close>

definition grown :: "'a store \<Rightarrow> 'a store \<Rightarrow> bool" where
  "grown st st' \<longleftrightarrow> (\<exists>xs. st' = st @ xs)"

text \<open>The cells made between two states are the same in a third.\<close>

definition kept :: "'a store \<Rightarrow> 'a store \<Rightarrow> 'a store \<Rightarrow> bool" where
  "kept st st' u \<longleftrightarrow> (\<forall>a. length st \<le> a \<and> a < length st' \<longrightarrow> deref u a = deref st' a)"

definition extends :: "'m heap \<Rightarrow> 'm heap \<Rightarrow> bool" where
  "extends h h' \<longleftrightarrow> grown (attr_maps h) (attr_maps h') \<and> grown (metric_maps h) (metric_maps h') \<and>
     grown (model_slices h) (model_slices h') \<and> grown (models_maps h) (models_maps h') \<and>
     grown (collector_slices h) (collector_slices h') \<and> grown (items_slices h) (items_slices h')"

definition agrees :: "'m heap \<Rightarrow> 'm heap \<Rightarrow> 'm heap \<Rightarrow> bool" where
  "agrees h h' g \<longleftrightarrow> kept (attr_maps h) (attr_maps h') (attr_maps g) \<and> kept (metric_maps h) (metric_maps h') (metric_maps g) \<and>
     kept (model_slices h) (model_slices h') (model_slices g) \<and> kept (models_maps h) (models_maps h') (models_maps g) \<and>
     kept (collector_slices h) (collector_slices h') (collector_slices g) \<and>
     kept (items_slices h) (items_slices h') (items_slices g)"

lemma grown_refl [simp]: "grown st st"
  by (simp add: grown_def)

lemma grown_snoc [simp]: "grown st (st @ xs)"
  by (simp add: grown_def)

lemma grown_trans: "grown r s \<Longrightarrow> grown s t \<Longrightarrow> grown r t"
  by (auto simp: grown_def)

lemma grown_cell: "grown st st' \<Longrightarrow> a < length st \<Longrightarrow> cell st' a = cell st a \<and> a < length st'"
  by (auto simp: grown_def cell_def deref_append)

lemma kept_split:
  assumes "grown r s" and "grown s t" and "kept r t u"
  shows "kept r s u" "kept s t u"
proof -
  have len: "length r \<le> length s" "length s \<le> length t" using assms(1,2) by (auto simp: grown_def)
  have "deref t a = deref s a" if "a < length s" for a using assms(2) that by (auto simp: grown_def deref_append)
  then show "kept r s u" using assms(3) len(2) unfolding kept_def by (metis order.strict_trans2)
  show "kept s t u" using assms(3) len(1) unfolding kept_def by (metis order.trans)
qed

lemma kept_refl: "kept st st' st'"
  by (simp add: kept_def)

lemma extends_refl [simp]: "extends h h"
  by (simp add: extends_def)

lemma extends_trans: "extends f g \<Longrightarrow> extends g h \<Longrightarrow> extends f h"
  unfolding extends_def by (elim conjE, intro conjI) (rule grown_trans; assumption)+

lemma agrees_split: "extends f g \<Longrightarrow> extends g h \<Longrightarrow> agrees f h u \<Longrightarrow> agrees f g u \<and> agrees g h u"
  unfolding extends_def agrees_def by (elim conjE, intro conjI) (rule kept_split; assumption)+

lemma agrees_refl: "agrees h h' h'"
  by (simp add: agrees_def kept_refl)

section \<open>The contract of a copy\<close>

text \<open>
  A type is copied deeply when the value read through its pointers does not change as the heap grows, and
  the value read from the copy, up to \<open>norm\<close>, is that of the original in every heap that has the new cells,
  whatever happens to the cells the original points to.
\<close>

locale deep_copier =
  fixes valid :: "'m heap \<Rightarrow> 'a \<Rightarrow> bool" and view :: "'m heap \<Rightarrow> 'a \<Rightarrow> 'v" and norm :: "'v \<Rightarrow> 'v"
    and copy :: "'a \<Rightarrow> 'm heap \<Rightarrow> 'a \<times> 'm heap"
  assumes stable: "valid h x \<Longrightarrow> extends h h' \<Longrightarrow> valid h' x \<and> view h' x = view h x"
    and copied: "valid h x \<Longrightarrow> copy x h = (y, h') \<Longrightarrow> extends h h' \<and> (\<forall>g. agrees h h' g \<longrightarrow> view g y = norm (view h x))"
begin

lemma stable_all: "list_all (valid h) xs \<Longrightarrow> extends h h' \<Longrightarrow> list_all (valid h') xs \<and> map (view h') xs = map (view h) xs"
  using stable by (auto simp: list_all_iff)

lemma copied_each:
  "list_all (valid h) xs \<Longrightarrow> copy_each copy xs h = (ys, h') \<Longrightarrow>
    extends h h' \<and> (\<forall>g. agrees h h' g \<longrightarrow> map (view g) ys = map norm (map (view h) xs))"
proof (induction xs arbitrary: h ys h')
  case (Cons x xs)
  then obtain y h1 zs where y: "copy x h = (y, h1)" "copy_each copy xs h1 = (zs, h')" and ys: "ys = y # zs"
    by (auto split: prod.splits)
  from Cons.prems(1) copied [OF _ y(1)] have 1: "extends h h1" "\<And>g. agrees h h1 g \<Longrightarrow> view g y = norm (view h x)" by auto
  from stable_all [OF _ 1(1), of xs] Cons.prems(1) have xs: "list_all (valid h1) xs" "map (view h1) xs = map (view h) xs" by auto
  from Cons.IH [OF xs(1) y(2)] have 2: "extends h1 h'" "\<And>g. agrees h1 h' g \<Longrightarrow> map (view g) zs = map norm (map (view h1) xs)"
    by auto
  have "map (view g) ys = map norm (map (view h) (x # xs))" if "agrees h h' g" for g
    using agrees_split [OF 1(1) 2(1) that] 1(2) 2(2) xs(2) ys by simp
  then show ?case using extends_trans [OF 1(1) 2(1)] by blast
qed simp

lemma each: "deep_copier (\<lambda>h. list_all (valid h)) (\<lambda>h. map (view h)) (map norm) (copy_each copy)"
  by unfold_locales (rule stable_all, assumption+, rule copied_each)

lemma copied_entries:
  "list_all (\<lambda>(k, v). valid h v) es \<Longrightarrow> copy_entries copy es out h = (out', h') \<Longrightarrow>
    extends h h' \<and> (\<forall>g. agrees h h' g \<longrightarrow>
      map_option (view g) \<circ> map_of out' = (map_option (view g) \<circ> map_of out) ++ map_of (rev (map (\<lambda>(k, v). (k, norm (view h v))) es)))"
proof (induction es arbitrary: h out)
  case (Cons e es)
  obtain k v where e: "e = (k, v)" by force
  with Cons.prems obtain y h1 where y: "copy v h = (y, h1)" "copy_entries copy es (AList.update k y out) h1 = (out', h')"
    by (auto split: prod.splits)
  from Cons.prems(1) e copied [OF _ y(1)] have 1: "extends h h1" "\<And>g. agrees h h1 g \<Longrightarrow> view g y = norm (view h v)" by auto
  have es: "list_all (\<lambda>(k, v). valid h1 v) es" "map (\<lambda>(k, v). (k, norm (view h1 v))) es = map (\<lambda>(k, v). (k, norm (view h v))) es"
    using Cons.prems(1) stable [OF _ 1(1)] by (auto simp: list_all_iff)
  from Cons.IH [OF es(1) y(2)] have 2: "extends h1 h'" "\<And>g. agrees h1 h' g \<Longrightarrow> map_option (view g) \<circ> map_of out' =
      (map_option (view g) \<circ> map_of (AList.update k y out)) ++ map_of (rev (map (\<lambda>(k, v). (k, norm (view h1 v))) es))"
    by blast+
  have "map_option (view g) \<circ> map_of out' =
      (map_option (view g) \<circ> map_of out) ++ map_of (rev (map (\<lambda>(k, v). (k, norm (view h v))) (e # es)))" if "agrees h h' g" for g
    using agrees_split [OF 1(1) 2(1) that] 1(2) 2(2) es(2) e
    by (auto simp: fun_eq_iff map_add_def update_conv' split: option.splits)
  then show ?case using extends_trans [OF 1(1) 2(1)] by blast
qed (simp add: map_add_def)

lemma map_of_entries:
  assumes "fair_iter it" and "wf_map m"
  shows "map_of (rev (map (\<lambda>(k, v). (k, f v)) (entries it n m))) = map_option f \<circ> map_of m"
proof -
  have d: "distinct (map fst (entries it n m))" using assms by (rule distinct_entries)
  let ?es = "map (\<lambda>(k, v). (k, f v)) (entries it n m)"
  have "distinct (map fst ?es)" using d by (simp add: comp_def case_prod_beta)
  then have "map_of (rev ?es) = map_of ?es"
    by (subst map_of_inject_set) (simp_all add: rev_map [symmetric] del: map_map)
  also have "map_of ?es = map_option f \<circ> map_of (entries it n m)" by (rule map_of_map)
  also have "map_of (entries it n m) = map_of m"
    using assms d by (subst map_of_inject_set) (simp_all add: wf_map_def keys_def)
  finally show ?thesis .
qed

lemma map_copier:
  assumes it: "fair_iter it"
  shows "deep_copier (\<lambda>h m. wf_map m \<and> list_all (\<lambda>(k, v). valid h v) m) (\<lambda>h m. map_option (view h) \<circ> map_of m)
    (\<lambda>v. map_option norm \<circ> v) (copy_map it n copy)"
proof unfold_locales
  fix h h' and m :: "(string, 'a) gomap" assume m: "wf_map m \<and> list_all (\<lambda>(k, v). valid h v) m" and h: "extends h h'"
  then have "map_of m k = Some v \<Longrightarrow> view h' v = view h v" for k v
    using stable [OF _ h] by (auto simp: list_all_iff dest!: map_of_SomeD)
  then show "(wf_map m \<and> list_all (\<lambda>(k, v). valid h' v) m) \<and> map_option (view h') \<circ> map_of m = map_option (view h) \<circ> map_of m"
    using m stable [OF _ h] by (auto simp: list_all_iff fun_eq_iff option.map_ident intro!: option.map_cong)
next
  fix h h' and m m' :: "(string, 'a) gomap"
  assume m: "wf_map m \<and> list_all (\<lambda>(k, v). valid h v) m" and run: "copy_map it n copy m h = (m', h')"
  have "list_all (\<lambda>(k, v). valid h v) (entries it n m)" using m it by (simp add: list_all_iff)
  from copied_entries [OF this run [unfolded copy_map_def]] m
  show "extends h h' \<and> (\<forall>g. agrees h h' g \<longrightarrow> map_option (view g) \<circ> map_of m' = map_option norm \<circ> (map_option (view h) \<circ> map_of m))"
    by (simp add: map_of_entries [OF it, where f = "\<lambda>v. norm (view h v)"] comp_def option.map_comp map_add_def)
qed

end

section \<open>Pointers\<close>

text \<open>A part of the heap: the store that holds the maps or the arrays of one type.\<close>

locale heap_part =
  fixes sel :: "'m heap \<Rightarrow> 'a list store" and upd :: "('a list store \<Rightarrow> 'a list store) \<Rightarrow> 'm heap \<Rightarrow> 'm heap"
  assumes sel_upd: "sel (upd f h) = f (sel h)"
    and upd_extends: "extends h (upd (\<lambda>st. st @ xs) h)"
    and extends_sel: "extends h h' \<Longrightarrow> grown (sel h) (sel h')"
    and agrees_sel: "agrees h h' g \<Longrightarrow> kept (sel h) (sel h') (sel g)"

interpretation attr_part: heap_part attr_maps attr_maps_update
  by unfold_locales (auto simp: extends_def agrees_def)

interpretation metric_part: heap_part metric_maps metric_maps_update
  by unfold_locales (auto simp: extends_def agrees_def)

interpretation slice_part: heap_part model_slices model_slices_update
  by unfold_locales (auto simp: extends_def agrees_def)

interpretation models_part: heap_part models_maps models_maps_update
  by unfold_locales (auto simp: extends_def agrees_def)

interpretation collector_part: heap_part collector_slices collector_slices_update
  by unfold_locales (auto simp: extends_def agrees_def)

interpretation items_part: heap_part items_slices items_slices_update
  by unfold_locales (auto simp: extends_def agrees_def)

definition valid_ptr :: "('m heap \<Rightarrow> 'a list store) \<Rightarrow> ('m heap \<Rightarrow> 'a list \<Rightarrow> bool) \<Rightarrow> 'm heap \<Rightarrow> addr option \<Rightarrow> bool" where
  "valid_ptr sel valid h p = (case p of None \<Rightarrow> True | Some a \<Rightarrow> a < length (sel h) \<and> valid h (cell (sel h) a))"

definition ptr_view :: "('m heap \<Rightarrow> 'a list store) \<Rightarrow> ('m heap \<Rightarrow> 'a list \<Rightarrow> 'v) \<Rightarrow> 'm heap \<Rightarrow> addr option \<Rightarrow> 'v option" where
  "ptr_view sel view h p = map_option (\<lambda>a. view h (cell (sel h) a)) p"

context heap_part
begin

lemma new_cell:
  assumes "extends h h1" and "\<And>g. agrees h h1 g \<Longrightarrow> P g x"
  shows "extends h (upd (\<lambda>st. st @ [x]) h1)"
    and "agrees h (upd (\<lambda>st. st @ [x]) h1) g \<Longrightarrow> P g (cell (sel g) (length (sel h1)))"
proof -
  let ?h' = "upd (\<lambda>st. st @ [x]) h1"
  show "extends h ?h'" by (rule extends_trans [OF assms(1) upd_extends])
  assume g: "agrees h ?h' g"
  have "length (sel h) \<le> length (sel h1)" using extends_sel [OF assms(1)] by (auto simp: grown_def)
  with agrees_sel [OF g] have "deref (sel g) (length (sel h1)) = Some x" by (simp add: kept_def sel_upd deref_def)
  then show "P g (cell (sel g) (length (sel h1)))"
    using agrees_split [OF assms(1) upd_extends g] assms(2) by (simp add: cell_def)
qed

lemma ptr_copier:
  assumes "deep_copier valid view nrm copy"
  shows "deep_copier (valid_ptr sel valid) (ptr_view sel view) (map_option nrm) (copy_ptr sel upd copy)"
proof unfold_locales
  fix h h' p assume p: "valid_ptr sel valid h p" and h: "extends h h'"
  show "valid_ptr sel valid h' p \<and> ptr_view sel view h' p = ptr_view sel view h p"
    using p grown_cell [OF extends_sel [OF h]] deep_copier.stable [OF assms _ h]
    by (auto simp: valid_ptr_def ptr_view_def split: option.splits)
next
  fix h p q h' assume p: "valid_ptr sel valid h p" and run: "copy_ptr sel upd copy p h = (q, h')"
  show "extends h h' \<and> (\<forall>g. agrees h h' g \<longrightarrow> ptr_view sel view g q = map_option nrm (ptr_view sel view h p))"
  proof (cases p)
    case (Some a)
    then obtain x h1 where x: "copy (cell (sel h) a) h = (x, h1)" "q = Some (length (sel h1))" "h' = upd (\<lambda>st. st @ [x]) h1"
      using run by (auto simp: copy_ptr_def split: prod.splits)
    with Some p deep_copier.copied [OF assms _ x(1)]
    have h1: "extends h h1" "\<And>g. agrees h h1 g \<Longrightarrow> view g x = nrm (view h (cell (sel h) a))" by (auto simp: valid_ptr_def)
    show ?thesis
      using new_cell [where P = "\<lambda>g x. view g x = nrm (view h (cell (sel h) a))", OF h1] Some x(2,3)
      by (auto simp: ptr_view_def)
  qed (use run in \<open>simp add: copy_ptr_def ptr_view_def\<close>)
qed

end

section \<open>The API types\<close>

interpretation plain: deep_copier "\<lambda>h x. True" "\<lambda>h x. x" id plain_copy
  by unfold_locales (auto simp: plain_copy_def)

lemma plain_map_copier: "fair_iter it \<Longrightarrow> deep_copier (\<lambda>h. wf_map) (\<lambda>h. map_of) id (copy_map it n plain_copy)"
  using plain.map_copier [of it n] by (simp add: option.map_id0 option.map_ident comp_def list_all_iff case_prod_beta id_def)

lemma copied_both:
  assumes "deep_copier v1 w1 n1 c1" and "deep_copier v2 w2 n2 c2" and "v1 h x" and "v2 h y"
    and "c1 x h = (x', h1)" and "c2 y h1 = (y', h2)"
  shows "extends h h2" and "agrees h h2 g \<Longrightarrow> w1 g x' = n1 (w1 h x)" and "agrees h h2 g \<Longrightarrow> w2 g y' = n2 (w2 h y)"
proof -
  from deep_copier.copied [OF assms(1,3,5)]
  have 1: "extends h h1" "\<And>g. agrees h h1 g \<Longrightarrow> w1 g x' = n1 (w1 h x)" by auto
  from deep_copier.stable [OF assms(2,4) 1(1)] have y: "v2 h1 y" "w2 h1 y = w2 h y" by auto
  from deep_copier.copied [OF assms(2) y(1) assms(6)]
  have 2: "extends h1 h2" "\<And>g. agrees h1 h2 g \<Longrightarrow> w2 g y' = n2 (w2 h y)" using y(2) by auto
  show "extends h h2" by (rule extends_trans [OF 1(1) 2(1)])
  show "w1 g x' = n1 (w1 h x)" "w2 g y' = n2 (w2 h y)" if "agrees h h2 g"
    using agrees_split [OF 1(1) 2(1) that] 1(2) 2(2) by auto
qed

subsection \<open>Models\<close>

definition valid_model :: "'m heap \<Rightarrow> mem_Model \<Rightarrow> bool" where
  "valid_model h m = valid_ptr attr_maps (\<lambda>h. wf_map) h (mem_Attr m)"

type_synonym model_value = "string \<times> bool \<times> int \<times> (string \<rightharpoonup> string) option"

definition model_view :: "'m heap \<Rightarrow> mem_Model \<Rightarrow> model_value" where
  "model_view h m = (mem_Type m, mem_NeedTrain m, mem_UpdateInterval m, ptr_view attr_maps (\<lambda>h. map_of) h (mem_Attr m))"

fun attr_set :: "model_value \<Rightarrow> model_value" where
  "attr_set (t, n, u, a) = (t, n, u, Some (case a of None \<Rightarrow> Map.empty | Some m \<Rightarrow> m))"

lemma model_copier:
  assumes it: "fair_iter it"
  shows "deep_copier valid_model model_view attr_set (mem_Model_DeepCopyInto it)"
proof unfold_locales
  fix h h' m assume "valid_model h m" and "extends h h'"
  with deep_copier.stable [OF attr_part.ptr_copier [OF plain_map_copier [OF it]]]
  show "valid_model h' m \<and> model_view h' m = model_view h m" unfolding valid_model_def model_view_def by blast
next
  fix h m q h' assume m: "valid_model h m" and run: "mem_Model_DeepCopyInto it m h = (q, h')"
  let ?as = "case mem_Attr m of None \<Rightarrow> [] | Some a \<Rightarrow> cell (attr_maps h) a"
  obtain t h1 where t: "copy_map it 30 plain_copy ?as h = (t, h1)" by force
  have "wf_map ?as" using m by (auto simp: valid_model_def valid_ptr_def split: option.splits)
  from deep_copier.copied [OF plain_map_copier [OF it] this t]
  have h1: "extends h h1" "\<And>g. agrees h h1 g \<Longrightarrow> map_of t = map_of ?as" by auto
  show "extends h h' \<and> (\<forall>g. agrees h h' g \<longrightarrow> model_view g q = attr_set (model_view h m))"
    using attr_part.new_cell [where P = "\<lambda>g t. map_of t = map_of ?as", OF h1] run t
    by (auto simp: mem_Model_DeepCopyInto_def model_view_def ptr_view_def split: option.splits)
qed

subsection \<open>Specs and status\<close>

definition valid_slice :: "'m heap \<Rightarrow> addr option \<Rightarrow> bool" where
  "valid_slice = valid_ptr model_slices (\<lambda>h. list_all (valid_model h))"

definition slice_view :: "'m heap \<Rightarrow> addr option \<Rightarrow> model_value list option" where
  "slice_view = ptr_view model_slices (\<lambda>h. map (model_view h))"

definition valid_spec_mem :: "'m heap \<Rightarrow> mem_Spec \<Rightarrow> bool" where
  "valid_spec_mem h s \<longleftrightarrow> valid_ptr metric_maps (\<lambda>h. wf_map) h (mem_Metrics s) \<and>
     valid_ptr models_maps (\<lambda>h m. wf_map m \<and> list_all (\<lambda>(k, v). valid_slice h v) m) h (mem_Models s)"

text \<open>The value of a spec: its plain fields, its metrics and its models.\<close>

type_synonym spec_value =
  "(CrossVersionObjectReference \<times> int32 \<times> int32 \<times> (string \<times> int) \<times> int) \<times>
   (string \<rightharpoonup> Metric) option \<times> (string \<rightharpoonup> model_value list option) option"

definition spec_view :: "'m heap \<Rightarrow> mem_Spec \<Rightarrow> spec_value" where
  "spec_view h s =
     ((mem_ScaleTargetRef s, mem_MinReplicas s, mem_MaxReplicas s, mem_Collector s, mem_Interval s),
      ptr_view metric_maps (\<lambda>h. map_of) h (mem_Metrics s),
      ptr_view models_maps (\<lambda>h m. map_option (slice_view h) \<circ> map_of m) h (mem_Models s))"

fun attrs_set :: "spec_value \<Rightarrow> spec_value" where
  "attrs_set (flds, metrics, models) =
     (flds, metrics, map_option (\<lambda>m. map_option (map_option (map attr_set)) \<circ> m) models)"

lemma models_copier:
  assumes it: "fair_iter it"
  shows "deep_copier (valid_ptr models_maps (\<lambda>h m. wf_map m \<and> list_all (\<lambda>(k, v). valid_slice h v) m))
    (ptr_view models_maps (\<lambda>h m. map_option (slice_view h) \<circ> map_of m))
    (map_option (\<lambda>m. map_option (map_option (map attr_set)) \<circ> m))
    (copy_ptr models_maps models_maps_update
       (copy_map it n (copy_ptr model_slices model_slices_update (copy_each (mem_Model_DeepCopyInto it)))))"
  unfolding valid_slice_def slice_view_def
  by (rule models_part.ptr_copier [OF deep_copier.map_copier [OF slice_part.ptr_copier [OF
        deep_copier.each [OF model_copier [OF it]]] it]])

lemma spec_copier:
  assumes it: "fair_iter it"
  shows "deep_copier valid_spec_mem spec_view attrs_set (AOMSpec_DeepCopyInto it)"
proof unfold_locales
  note metrics = metric_part.ptr_copier [OF plain_map_copier [OF it, of 31]]
  note models = models_copier [OF it, of 32]
  fix h h' s assume s: "valid_spec_mem h s"
  { assume "extends h h'"
    with s deep_copier.stable [OF metrics] deep_copier.stable [OF models]
    show "valid_spec_mem h' s \<and> spec_view h' s = spec_view h s" unfolding valid_spec_mem_def spec_view_def by blast
  next
    fix q assume run: "AOMSpec_DeepCopyInto it s h = (q, h')"
    obtain ms h1 mo h2 where c: "copy_ptr metric_maps metric_maps_update (copy_map it 31 plain_copy) (mem_Metrics s) h = (ms, h1)"
      "copy_ptr models_maps models_maps_update
         (copy_map it 32 (copy_ptr model_slices model_slices_update (copy_each (mem_Model_DeepCopyInto it)))) (mem_Models s) h1 = (mo, h2)"
      by (metis surj_pair)
    note both = copied_both [OF metrics models _ _ c]
    show "extends h h' \<and> (\<forall>g. agrees h h' g \<longrightarrow> spec_view g q = attrs_set (spec_view h s))"
      using both s run c by (auto simp: AOMSpec_DeepCopyInto_def valid_spec_mem_def spec_view_def option.map_id)
  }
qed

definition valid_status :: "'m heap \<Rightarrow> mem_Status \<Rightarrow> bool" where
  "valid_status h s = valid_ptr collector_slices (\<lambda>h x. True) h (mem_StatusCollectors s)"

definition status_view :: "'m heap \<Rightarrow> mem_Status \<Rightarrow> StatusCollector list option \<times> int" where
  "status_view h s = (ptr_view collector_slices (\<lambda>h x. x) h (mem_StatusCollectors s), mem_Generation s)"

interpretation collectors_copy: deep_copier "valid_ptr collector_slices (\<lambda>h x. True)" "ptr_view collector_slices (\<lambda>h x. x)"
  "map_option id" "copy_ptr collector_slices collector_slices_update plain_copy"
  by (rule collector_part.ptr_copier) unfold_locales

interpretation status_copy: deep_copier valid_status status_view id AOMStatus_DeepCopyInto
proof unfold_locales
  fix h h' s assume s: "valid_status h s"
  { assume "extends h h'"
    with s collectors_copy.stable show "valid_status h' s \<and> status_view h' s = status_view h s"
      unfolding valid_status_def status_view_def by blast
  next
    fix q assume "AOMStatus_DeepCopyInto s h = (q, h')"
    then show "extends h h' \<and> (\<forall>g. agrees h h' g \<longrightarrow> status_view g q = id (status_view h s))"
      using collectors_copy.copied s
      by (auto simp: AOMStatus_DeepCopyInto_def valid_status_def status_view_def option.map_id split: prod.splits)
  }
qed

subsection \<open>Objects and lists of objects\<close>

definition valid_AOM :: "'m heap \<Rightarrow> 'm mem_AOM \<Rightarrow> bool" where
  "valid_AOM h x \<longleftrightarrow> valid_spec_mem h (mem_spec x) \<and> valid_status h (mem_status x)"

type_synonym 'm AOM_value =
  "(string \<times> string) \<times> 'm \<times> spec_value \<times> StatusCollector list option \<times> int"

definition AOM_view :: "'m heap \<Rightarrow> 'm mem_AOM \<Rightarrow> 'm AOM_value" where
  "AOM_view h x = (mem_TypeMeta x, mem_ObjectMeta x, spec_view h (mem_spec x), status_view h (mem_status x))"

fun copied_value :: "('m \<Rightarrow> 'm) \<Rightarrow> 'm AOM_value \<Rightarrow> 'm AOM_value" where
  "copied_value meta (t, m, s, u) = (t, meta m, attrs_set s, u)"

lemma AOM_copier:
  fixes meta :: "'m \<Rightarrow> 'm"
  assumes it: "fair_iter it"
  shows "deep_copier valid_AOM AOM_view (copied_value meta) (AOM_DeepCopyInto meta it)"
proof unfold_locales
  fix h h' :: "'m heap" and x :: "'m mem_AOM" assume x: "valid_AOM h x"
  { assume "extends h h'"
    with x deep_copier.stable [OF spec_copier [OF it]] status_copy.stable
    show "valid_AOM h' x \<and> AOM_view h' x = AOM_view h x" unfolding valid_AOM_def AOM_view_def by blast
  next
    fix y assume run: "AOM_DeepCopyInto meta it x h = (y, h')"
    obtain s h1 u h2 where c: "AOMSpec_DeepCopyInto it (mem_spec x) h = (s, h1)"
      "AOMStatus_DeepCopyInto (mem_status x) h1 = (u, h2)"
      by (metis surj_pair)
    note both = copied_both [OF spec_copier [OF it] status_copy.deep_copier_axioms _ _ c]
    show "extends h h' \<and> (\<forall>g. agrees h h' g \<longrightarrow> AOM_view g y = copied_value meta (AOM_view h x))"
      using both x run c by (auto simp: AOM_DeepCopyInto_def valid_AOM_def AOM_view_def)
  }
qed

definition valid_list :: "'m heap \<Rightarrow> ('m, 'l) mem_AOMList \<Rightarrow> bool" where
  "valid_list h l \<longleftrightarrow> valid_ptr items_slices (\<lambda>h. list_all (valid_AOM h)) h (mem_Items l)"

definition list_view :: "'m heap \<Rightarrow> ('m, 'l) mem_AOMList \<Rightarrow> (string \<times> string) \<times> 'l \<times> 'm AOM_value list option" where
  "list_view h l = (list_TypeMeta l, list_ListMeta l, ptr_view items_slices (\<lambda>h. map (AOM_view h)) h (mem_Items l))"

lemma items_copier:
  assumes "fair_iter it"
  shows "deep_copier (valid_ptr items_slices (\<lambda>h. list_all (valid_AOM h))) (ptr_view items_slices (\<lambda>h. map (AOM_view h)))
    (map_option (map (copied_value meta))) (copy_ptr items_slices items_slices_update (copy_each (AOM_DeepCopyInto meta it)))"
  by (rule items_part.ptr_copier [OF deep_copier.each [OF AOM_copier [OF assms]]])

lemma list_copier:
  fixes meta :: "'m \<Rightarrow> 'm" and lmeta :: "'l \<Rightarrow> 'l"
  assumes it: "fair_iter it"
  shows "deep_copier valid_list list_view (\<lambda>(t, m, xs). (t, lmeta m, map_option (map (copied_value meta)) xs))
    (AOMList_DeepCopyInto meta lmeta it)"
proof unfold_locales
  fix h h' :: "'m heap" and l :: "('m, 'l) mem_AOMList" assume l: "valid_list h l"
  { assume "extends h h'"
    with l deep_copier.stable [OF items_copier [OF it]]
    show "valid_list h' l \<and> list_view h' l = list_view h l" unfolding valid_list_def list_view_def by blast
  next
    fix y assume run: "AOMList_DeepCopyInto meta lmeta it l h = (y, h')"
    obtain p h1 where c: "copy_ptr items_slices items_slices_update (copy_each (AOM_DeepCopyInto meta it)) (mem_Items l) h = (p, h1)"
      by force
    from deep_copier.copied [OF items_copier [OF it] l [unfolded valid_list_def] c] run c
    show "extends h h' \<and> (\<forall>g. agrees h h' g \<longrightarrow>
        list_view g y = (case list_view h l of (t, m, xs) \<Rightarrow> (t, lmeta m, map_option (map (copied_value meta)) xs)))"
      by (auto simp: AOMList_DeepCopyInto_def list_view_def)
  }
qed

section \<open>Property\<close>

text \<open>C20: a deep copy of an AOM object has the value of the original, a nil attribute map having become an
  empty one; the original still has its value, and the copy keeps its own whatever happens to the
  maps and slices that existed before: the two share no memory.\<close>

theorem DeepCopy_shares_nothing:
  assumes "fair_iter it" and "valid_AOM h x"
    and "AOM_DeepCopy meta it (Some x) h = (c, h')"
  shows "AOM_view h' x = AOM_view h x \<and>
    (\<exists>y. c = Some y \<and> AOM_view h' y = copied_value meta (AOM_view h x) \<and>
      (\<forall>g. agrees h h' g \<longrightarrow> AOM_view g y = AOM_view h' y))"
proof -
  obtain y where y: "c = Some y" "AOM_DeepCopyInto meta it x h = (y, h')"
    using assms(3) by (auto simp: AOM_DeepCopy_def DeepCopy_def split: prod.splits)
  from deep_copier.copied [OF AOM_copier [OF assms(1)] assms(2) y(2)] deep_copier.stable [OF AOM_copier [OF assms(1)] assms(2)]
  show ?thesis using y(1) agrees_refl by metis
qed

text \<open>An object with one metric and one model whose attributes are nil.\<close>

definition demo_heap :: "unit heap" where
  "demo_heap =
     \<lparr>attr_maps = [], metric_maps = [[(''m1'', zero_Metric)]],
      model_slices = [[\<lparr>mem_Type = ''GRU'', mem_NeedTrain = True, mem_UpdateInterval = 60, mem_Attr = None\<rparr>]],
      models_maps = [[(''m1'', Some 0)]], collector_slices = [], items_slices = []\<rparr>"

definition demo_object :: "unit mem_AOM" where
  "demo_object =
     \<lparr>mem_TypeMeta = (''AOM'', ''automation.buaa.io/v1''), mem_ObjectMeta = (),
      mem_spec = \<lparr>mem_ScaleTargetRef = \<lparr>Kind = ''Deployment'', refName = ''app'', APIVersion = ''apps/v1''\<rparr>,
                  mem_MinReplicas = 1, mem_MaxReplicas = 5, mem_Collector = (''http://127.0.0.1:9090'', 15),
                  mem_Metrics = Some 0, mem_Models = Some 0, mem_Interval = 30\<rparr>,
      mem_status = \<lparr>mem_StatusCollectors = None, mem_Generation = 0\<rparr>\<rparr>"

theorem DeepCopy_shares_nothing_witness:
  "\<exists>y h'. AOM_DeepCopy id (\<lambda>_. rev) (Some demo_object) demo_heap = (Some y, h') \<and>
     AOM_view (h'\<lparr>metric_maps := assign 0 [] (metric_maps h')\<rparr>) y = copied_value id (AOM_view demo_heap demo_object)"
proof -
  obtain c h' where run: "AOM_DeepCopy id (\<lambda>_. rev) (Some demo_object) demo_heap = (c, h')" by force
  have "valid_AOM demo_heap demo_object"
    by (simp add: valid_AOM_def valid_spec_mem_def valid_status_def valid_ptr_def valid_slice_def valid_model_def
        demo_object_def demo_heap_def cell_def deref_def wf_map_def keys_def)
  from DeepCopy_shares_nothing [OF fair_iter_rev this run] obtain y where
    y: "c = Some y" "\<And>g. agrees demo_heap h' g \<Longrightarrow> AOM_view g y = copied_value id (AOM_view demo_heap demo_object)" by metis
  have "agrees demo_heap h' (h'\<lparr>metric_maps := assign 0 [] (metric_maps h')\<rparr>)"
    by (auto simp: agrees_def kept_def deref_assign demo_heap_def)
  with run y show ?thesis by blast
qed

end
