(* ===== verification/EndToEnd.thy ===== *)
theory EndToEnd
  imports System
begin

text \<open>
  A whole life of an instance with one metric and one Holt-Winters model: the reconciliation that creates it,
  the turns of its collector's loop, and a tick of its scheduler. Here every state is known in full.
\<close>

section \<open>The states of the creation\<close>

text \<open>A world in which the hidden state of one instance is \<open>h\<close>.\<close>

definition with_hide :: "NamespacedName \<Rightarrow> 'c world \<Rightarrow> Hide \<Rightarrow> 'c world" where
  "with_hide name w h = w\<lparr>globalStore := AList.update name h (globalStore w)\<rparr>"

lemma with_hide_state [simp]:
  "the_hide name (with_hide name w h) = h"
  "put_hide name f (with_hide name w h) = with_hide name w (f h)"
  "GetHide name (with_hide name w h) = (Ret h, with_hide name w h)"
  by (simp_all add: with_hide_def the_hide_def put_hide_def GetHide_def update_conv')

lemma with_hide_fields [simp]:
  "metric_vars (with_hide name w h) = metric_vars w" "model_vars (with_hide name w h) = model_vars w"
  "collectors (with_hide name w h) = collectors w" "predictors (with_hide name w h) = predictors w"
  "channels (with_hide name w h) = channels w" "goroutines (with_hide name w h) = goroutines w"
  "pCollector (with_hide name w h) = pCollector w" "schedulers (with_hide name w h) = schedulers w"
  "k8s_client (with_hide name w h) = k8s_client w" "promcDone (with_hide name w h) = promcDone w"
  by (simp_all add: with_hide_def)

lemma with_hide_updates [simp]:
  "(with_hide name w h)\<lparr>metric_vars := x1\<rparr> = with_hide name (w\<lparr>metric_vars := x1\<rparr>) h"
  "(with_hide name w h)\<lparr>model_vars := x2\<rparr> = with_hide name (w\<lparr>model_vars := x2\<rparr>) h"
  "(with_hide name w h)\<lparr>collectors := x3\<rparr> = with_hide name (w\<lparr>collectors := x3\<rparr>) h"
  "(with_hide name w h)\<lparr>predictors := x4\<rparr> = with_hide name (w\<lparr>predictors := x4\<rparr>) h"
  "(with_hide name w h)\<lparr>channels := x5\<rparr> = with_hide name (w\<lparr>channels := x5\<rparr>) h"
  "(with_hide name w h)\<lparr>goroutines := x6\<rparr> = with_hide name (w\<lparr>goroutines := x6\<rparr>) h"
  "(with_hide name w h)\<lparr>pCollector := x7\<rparr> = with_hide name (w\<lparr>pCollector := x7\<rparr>) h"
  "(with_hide name w h)\<lparr>schedulers := x8\<rparr> = with_hide name (w\<lparr>schedulers := x8\<rparr>) h"
  by (simp_all add: with_hide_def)

lemma iter_one [simp]:
  assumes "fair_iter it"
  shows "it n [] = []" "it n [k] = [k]"
  using assms unfolding fair_iter_def by (metis mset_zero_iff) (metis assms fair_iter_def mset_single_iff mset.simps)

lemma entries_one [simp]: "fair_iter it \<Longrightarrow> entries it n [] = []" "fair_iter it \<Longrightarrow> entries it n [(k, v)] = [(k, v)]"
  by (simp_all add: entries_def keys_def)

section \<open>The handlers on a fresh instance\<close>

definition one_map :: "string \<Rightarrow> 'v \<Rightarrow> 'v ConcurrentMap" where
  "one_map k v = \<lparr>Data = Some [(k, v)]\<rparr>"

definition no_map :: "'v ConcurrentMap" where
  "no_map = \<lparr>Data = Some []\<rparr>"

lemma maps_simps [simp]:
  "cm_Load no_map k = Err (not_found k)" "cm_Load (one_map k v) j = (if j = k then Ret v else Err (not_found j))"
  "cm_Store no_map k v = Ret (one_map k v)" "cm_data (one_map k v) = [(k, v)]" "cm_data no_map = []"
  by (simp_all add: no_map_def one_map_def cm_Load_def cm_Store_def cm_data_def)

lemma one_map_eq [simp]: "one_map k v = one_map j u \<longleftrightarrow> k = j \<and> v = u"
  by (simp add: one_map_def)

lemma deref_last [simp]: "deref (st @ v # vs) (length st) = Some v"
  by (simp add: deref_def)

definition one_model :: "AOMSpec \<Rightarrow> Metric \<Rightarrow> Model \<Rightarrow> bool" where
  "one_model spec m model \<longleftrightarrow> (\<exists>key. Metrics spec = [(key, m)] \<and> Models spec = [(key, [model])])"

lemma one_metrics:
  assumes "fair_iter it" and "one_model spec m model"
  shows "spec_metrics it n spec = [m]" "metric_keys spec = {NoModelKey m}"
  using assms by (auto simp: spec_metrics_def metric_keys_def one_model_def)

lemma one_handleMetrics:
  assumes "fair_iter it" and "one_model spec m model" and "MetricMap h = no_map"
  shows "handleMetrics it name spec (with_hide name w h) =
    (Ret (), with_hide name (w\<lparr>metric_vars := metric_vars w @ [m, m]\<rparr>)
       (h\<lparr>MetricMap := one_map (NoModelKey m) (length (metric_vars w))\<rparr>))"
  using assms one_metrics [OF assms(1,2)]
  by (simp add: handleMetrics_def new_metric_var_def alloc_def add_metric_def store_in_def set_metric_var_def assign_def
      Let_def deref_def nth_append list_update_append keys_def)

lemma one_handleModels:
  assumes "fair_iter it" and "one_model spec m model" and "ModelMap h = no_map"
  shows "handleModels it name spec (with_hide name w h) =
    (Ret [], with_hide name (w\<lparr>model_vars := model_vars w @ [model]\<rparr>)
       (h\<lparr>ModelMap := one_map (WithModelKey m (Type model)) (length (model_vars w))\<rparr>))"
proof -
  obtain key where "Metrics spec = [(key, m)]" "Models spec = [(key, [model])]" using assms(2) by (auto simp: one_model_def)
  then show ?thesis using assms(1,3)
    by (simp add: handleModels_def handle_metric_models_def handle_model_def new_model_var_def alloc_def store_in_def
        set_model_var_def assign_def Let_def keys_def)
qed

text \<open>The worker of a metric that has been added, and the collector it was added to.\<close>

definition worker_of :: "Metric \<Rightarrow> Promc \<Rightarrow> worker" where
  "worker_of m p = \<lparr>w_type = \<lparr>mt_Name = Name m, mt_Unit = Unit m\<rparr>, promql = Query m, data = [], w_client = client p\<rparr>"

lemma worker_of_key: "mc_NoModelKey (PromWorker ((worker_of m p)\<lparr>data := d\<rparr>)) = NoModelKey m"
  by (simp add: worker_of_def worker_NoModelKey_def NoModelKey_def)

lemma one_handleCollector:
  assumes "fair_iter it" and "one_model spec m model" and "CollectorMap h = []" and "CollectorWorkerMap h = no_map"
    and "pCollector w = Some p"
  shows "\<exists>cs. handleCollector it name spec (with_hide name w h) =
    (Ret cs, with_hide name
       (w\<lparr>collectors := collectors w @ [PromWorker (worker_of m p)], channels := channels w @ [False],
          pCollector := Some (AddCustomMetrics m p),
          goroutines := goroutines w @ [StartWorkerLoop name (length (collectors w)) (length (channels w)) (ScrapeInterval spec)]\<rparr>)
       (h\<lparr>CollectorMap := [(NoModelKey m, length (channels w))],
          CollectorWorkerMap := one_map (NoModelKey m) (length (collectors w))\<rparr>))"
  using assms one_metrics [OF assms(1,2)]
  by (cases w, cases h, simp add: handleCollector_def start_collector_def CreateWorker_def AddCustomMetrics_def worker_of_def alloc_def
      store_in_def Let_def update_conv')

lemma one_handlePredictor:
  assumes "fair_iter it" and "one_model spec m model" and "PredictorMap h = no_map"
    and "CollectorWorkerMap h = one_map (NoModelKey m) c" and "deref (collectors w) c = Some wk"
    and "Type model = ''holt_winter''" and "hw_New c (attr_map model) (WithModelKey m ''holt_winter'') = Ret p"
  shows "handlePredictor it name spec [] (with_hide name w h) =
    (Ret (), with_hide name (w\<lparr>predictors := predictors w @ [HwPredictor p]\<rparr>)
       (h\<lparr>PredictorMap := one_map (WithModelKey m ''holt_winter'') (length (predictors w))\<rparr>))"
proof -
  obtain key where spec: "Metrics spec = [(key, m)]" "Models spec = [(key, [model])]" using assms(2) by (auto simp: one_model_def)
  have "GetModelType (WithModelKey m ''holt_winter'') = ''holt_winter''"
    by (simp add: WithModelKey_eq plain_def)
  moreover have "assign c wk (collectors w) = collectors w"
    using assms(5) by (auto simp: assign_def deref_eq_Some_iff)
  ultimately show ?thesis using assms(1,3-7) spec
    by (simp add: handlePredictor_def spec_pairs_def pair_key_def make_predictor_def NewPredictor_def alloc_def
        store_in_def Let_def keys_def)
qed

section \<open>A running instance\<close>

text \<open>The instance with the metric \<open>m\<close> has the worker \<open>wk\<close> at the address \<open>a\<close>, which nobody has stopped, the predictor
  \<open>p\<close> over it, and the scaler \<open>sc\<close>.\<close>

definition running :: "NamespacedName \<Rightarrow> Metric \<Rightarrow> HoltWinter \<Rightarrow> Scaler \<Rightarrow> worker \<Rightarrow> addr \<Rightarrow> addr \<Rightarrow> 'c world \<Rightarrow> bool" where
  "running name m p sc wk a ch w \<longleftrightarrow>
     (let h = the_hide name w; wmk = WithModelKey m ''holt_winter''
      in (\<exists>ma. MetricMap h = one_map (NoModelKey m) ma \<and> deref (metric_vars w) ma = Some m) \<and>
         (\<exists>xa model. ModelMap h = one_map wmk xa \<and> deref (model_vars w) xa = Some model \<and> \<not> NeedTrain model) \<and>
         (\<exists>pa. PredictorMap h = one_map wmk pa \<and> deref (predictors w) pa = Some (HwPredictor p)) \<and>
         CollectorWorkerMap h = one_map (NoModelKey m) a \<and> deref (collectors w) a = Some (PromWorker wk) \<and>
         hw_collectorWorker p = a \<and> deref (channels w) ch = Some False \<and> hide_Scaler h = Some sc)"

lemma one_handleUpdate:
  fixes w :: "'c world"
  assumes it: "fair_iter it" and spec: "one_model spec m model" and "Type model = ''holt_winter''" and "\<not> NeedTrain model"
    and h: "MetricMap h = no_map" "ModelMap h = no_map" "PredictorMap h = no_map" "CollectorWorkerMap h = no_map"
      "CollectorMap h = []" "hide_Scaler h = Some sc"
    and "pCollector w = Some pc"
    and "hw_New (length (collectors w)) (attr_map model) (WithModelKey m ''holt_winter'') = Ret p"
  shows "\<exists>cs w' a ch. handleUpdate it name spec (with_hide name w h) = (Ret cs, w') \<and>
    running name m p sc (worker_of m pc) a ch w' \<and>
    goroutines w' = goroutines w @ [StartWorkerLoop name a ch (ScrapeInterval spec)] \<and>
    schedulers w' = schedulers w \<and> k8s_client w' = k8s_client w"
proof -
  let ?w1 = "w\<lparr>metric_vars := metric_vars w @ [m, m]\<rparr>"
  let ?h1 = "h\<lparr>MetricMap := one_map (NoModelKey m) (length (metric_vars w))\<rparr>"
  let ?w2 = "?w1\<lparr>model_vars := model_vars w @ [model]\<rparr>"
  let ?h2 = "?h1\<lparr>ModelMap := one_map (WithModelKey m (Type model)) (length (model_vars w))\<rparr>"
  let ?g = "StartWorkerLoop name (length (collectors w)) (length (channels w)) (ScrapeInterval spec)"
  let ?w3 = "?w2\<lparr>collectors := collectors w @ [PromWorker (worker_of m pc)], channels := channels w @ [False],
       pCollector := Some (AddCustomMetrics m pc), goroutines := goroutines w @ [?g]\<rparr>"
  let ?h3 = "?h2\<lparr>CollectorMap := [(NoModelKey m, length (channels w))],
       CollectorWorkerMap := one_map (NoModelKey m) (length (collectors w))\<rparr>"
  let ?w4 = "?w3\<lparr>predictors := predictors w @ [HwPredictor p]\<rparr>"
  let ?h4 = "?h3\<lparr>PredictorMap := one_map (WithModelKey m ''holt_winter'') (length (predictors w))\<rparr>"
  have "handleMetrics it name spec (with_hide name w h) = (Ret (), with_hide name ?w1 ?h1)"
    by (rule one_handleMetrics [OF it spec h(1)])
  moreover have "handleModels it name spec (with_hide name ?w1 ?h1) = (Ret [], with_hide name ?w2 ?h2)"
    using one_handleModels [OF it spec, of ?h1 name ?w1] h(2) by simp
  moreover obtain cs where "handleCollector it name spec (with_hide name ?w2 ?h2) = (Ret cs, with_hide name ?w3 ?h3)"
    using one_handleCollector [OF it spec, of ?h2 ?w2 pc name] h(4,5) assms(11) by auto
  moreover have "handlePredictor it name spec [] (with_hide name ?w3 ?h3) = (Ret (), with_hide name ?w4 ?h4)"
    using one_handlePredictor [OF it spec, of ?h3 "length (collectors w)" ?w3 "PromWorker (worker_of m pc)" p name]
      h(3) assms(3,12) by (simp add: deref_def)
  ultimately have "handleUpdate it name spec (with_hide name w h) = (Ret cs, with_hide name ?w4 ?h4)"
    by (simp add: handleUpdate_def)
  moreover have "running name m p sc (worker_of m pc) (length (collectors w)) (length (channels w)) (with_hide name ?w4 ?h4)"
    using assms(3,4,12) h(6) hw_New_Key [OF assms(12)] by (simp add: running_def Let_def)
  ultimately show ?thesis by (intro exI conjI) (assumption, assumption, simp_all)
qed

lemma one_Handle:
  fixes w :: "'c world"
  assumes "fair_iter it" and "one_model (Spec inst) m model" and "Type model = ''holt_winter''" and "\<not> NeedTrain model"
    and "promc_ready w" and "map_of (globalStore w) (aom_name inst) = None" and "map_of (schedulers w) (aom_name inst) = None"
    and "StatusGeneration inst = 0" and "Generation inst \<noteq> 0" and "fst (new_client env w) = Ret ()"
    and "api_NewClient (env_prom env) (CollectorAddress (Spec inst)) = Inr c" and "accepts_status env"
    and "hw_New (length (collectors w)) (attr_map model) (WithModelKey m ''holt_winter'') = Ret p"
  shows "\<exists>w' pc a ch. Handle env it inst w = (Ret (), w') \<and> client pc = Some c \<and>
    running (aom_name inst) m p (the_scaler (aom_name inst) (Spec inst)) (worker_of m pc) a ch w' \<and>
    StartWorkerLoop (aom_name inst) a ch (ScrapeInterval (Spec inst)) \<in> set (goroutines w') \<and>
    RunLoop \<lparr>sched_Name = aom_name inst, Interval = seconds (spec_Interval (Spec inst))\<rparr> \<in> set (goroutines w') \<and>
    k8s_client w' = k8s_client (snd (new_client env w))"
proof -
  let ?n = "aom_name inst" and ?spec = "Spec inst"
  let ?s = "\<lparr>sched_Name = ?n, Interval = seconds (spec_Interval ?spec)\<rparr>"
  obtain v where v: "new_client env w = (Ret (), v)" using assms(10) by (cases "new_client env w") auto
  then obtain kc where vw: "v = w\<lparr>k8s_client := kc\<rparr>" using new_client_world by blast
  obtain p0 where p0: "pCollector (init_promc v) = Some p0" using assms(5) vw by (cases "promcDone w") (auto simp: init_promc_def promc_ready_def)
  let ?pc = "p0\<lparr>ServerAddress := CollectorAddress ?spec, client := Some c\<rparr>"
  let ?w0 = "(init_promc v)\<lparr>pCollector := Some ?pc\<rparr>"
  let ?h0 = "(Hide_Init new_Hide)\<lparr>hide_Scaler := Some (the_scaler ?n ?spec)\<rparr>"
  have addr: "set_server_address (env_prom env) (CollectorAddress ?spec) (init_promc v) = (Ret (), ?w0)"
    using p0 assms(11) by (simp add: set_server_address_def SetServerAddress_def Let_def)
  have same: "collectors ?w0 = collectors w" "globalStore ?w0 = globalStore w" "schedulers ?w0 = schedulers w" "k8s_client ?w0 = k8s_client v"
    using vw by (simp_all add: init_promc_def)
  then have hide: "GetHide ?n ?w0 = (Ret (Hide_Init new_Hide), with_hide ?n ?w0 (Hide_Init new_Hide))"
    using assms(6) by (simp add: GetHide_def with_hide_def Let_def)
  have "MetricMap ?h0 = no_map" "ModelMap ?h0 = no_map" "PredictorMap ?h0 = no_map" "CollectorWorkerMap ?h0 = no_map"
    "CollectorMap ?h0 = []" by (simp_all add: Hide_Init_def new_Hide_def cm_init_def no_map_def)
  from one_handleUpdate [OF assms(1-4) this, of "the_scaler ?n ?spec" ?w0 ?pc p ?n] assms(13) same(1)
  obtain cs w' a ch where up: "handleUpdate it ?n ?spec (with_hide ?n ?w0 ?h0) = (Ret cs, w')"
    "running ?n m p (the_scaler ?n ?spec) (worker_of m ?pc) a ch w'"
    "goroutines w' = goroutines ?w0 @ [StartWorkerLoop ?n a ch (ScrapeInterval ?spec)]"
    "schedulers w' = schedulers w" "k8s_client w' = k8s_client v"
    using same by auto
  let ?t = "w'\<lparr>schedulers := AList.update ?n ?s (schedulers w'), goroutines := goroutines w' @ [RunLoop ?s]\<rparr>"
  have "handleCreate env it ?n ?spec v = (Ret cs, ?t)"
    using addr hide up(1,4) assms(7) by (simp add: handleCreate_def the_scaler_def GetOrNew_def Let_def)
  then have "Handle env it inst w = (Ret (), ?t)"
    using v assms(8,9,12) by (simp add: Handle_def accepts_status_def)
  moreover have "running ?n m p (the_scaler ?n ?spec) (worker_of m ?pc) a ch ?t"
    using up(2) by (simp add: running_def the_hide_def)
  ultimately show ?thesis using up(3,5) v
    by (intro exI [of _ ?t] exI [of _ ?pc] exI [of _ a] exI [of _ ch]) simp
qed

section \<open>Collecting and scaling\<close>

text \<open>Turns of the collector's loop at given times, none of which sees the end of the loop.\<close>

fun turns :: "prom_libs \<Rightarrow> NamespacedName \<Rightarrow> addr \<Rightarrow> addr \<Rightarrow> int list \<Rightarrow> 'c world \<Rightarrow> 'c world option" where
  "turns lib name a ch [] w = Some w"
| "turns lib name a ch (now # nows) w =
     (case worker_turn lib now False name a ch False w of
        (Ret (Going False), w') \<Rightarrow> turns lib name a ch nows w'
      | _ \<Rightarrow> None)"

text \<open>A Prometheus server that answers the query of a metric with one reading.\<close>

definition answers :: "prom_libs \<Rightarrow> handle \<Rightarrow> Metric \<Rightarrow> (int \<Rightarrow> sample) \<Rightarrow> bool" where
  "answers lib c m reading \<longleftrightarrow> (\<forall>now. api_Query lib c (Query m) now = Vector [reading now])"

lemma turn_running:
  assumes "running name m p sc ((worker_of m pc)\<lparr>data := d\<rparr>) a ch w" and "client pc = Some c" and "answers lib c m reading"
  shows "\<exists>w'. worker_turn lib now False name a ch False w = (Ret (Going False), w') \<and> k8s_client w' = k8s_client w \<and>
    running name m p sc ((worker_of m pc)\<lparr>data := d @ [reading now]\<rparr>) a ch w'"
proof -
  let ?wk = "\<lambda>d. (worker_of m pc)\<lparr>data := d\<rparr>"
  have collect: "mc_Collect lib now (PromWorker (?wk d)) = (Ret (), PromWorker (?wk (d @ [reading now])))"
    using assms(2,3) by (simp add: worker_Collect_def worker_of_def answers_def)
  let ?w' = "w\<lparr>collectors := assign a (PromWorker (?wk (d @ [reading now]))) (collectors w)\<rparr>"
  have "worker_turn lib now False name a ch False w = (Ret (Going False), ?w')"
    using assms(1) collect worker_of_key by (simp add: worker_turn_def running_def Let_def)
  moreover have "running name m p sc (?wk (d @ [reading now])) a ch ?w'"
    using assms(1) by (auto simp: running_def Let_def the_hide_def deref_assign deref_eq_Some_iff)
  ultimately show ?thesis by (intro exI [of _ ?w']) simp
qed

lemma turns_running:
  assumes "running name m p sc ((worker_of m pc)\<lparr>data := d\<rparr>) a ch w" and "client pc = Some c" and "answers lib c m reading"
  shows "\<exists>w'. turns lib name a ch nows w = Some w' \<and> k8s_client w' = k8s_client w \<and>
    running name m p sc ((worker_of m pc)\<lparr>data := d @ map reading nows\<rparr>) a ch w'"
  using assms(1)
proof (induction nows arbitrary: d w)
  case (Cons now nows)
  from turn_running [OF Cons.prems assms(2,3)] obtain v where
    v: "worker_turn lib now False name a ch False w = (Ret (Going False), v)" "k8s_client v = k8s_client w"
    "running name m p sc ((worker_of m pc)\<lparr>data := d @ [reading now]\<rparr>) a ch v" by blast
  from Cons.IH [OF v(3)] v(1,2) show ?case by simp
qed simp

lemma running_forecast:
  assumes "running name m p sc wk a ch w" and "enough_samples p wk"
  shows "one_forecast w (the_hide name w) (WithModelKey m ''holt_winter'') p wk m"
proof -
  have "GetNoModelKey (WithModelKey m ''holt_winter'') = NoModelKey m" by (simp add: WithModelKey_eq plain_def)
  with assms show ?thesis by (auto simp: running_def one_forecast_def metric_at_def Let_def)
qed

section \<open>Property\<close>

text \<open>The parameters of a Holt-Winters predictor over windows that \<open>n\<close> samples fill.\<close>

definition fits :: "HoltWinter \<Rightarrow> nat \<Rightarrow> bool" where
  "fits p n \<longleftrightarrow> lookBackward p \<le> int n \<and> in64 (int n) \<and> 0 < slen p \<and> 2 * slen p \<le> lookBackward p \<and>
     0 \<le> lookForward p \<and> in64 (lookBackward p + lookForward p)"

text \<open>What a tick does to the count of the target: \<open>x\<close> is the sample it goes by.\<close>

definition scaled_by :: "'c tick_env \<Rightarrow> Scaler \<Rightarrow> Metric \<Rightarrow> f64 \<Rightarrow> f64 \<Rightarrow> int32 \<Rightarrow> (target \<Rightarrow> int32 option) \<Rightarrow> target \<Rightarrow> int32 option" where
  "scaled_by env sc m t x cur v =
     (let n = weighted_count (max32 (count_for (tick_oob env) t x) 0) m 2
      in if sint cur < sint n then v(scaler_target (tick_k8s env) sc \<mapsto> min32 n (MaxReplica sc)) else v)"

text \<open>C1: from the creation of an instance with one metric and one Holt-Winters model to its first scaling, with no tick in between: the
  first reconciliation succeeds and starts a loop of a collector and a loop of a scheduler; the turns of
  the first each add the reading of the Prometheus server; and once they fill the window of the
  model, a tick of the second raises the target of the spec to the count for the oldest reading of the
  window, weighted and cut at the maximum of the spec, if that is more than it has.\<close>

theorem created_instance_scales:
  fixes w :: "'c world"
  assumes "fair_iter it" and "one_model (Spec inst) m model" and "Type model = ''holt_winter''" and "\<not> NeedTrain model"
    and "good w" and "map_of (globalStore w) (aom_name inst) = None" and "map_of (schedulers w) (aom_name inst) = None"
    and "StatusGeneration inst = 0" and "Generation inst \<noteq> 0" and "fst (new_client env w) = Ret ()"
    and "api_NewClient (env_prom env) (CollectorAddress (Spec inst)) = Inr c" and "accepts_status env"
    and "hw_New (length (collectors w)) (attr_map model) (WithModelKey m ''holt_winter'') = Ret p"
    and "answers (env_prom env) c m reading" and "fits p (length nows)"
    and "fair_iter (tick_iter tenv)" and "fair_order tenv" and "ParseFloat (Target m) = Ret t"
    and "serves_target (tick_k8s tenv) (k8s_client (snd (new_client env w))) view (the_scaler (aom_name inst) (Spec inst)) cl cur"
  shows "\<exists>w1 a ch s w2 w3 cl'.
    Reconcile env it (Found inst) w = (Ret \<lparr>RequeueAfter = 0, reconcile_error = None\<rparr>, w1) \<and>
    StartWorkerLoop (aom_name inst) a ch (ScrapeInterval (Spec inst)) \<in> set (goroutines w1) \<and> RunLoop s \<in> set (goroutines w1) \<and>
    turns (env_prom env) (aom_name inst) a ch nows w1 = Some w2 \<and>
    tick tenv s (w2, cl) = Some (Ret (), (w3, cl')) \<and>
    view cl' = scaled_by tenv (the_scaler (aom_name inst) (Spec inst)) m t
      (Value (reading (nows ! (length nows - nat (lookBackward p))))) cur (view cl)"
proof -
  let ?n = "aom_name inst" and ?sc = "the_scaler (aom_name inst) (Spec inst)"
  let ?s = "\<lparr>sched_Name = ?n, Interval = seconds (spec_Interval (Spec inst))\<rparr>"
  have "promc_ready w" using assms(5) by (simp add: good_def)
  from one_Handle [OF assms(1-4) this assms(6-13)] obtain w1 pc a ch where
    w1: "Handle env it inst w = (Ret (), w1)" "client pc = Some c" "running ?n m p ?sc (worker_of m pc) a ch w1"
    "StartWorkerLoop ?n a ch (ScrapeInterval (Spec inst)) \<in> set (goroutines w1)" "RunLoop ?s \<in> set (goroutines w1)"
    "k8s_client w1 = k8s_client (snd (new_client env w))" by blast
  have "running ?n m p ?sc ((worker_of m pc)\<lparr>data := []\<rparr>) a ch w1" using w1(3) by (simp add: worker_of_def)
  from turns_running [OF this w1(2) assms(14), of nows] obtain w2 where
    w2: "turns (env_prom env) ?n a ch nows w1 = Some w2" "k8s_client w2 = k8s_client w1"
    "running ?n m p ?sc ((worker_of m pc)\<lparr>data := map reading nows\<rparr>) a ch w2" by auto
  let ?wk = "(worker_of m pc)\<lparr>data := map reading nows\<rparr>"
  have enough: "enough_samples p ?wk" using assms(15) by (simp add: enough_samples_def fits_def)
  have old: "oldest p ?wk = Value (reading (nows ! (length nows - nat (lookBackward p))))"
    using assms(15) by (simp add: oldest_def fits_def) (subst nth_map, linarith, rule refl)
  have f: "one_forecast w2 (the_hide (sched_Name ?s) w2) (WithModelKey m ''holt_winter'') p ?wk m"
    using running_forecast [OF w2(3) enough] by simp
  have sc: "hide_Scaler (the_hide (sched_Name ?s) w2) = Some ?sc" using w2(3) by (simp add: running_def Let_def)
  have "serves_target (tick_k8s tenv) (k8s_client w2) view ?sc cl cur" using assms(19) w1(6) w2(2) by simp
  from tick_one_forecast [OF assms(16,17) f sc this assms(18)] obtain w3 cl' where
    "tick tenv ?s (w2, cl) = Some (Ret (), (w3, cl'))" "view cl' = scaled_by tenv ?sc m t (oldest p ?wk) cur (view cl)"
    unfolding Let_def scaled_by_def by blast
  moreover have "Reconcile env it (Found inst) w = (Ret \<lparr>RequeueAfter = 0, reconcile_error = None\<rparr>, w1)"
    using w1(1) by (simp add: Reconcile_def)
  ultimately show ?thesis using w1(4,5) w2(1) old by metis
qed

text \<open>An instance whose readings start at 10, with the target 5: one replica becomes two.\<close>

definition hw_attr :: "(string, string) gomap" where
  "hw_attr = [(''slen'', ''2''), (''look_forward'', ''3''), (''look_backward'', ''4''), (''alpha'', ''1''), (''beta'', ''1''),
              (''gamma'', ''1'')]"

definition rising :: "int \<Rightarrow> sample" where
  "rising now = \<lparr>Value = f64_of_int (10 + now), TimeStamp = now\<rparr>"

definition rising_env :: "(target \<Rightarrow> int32) env" where
  "rising_env = demo_env\<lparr>env_prom := \<lparr>api_NewClient = (\<lambda>_. Inr 0), api_Query = (\<lambda>_ _ now. Vector [rising now])\<rparr>\<rparr>"

definition hw_model :: Model where
  "hw_model = \<lparr>Type = ''holt_winter'', NeedTrain = False, UpdateInterval = 0, Attr = Some hw_attr\<rparr>"

definition hw_inst :: AOM where
  "hw_inst = demo_inst\<lparr>Spec := spec_of [(''m1'', sample_metric ''cpu'' ''5'' 100)] [(''m1'', [hw_model])]\<rparr>"

lemma hw_attr_fields:
  "\<exists>p. hw_New a hw_attr k = Ret p \<and> fits p 4 \<and> lookBackward p = 4"
proof -
  have ints: "Atoi (json_field hw_attr ''slen'') = Ret 2" "Atoi (json_field hw_attr ''look_forward'') = Ret 3"
    "Atoi (json_field hw_attr ''look_backward'') = Ret 4"
    by code_simp+
  have "json_field hw_attr ''alpha'' = ''1''" "json_field hw_attr ''beta'' = ''1''" "json_field hw_attr ''gamma'' = ''1''"
    "special_float ''1'' = None" "read_float ''1'' = Some (False, 1)"
    by code_simp+
  then obtain x where "ParseFloat (json_field hw_attr ''alpha'') = Ret x" "ParseFloat (json_field hw_attr ''beta'') = Ret x"
    "ParseFloat (json_field hw_attr ''gamma'') = Ret x"
    using mk_f64_of_int [of 1 False] by (simp add: ParseFloat_def)
  with ints show ?thesis by (simp add: hw_New_def fits_def in64_def)
qed

lemma hw_inst_count: "scaled_by hw_env (the_scaler (aom_name hw_inst) (Spec hw_inst)) (sample_metric ''cpu'' ''5'' 100)
    (Fin False 5) (f64_of_int 10) 1 v = v(scaler_target (tick_k8s hw_env) (the_scaler (aom_name hw_inst) (Spec hw_inst)) \<mapsto> 2)"
proof -
  have "f64_of_int 10 = oldest demo_hw sampled"
    by (simp add: oldest_def demo_hw_def sampled_def demo_samples_def)
  moreover have "min32 2 (MaxReplica (the_scaler (aom_name hw_inst) (Spec hw_inst))) = 2" by code_simp
  ultimately show ?thesis using hw_count by (simp add: scaled_by_def Let_def)
qed

theorem created_instance_scales_witness:
  "\<exists>w1 s w3 cl' a ch w2. Reconcile rising_env (\<lambda>_. rev) (Found hw_inst) start_world =
       (Ret \<lparr>RequeueAfter = 0, reconcile_error = None\<rparr>, w1) \<and> RunLoop s \<in> set (goroutines w1) \<and>
     turns (env_prom rising_env) (aom_name hw_inst) a ch [0, 1, 2, 3] w1 = Some w2 \<and>
     tick hw_env s (w2, \<lambda>_. 1) = Some (Ret (), (w3, cl')) \<and>
     demo_view cl' = (demo_view (\<lambda>_. 1))(scaler_target (tick_k8s hw_env) (the_scaler (aom_name hw_inst) (Spec hw_inst)) \<mapsto> 2)"
proof -
  let ?m = "sample_metric ''cpu'' ''5'' 100" and ?w = "start_world :: (target \<Rightarrow> int32) world"
  obtain p where p: "hw_New (length (collectors ?w)) (attr_map hw_model) (WithModelKey ?m ''holt_winter'') = Ret p"
    "fits p 4" "lookBackward p = 4"
    using hw_attr_fields [of "length (collectors ?w)" "WithModelKey ?m ''holt_winter''"] by (auto simp: attr_map_def hw_model_def)
  have fits: "fits p (length [0, 1, 2, 3 :: int])" using p(2) by (simp add: eval_nat_numeral)
  have client: "fst (new_client rising_env ?w) = Ret ()"
    "k8s_client (snd (new_client rising_env ?w)) = demo_k8s"
    by (simp_all add: new_client_def NewClient_def newClient_def start_world_def rising_env_def demo_env_def demo_libs_def demo_k8s_def)
  have "serves_target (tick_k8s hw_env) (k8s_client (snd (new_client rising_env ?w))) demo_view
      (the_scaler (aom_name hw_inst) (Spec hw_inst)) (\<lambda>_. 1) 1"
    by (simp add: client serves_target_def hw_env_def demo_view_def)
  note run = created_instance_scales [OF fair_iter_rev _ _ _ start_good _ _ _ _ client(1) _ _ p(1) _ fits hw_env_fair hw_target this,
    where c = 0 and reading = rising]
  have "one_model (Spec hw_inst) ?m hw_model" by (simp add: one_model_def hw_inst_def spec_of_def)
  moreover have "Type hw_model = ''holt_winter''" "\<not> NeedTrain hw_model" by (simp_all add: hw_model_def)
  moreover have "map_of (globalStore ?w) n = None" "map_of (schedulers ?w) n = None" for n by (simp_all add: start_world_def)
  moreover have "StatusGeneration hw_inst = 0" "Generation hw_inst \<noteq> 0" by (simp_all add: hw_inst_def demo_inst_def)
  moreover have "api_NewClient (env_prom rising_env) (CollectorAddress (Spec hw_inst)) = Inr 0" "accepts_status rising_env"
    "answers (env_prom rising_env) 0 ?m rising"
    by (simp_all add: rising_env_def accepts_status_def demo_env_def answers_def)
  ultimately show ?thesis using run p(3) hw_inst_count by (simp add: rising_def) metis
qed

end
