(* ===== verification/MapLocks.thy ===== *)
theory MapLocks
  imports Containers
begin

text \<open>
  utils/concurrent_map.go under concurrency: goroutines that call the methods of one map in any
  interleaving. A method takes the lock, looks at the map, and ends its work on what it has
  seen, in steps of their own; the lock is the one of sync. The theorem is that every interleaving is one of
  atomic calls, which is why the rest of the development models a call as one function. The loops over
  \<open>Data\<close> without the lock, of which the scheduler has one, are not calls and not covered.
\<close>

section \<open>Calls\<close>

datatype 'v call = CallLoad string | CallStore string 'v | CallDelete string | CallRange

text \<open>What a call returns: the result of \<open>Load\<close>, that \<open>Store\<close> returned or panicked, the entries \<open>Range\<close> has
  shown to its callback.\<close>

datatype 'v answer = Loaded "'v go" | Stored "unit go" | Deleted | Ranged "(string, 'v) gomap"

fun atomic_call :: "'v call \<Rightarrow> 'v ConcurrentMap \<Rightarrow> 'v answer \<times> 'v ConcurrentMap" where
  "atomic_call (CallLoad k) m = (Loaded (cm_Load m k), m)"
| "atomic_call (CallStore k v) m =
     (case cm_Store m k v of
        Ret m' \<Rightarrow> (Stored (Ret ()), m')
      | Err e \<Rightarrow> (Stored (Err e), m)
      | Panic p \<Rightarrow> (Stored (Panic p), m))"
| "atomic_call (CallDelete k) m = (Deleted, cm_Delete m k)"
| "atomic_call CallRange m = (Ranged (cm_data m), m)"

text \<open>\<open>Load\<close> takes the lock for reading, the other methods take it for writing.\<close>

fun reads_only :: "'v call \<Rightarrow> bool" where
  "reads_only (CallLoad k) = True"
| "reads_only _ = False"

section \<open>Goroutines and the lock\<close>

text \<open>Where a goroutine is in a call: it has the lock, it has seen the map, or it is about to give the lock
  back.\<close>

datatype 'v at = Outside | Holding "'v call" | Seen "'v call" "'v ConcurrentMap" | Leaving "'v call"

record 'v shared =
  the_map :: "'v ConcurrentMap"
  readers :: nat
  writing :: bool
  place :: "nat \<Rightarrow> 'v at"
  history :: "(nat \<times> 'v call \<times> 'v answer) list"

definition shared_start :: "'v ConcurrentMap \<Rightarrow> 'v shared" where
  "shared_start m = \<lparr>the_map = m, readers = 0, writing = False, place = (\<lambda>_. Outside), history = []\<rparr>"

definition goes_to :: "nat \<Rightarrow> 'v at \<Rightarrow> 'v shared \<Rightarrow> 'v shared" where
  "goes_to i p s = s\<lparr>place := (place s)(i := p)\<rparr>"

text \<open>A call that only reads does not write the map back.\<close>

definition works :: "nat \<Rightarrow> 'v call \<Rightarrow> 'v ConcurrentMap \<Rightarrow> 'v shared \<Rightarrow> 'v shared" where
  "works i c seen s =
     (let (answer, m) = atomic_call c seen
      in goes_to i (Leaving c)
           (s\<lparr>the_map := (if reads_only c then the_map s else m), history := history s @ [(i, c, answer)]\<rparr>))"

inductive map_step :: "'v shared \<Rightarrow> 'v shared \<Rightarrow> bool" where
  RLock: "place s i = Outside \<Longrightarrow> reads_only c \<Longrightarrow> \<not> writing s \<Longrightarrow>
    map_step s (goes_to i (Holding c) (s\<lparr>readers := Suc (readers s)\<rparr>))"
| Lock: "place s i = Outside \<Longrightarrow> \<not> reads_only c \<Longrightarrow> \<not> writing s \<Longrightarrow> readers s = 0 \<Longrightarrow>
    map_step s (goes_to i (Holding c) (s\<lparr>writing := True\<rparr>))"
| look: "place s i = Holding c \<Longrightarrow> map_step s (goes_to i (Seen c (the_map s)) s)"
| work: "place s i = Seen c seen \<Longrightarrow> map_step s (works i c seen s)"
| RUnlock: "place s i = Leaving c \<Longrightarrow> reads_only c \<Longrightarrow>
    map_step s (goes_to i Outside (s\<lparr>readers := readers s - 1\<rparr>))"
| Unlock: "place s i = Leaving c \<Longrightarrow> \<not> reads_only c \<Longrightarrow>
    map_step s (goes_to i Outside (s\<lparr>writing := False\<rparr>))"

section \<open>The invariant\<close>

fun call_of :: "'v at \<Rightarrow> 'v call option" where
  "call_of Outside = None"
| "call_of (Holding c) = Some c"
| "call_of (Seen c m) = Some c"
| "call_of (Leaving c) = Some c"

text \<open>The goroutines inside a reading and inside a writing call.\<close>

definition inside :: "bool \<Rightarrow> 'v shared \<Rightarrow> nat set" where
  "inside reading s = {i. \<exists>c. call_of (place s i) = Some c \<and> reads_only c = reading}"

text \<open>One after the other, the calls of the history give its answers.\<close>

fun replay :: "(nat \<times> 'v call \<times> 'v answer) list \<Rightarrow> 'v ConcurrentMap \<Rightarrow> 'v ConcurrentMap option" where
  "replay [] m = Some m"
| "replay ((i, c, answer) # es) m =
     (let (a, m') = atomic_call c m in if a = answer then replay es m' else None)"

definition locked :: "'v ConcurrentMap \<Rightarrow> 'v shared \<Rightarrow> bool" where
  "locked m0 s \<longleftrightarrow>
     finite (inside True s) \<and> card (inside True s) = readers s \<and>
     (if writing s then readers s = 0 \<and> (\<exists>i. inside False s = {i}) else inside False s = {}) \<and>
     (\<forall>i c m. place s i = Seen c m \<longrightarrow> m = the_map s) \<and>
     replay (history s) m0 = Some (the_map s)"

lemma replay_append: "replay (es @ fs) m = (case replay es m of None \<Rightarrow> None | Some m' \<Rightarrow> replay fs m')"
  by (induction es arbitrary: m) (auto split: prod.splits)

lemma atomic_reads: "reads_only c \<Longrightarrow> snd (atomic_call c m) = m"
  by (cases c) auto

lemma inside_goes [simp]:
  "inside r (goes_to i p s) =
     (case call_of p of None \<Rightarrow> inside r s - {i}
      | Some c \<Rightarrow> if reads_only c = r then insert i (inside r s) else inside r s - {i})"
  by (auto simp: inside_def goes_to_def split: option.splits)

lemma inside_fields [simp]:
  "inside r (s\<lparr>readers := n\<rparr>) = inside r s" "inside r (s\<lparr>writing := b\<rparr>) = inside r s"
  "inside r (s\<lparr>the_map := m, history := h\<rparr>) = inside r s"
  by (simp_all add: inside_def)

lemma goes_fields [simp]:
  "the_map (goes_to i p s) = the_map s" "readers (goes_to i p s) = readers s" "writing (goes_to i p s) = writing s"
  "history (goes_to i p s) = history s" "place (goes_to i p s) j = (if j = i then p else place s j)"
  by (simp_all add: goes_to_def)

lemma in_inside: "i \<in> inside r s \<longleftrightarrow> (\<exists>c. call_of (place s i) = Some c \<and> reads_only c = r)"
  by (simp add: inside_def)

text \<open>Whoever is in a writing call is alone.\<close>

lemma locked_alone:
  assumes "locked m0 s" and "i \<in> inside False s" and "call_of (place s j) \<noteq> None"
  shows "j = i"
proof -
  have "writing s" using assms(1,2) by (auto simp: locked_def split: if_splits)
  with assms(1) have "inside True s = {}" "\<exists>k. inside False s = {k}" by (auto simp: locked_def)
  moreover have "j \<in> inside True s \<or> j \<in> inside False s" using assms(3) by (auto simp: in_inside)
  ultimately show ?thesis using assms(2) by auto
qed

lemma locked_start: "locked m (shared_start m)"
  by (auto simp: locked_def shared_start_def inside_def)

lemma locked_works:
  assumes "locked m0 s" and "place s i = Seen c seen"
  shows "locked m0 (works i c seen s)"
proof -
  have i: "i \<in> inside (reads_only c) s" and seen: "seen = the_map s" using assms by (auto simp: in_inside locked_def)
  obtain a m where am: "atomic_call c (the_map s) = (a, m)" by force
  let ?s = "works i c seen s"
  have m: "(if reads_only c then the_map s else m) = m" using atomic_reads [of c "the_map s"] am by auto
  then have s': "?s = goes_to i (Leaving c) (s\<lparr>the_map := m, history := history s @ [(i, c, a)]\<rparr>)"
    by (simp add: works_def seen am)
  have "the_map ?s = m" "readers ?s = readers s" "writing ?s = writing s" "history ?s = history s @ [(i, c, a)]"
    by (simp_all add: s')
  moreover have "inside r ?s = inside r s" for r
    using i locked_alone [OF assms(1)] by (cases "reads_only c"; cases r) (auto simp: s' insert_absorb in_inside)
  moreover have "m' = m" if "place ?s j = Seen c' m'" for j c' m'
  proof (cases "reads_only c")
    case True
    with that assms(1) atomic_reads [of c "the_map s"] am show ?thesis by (auto simp: s' locked_def split: if_splits)
  next
    case False
    with that i locked_alone [OF assms(1), of i j] show ?thesis by (auto simp: s' split: if_splits)
  qed
  moreover have "replay (history s @ [(i, c, a)]) m0 = Some m"
    using assms(1) am by (simp add: locked_def replay_append)
  ultimately show ?thesis using assms(1) unfolding locked_def by simp
qed

lemma locked_step: "map_step s s' \<Longrightarrow> locked m0 s \<Longrightarrow> locked m0 s'"
proof (induction rule: map_step.induct)
  case (RLock s i c)
  then have "i \<notin> inside True s" by (simp add: in_inside)
  with RLock show ?case by (auto simp: locked_def)
next
  case (Lock s i c)
  then show ?case by (auto simp: locked_def)
next
  case (look s i c)
  then have i: "i \<in> inside (reads_only c) s" by (simp add: in_inside)
  then have "writing s" if "\<not> reads_only c" using look that by (auto simp: locked_def split: if_splits)
  with look i show ?case by (cases "reads_only c") (auto simp: locked_def insert_absorb in_inside)
next
  case (work s i c seen)
  then show ?case by (intro locked_works)
next
  case (RUnlock s i c)
  then have "i \<in> inside True s" by (simp add: in_inside)
  with RUnlock show ?case by (auto simp: locked_def in_inside)
next
  case (Unlock s i c)
  then have i: "i \<in> inside False s" by (simp add: in_inside)
  with Unlock have "inside False s = {i}" "readers s = 0" by (auto simp: locked_def split: if_splits)
  with Unlock i show ?case by (auto simp: locked_def)
qed

lemma locked_reachable: "map_step\<^sup>*\<^sup>* (shared_start m) s \<Longrightarrow> locked m s"
  by (induction rule: rtranclp_induct) (auto intro: locked_start locked_step)

section \<open>Property\<close>

text \<open>C13: whatever the interleaving of the calls of any number of goroutines, the calls that have done their work
  are, in the order in which they did it, a run of atomic calls with the same answers and the same map
  at the end; a writing call has the map for itself; and a goroutine that is inside a call never
  has to wait before it is out again.\<close>

theorem calls_linearizable:
  assumes "map_step\<^sup>*\<^sup>* (shared_start m) s"
  shows "replay (history s) m = Some (the_map s) \<and>
    (\<forall>i j. i \<in> inside False s \<and> call_of (place s j) \<noteq> None \<longrightarrow> j = i) \<and>
    (\<forall>i. call_of (place s i) \<noteq> None \<longrightarrow> (\<exists>s'. map_step s s' \<and> place s' i \<noteq> place s i))"
proof (intro conjI allI impI)
  have inv: "locked m s" by (rule locked_reachable [OF assms])
  then show "replay (history s) m = Some (the_map s)" by (simp add: locked_def)
  show "j = i" if "i \<in> inside False s \<and> call_of (place s j) \<noteq> None" for i j
    using locked_alone [OF inv] that by blast
  fix i assume "call_of (place s i) \<noteq> None"
  then consider c where "place s i = Holding c" | c x where "place s i = Seen c x" | c where "place s i = Leaving c"
    by (cases "place s i") auto
  then show "\<exists>s'. map_step s s' \<and> place s' i \<noteq> place s i"
  proof cases
    case 1
    then show ?thesis using map_step.look [of s i] by (intro exI conjI) auto
  next
    case 2
    then show ?thesis using map_step.work [of s i] by (intro exI conjI) (auto simp: works_def split: prod.splits)
  next
    case (3 c)
    then show ?thesis using map_step.RUnlock [of s i c] map_step.Unlock [of s i c]
      by (cases "reads_only c") (force intro: exI)+
  qed
qed

theorem calls_linearizable_witness:
  "\<exists>s :: nat shared. history s = [(0, CallStore ''k'' 5, Stored (Ret ())), (1, CallLoad ''k'', Loaded (Ret 5))] \<and>
     replay (history s) NewConcurrentMap = Some (the_map s)"
proof -
  let ?m = "NewConcurrentMap :: nat ConcurrentMap"
  let ?s0 = "shared_start ?m" and ?c = "CallStore ''k'' (5 :: nat)" and ?d = "CallLoad ''k'' :: nat call"
  let ?s1 = "goes_to 0 (Holding ?c) (?s0\<lparr>writing := True\<rparr>)"
  let ?s2 = "goes_to 0 (Seen ?c (the_map ?s1)) ?s1"
  let ?s3 = "works 0 ?c (the_map ?s1) ?s2"
  let ?s4 = "goes_to 0 Outside (?s3\<lparr>writing := False\<rparr>)"
  let ?s5 = "goes_to 1 (Holding ?d) (?s4\<lparr>readers := Suc (readers ?s4)\<rparr>)"
  let ?s6 = "goes_to 1 (Seen ?d (the_map ?s5)) ?s5"
  let ?s7 = "works 1 ?d (the_map ?s5) ?s6"
  note simps = shared_start_def works_def goes_to_def NewConcurrentMap_def cm_Store_def cm_Load_def cm_data_def
  have "map_step ?s0 ?s1" by (rule map_step.Lock) (simp_all add: simps)
  moreover have "map_step ?s1 ?s2" by (rule map_step.look) simp
  moreover have "map_step ?s2 ?s3" by (rule map_step.work) simp
  moreover have "map_step ?s3 ?s4" by (rule map_step.Unlock [where c = ?c]) (simp_all add: simps)
  moreover have "map_step ?s4 ?s5" by (rule map_step.RLock [where c = ?d]) (simp_all add: simps)
  moreover have "map_step ?s5 ?s6" by (rule map_step.look) simp
  moreover have "map_step ?s6 ?s7" by (rule map_step.work) simp
  ultimately have "map_step\<^sup>*\<^sup>* ?s0 ?s7" by (meson rtranclp.rtrancl_refl rtranclp.rtrancl_into_rtrancl)
  then have "replay (history ?s7) ?m = Some (the_map ?s7)" using calls_linearizable by blast
  moreover have "history ?s7 = [(0, ?c, Stored (Ret ())), (1, ?d, Loaded (Ret 5))]"
    by (simp add: simps)
  ultimately show ?thesis by (intro exI conjI)
qed

end
