(* ===== verification/Plot.thy ===== *)
theory Plot
  imports GoFloat
begin

text \<open>
  utils/plot.go: the picture both predictors draw in debug mode. gonum makes a line from a series of points,
  which it copies, and saves a picture of lines; both are parameters, and saving may fail or panic (its
  axes may have no ticks for the values it is given). The result of the predictors does not depend on
  the picture, whose errors they log: what matters is what is drawn, and that the code's own indexing
  never panics.
\<close>

type_synonym point = "f64 \<times> f64"

record plot_libs =
  NewLine :: "point list \<Rightarrow> gerr + point list"
  Save :: "point list list \<Rightarrow> string \<Rightarrow> unit go"

text \<open>Assignments \<open>line.XYs[i].X = x\<close> and \<open>line.XYs[i].Y = y\<close> to both coordinates of a point.\<close>

definition set_point :: "int \<Rightarrow> point \<Rightarrow> point list \<Rightarrow> point list go" where
  "set_point i p line =
     (if 0 \<le> i \<and> i < int (length line) then Ret (line[nat i := p]) else Panic IndexOutOfRange)"

definition fill :: "int \<Rightarrow> f64 list \<Rightarrow> point list \<Rightarrow> point list go" where
  "fill from values line =
     fold_go (\<lambda>(i, v). set_point (int i) (f64_of_int (int i + from), v)) (enumerate 0 values) line"

definition new_line :: "plot_libs \<Rightarrow> nat \<Rightarrow> point list go" where
  "new_line lib n = (case NewLine lib (replicate n (zero64, zero64)) of Inl e \<Rightarrow> Err e | Inr line \<Rightarrow> Ret line)"

definition PlotLine :: "plot_libs \<Rightarrow> f64 list \<Rightarrow> f64 list \<Rightarrow> string \<Rightarrow> unit go" where
  "PlotLine lib base prediction fileName =
     and_then (new_line lib (length base)) (\<lambda>baseLine.
     and_then (new_line lib (length prediction)) (\<lambda>predtionLine.
     and_then (new_line lib 2) (\<lambda>connectionLine.
     and_then (index base (int (length base) - 1)) (\<lambda>last.
     and_then (set_point 0 (f64_of_int (int (length base) - 1), last) connectionLine) (\<lambda>connectionLine.
     and_then (index prediction 0) (\<lambda>first.
     and_then (set_point 1 (f64_of_int (int (length base)), first) connectionLine) (\<lambda>connectionLine.
     and_then (fill 0 base baseLine) (\<lambda>baseLine.
     and_then (fill (int (length base)) prediction predtionLine) (\<lambda>predtionLine.
       Save lib [baseLine, predtionLine, connectionLine] (fileName @ ''.png''))))))))))"

text \<open>gonum refuses a line without points, and copies the points of any other.\<close>

definition copies_points :: "plot_libs \<Rightarrow> bool" where
  "copies_points lib \<longleftrightarrow> (\<forall>n. if n = 0 then \<exists>e. NewLine lib [] = Inl e
     else NewLine lib (replicate n (zero64, zero64)) = Inr (replicate n (zero64, zero64)))"

lemma new_line_cases:
  assumes "copies_points lib"
  shows "\<exists>e. NewLine lib [] = Inl e \<and> new_line lib 0 = Err e" and "n \<noteq> 0 \<Longrightarrow> new_line lib n = Ret (replicate n (zero64, zero64))"
  using assms by (auto simp: copies_points_def new_line_def split: if_splits)

text \<open>The points of a series whose first point is at \<open>from\<close>.\<close>

definition points :: "int \<Rightarrow> f64 list \<Rightarrow> point list" where
  "points from values = map (\<lambda>i. (f64_of_int (int i + from), values ! i)) [0..<length values]"

lemma fill_points:
  assumes "length line = length values"
  shows "fill from values line = Ret (points from values)"
proof -
  have "fold_go (\<lambda>(i, v). set_point (int i) (f64_of_int (int i + from), v)) (enumerate k vs) line =
      Ret (take k line @ map (\<lambda>i. (f64_of_int (int i + from), vs ! (i - k))) [k..<k + length vs])"
    if "k + length vs = length line" for k vs line
    using that
  proof (induction vs arbitrary: k line)
    case (Cons v vs)
    let ?p = "(f64_of_int (int k + from), v)"
    have line: "take (Suc k) (line[k := ?p]) = take k line @ [?p]"
      using Cons.prems by (simp add: take_Suc_conv_app_nth)
    have up: "[k..<k + length (v # vs)] = k # [Suc k..<Suc k + length vs]" by (simp add: upt_conv_Cons del: upt_Suc)
    have "map (\<lambda>i. (f64_of_int (int i + from), vs ! (i - Suc k))) [Suc k..<Suc k + length vs] =
        map (\<lambda>i. (f64_of_int (int i + from), (v # vs) ! (i - k))) [Suc k..<Suc k + length vs]"
      by (intro map_cong) (auto simp: nth_Cons' simp del: upt_Suc)
    with Cons.IH [of "Suc k" "line[k := ?p]"] Cons.prems line show ?case
      unfolding up by (simp add: set_point_def)
  qed simp
  from this [where k = 0 and line = line and vs = "values"] assms show ?thesis by (simp add: fill_def points_def)
qed

text \<open>C21: drawing a picture: with an empty series it reports gonum's error for a line without points and saves
  nothing. Otherwise none of the code's own accesses is out of range: it saves three lines, the base from 0
  on, the prediction right after it, and the connection from the last point of the one to the first
  of the other, and ends as the saving ends, be it with an error or with a panic of gonum.\<close>

theorem PlotLine_draws:
  assumes "copies_points lib"
  shows "if base = [] \<or> prediction = [] then \<exists>e. NewLine lib [] = Inl e \<and> PlotLine lib base prediction fileName = Err e
    else PlotLine lib base prediction fileName =
      Save lib [points 0 base, points (int (length base)) prediction,
        [last (points 0 base), hd (points (int (length base)) prediction)]] (fileName @ ''.png'')"
proof (cases "base = [] \<or> prediction = []")
  case True
  obtain e where "NewLine lib [] = Inl e" "new_line lib 0 = Err e" using new_line_cases(1) [OF assms] by blast
  with True new_line_cases(2) [OF assms, of "length base"] show ?thesis by (cases "base = []") (simp_all add: PlotLine_def)
next
  case False
  have lines: "new_line lib n = Ret (replicate n (zero64, zero64))" if "n \<noteq> 0" for n
    using new_line_cases(2) [OF assms] that by blast
  have "last (points 0 base) = (f64_of_int (int (length base) - 1), base ! (length base - 1))"
    using False by (cases base) (simp_all add: points_def last_map del: upt_Suc)
  moreover have "hd (points (int (length base)) prediction) = (f64_of_int (int (length base)), prediction ! 0)"
    using False by (simp add: points_def hd_map)
  moreover have "index base (int (length base) - 1) = Ret (base ! (length base - 1))"
    using False by (cases base) (simp_all add: index_def)
  ultimately show ?thesis
    using False lines by (simp add: PlotLine_def fill_points set_point_def index_def numeral_2_eq_2)
qed

definition demo_plot :: plot_libs where
  "demo_plot =
     \<lparr>NewLine = (\<lambda>ps. if ps = [] then Inl (External ''plotter: no data points'') else Inr ps),
      Save = (\<lambda>ls name. if map length ls = [2, 1, 2] \<and> name = ''gru.png'' then Ret () else Err (External ''unexpected''))\<rparr>"

theorem PlotLine_draws_witness:
  "PlotLine demo_plot [zero64, f64_of_int 3] [f64_of_int 5] ''gru'' = Ret () \<and>
   PlotLine demo_plot [zero64] [] ''gru'' = Err (External ''plotter: no data points'')"
proof -
  have lib: "copies_points demo_plot" by (simp add: copies_points_def demo_plot_def)
  show ?thesis
    using PlotLine_draws [OF lib, of "[zero64, f64_of_int 3]" "[f64_of_int 5]" "''gru''"] PlotLine_draws [OF lib, of "[zero64]" "[]"]
    by (simp add: demo_plot_def points_def)
qed

end
