(* ===== verification/Startup.thy ===== *)
theory Startup
  imports GoStrings
begin

text \<open>
  main.go and api/v1/groupversion_info.go: the command line of the operator and its way to a running
  manager. The package \<open>flag\<close> is the standard library's; the manager, its configuration and the
  schemes are controller-runtime's and a record of functions. Flags that imported packages define
  (controller-runtime defines one) are the argument \<open>imported\<close>.
\<close>

section \<open>Package flag\<close>

record flag =
  is_bool :: bool
  accepts :: "string \<Rightarrow> bool"

type_synonym flags = "string \<Rightarrow> flag option"
type_synonym setting = "string \<times> string"

text \<open>\<open>strconv.ParseBool\<close>.\<close>

definition ParseBool :: "string \<Rightarrow> bool option" where
  "ParseBool s =
     (if s \<in> {''1'', ''t'', ''T'', ''true'', ''TRUE'', ''True''} then Some True
      else if s \<in> {''0'', ''f'', ''F'', ''false'', ''FALSE'', ''False''} then Some False
      else None)"

lemma ParseBool_true [simp]: "ParseBool ''true'' = Some True"
  by (simp add: ParseBool_def)

definition text_flag :: flag where
  "text_flag = \<lparr>is_bool = False, accepts = (\<lambda>_. True)\<rparr>"

definition bool_flag :: flag where
  "bool_flag = \<lparr>is_bool = True, accepts = (\<lambda>s. \<not> Option.is_none (ParseBool s))\<rparr>"

text \<open>How a parse ends: with the arguments that are no flags, with \<open>ErrHelp\<close>, or with another error.\<close>

datatype parse_end = Parsed "string list" | HelpAsked | BadFlags

text \<open>The name before the first \<open>=\<close>, and the value after it.\<close>

fun cut_value :: "string \<Rightarrow> string \<times> string option" where
  "cut_value [] = ([], None)"
| "cut_value (c # cs) =
     (if c = CHR ''='' then ([], Some cs)
      else (let (name, v) = cut_value cs in (c # name, v)))"

definition is_operand :: "string \<Rightarrow> bool" where
  "is_operand s \<longleftrightarrow> length s < 2 \<or> hd s \<noteq> CHR ''-''"

definition strip_minus :: "string \<Rightarrow> string" where
  "strip_minus s = (if s ! 1 = CHR ''-'' then drop 2 s else drop 1 s)"

definition and_set :: "setting \<Rightarrow> setting list \<times> parse_end \<Rightarrow> setting list \<times> parse_end" where
  "and_set s r = (s # fst r, snd r)"

text \<open>\<open>FlagSet.Parse\<close>: what it sets, in order, and how it ends.\<close>

fun parse_flags :: "flags \<Rightarrow> string list \<Rightarrow> setting list \<times> parse_end" where
  "parse_flags F [] = ([], Parsed [])"
| "parse_flags F (s # args) =
     (if is_operand s then ([], Parsed (s # args))
      else if s = ''--'' then ([], Parsed args)
      else if strip_minus s = [] \<or> hd (strip_minus s) \<in> {CHR ''-'', CHR ''=''} then ([], BadFlags)
      else
        (let (name, v) = cut_value (strip_minus s)
         in case F name of
              None \<Rightarrow> ([], if name \<in> {''help'', ''h''} then HelpAsked else BadFlags)
            | Some f \<Rightarrow>
                if is_bool f then
                  (let x = (case v of None \<Rightarrow> ''true'' | Some x \<Rightarrow> x)
                   in if accepts f x then and_set (name, x) (parse_flags F args) else ([], BadFlags))
                else
                  (case v of
                     Some x \<Rightarrow> if accepts f x then and_set (name, x) (parse_flags F args) else ([], BadFlags)
                   | None \<Rightarrow>
                       (case args of
                          [] \<Rightarrow> ([], BadFlags)
                        | x # rest \<Rightarrow>
                            if accepts f x then and_set (name, x) (parse_flags F rest) else ([], BadFlags)))))"

section \<open>The flags of the operator\<close>

record Config =
  metricsAddr :: string
  probeAddr :: string
  enableLeaderElection :: bool

definition default_config :: Config where
  "default_config = \<lparr>metricsAddr = '':8080'', probeAddr = '':8081'', enableLeaderElection = False\<rparr>"

definition own_flags :: flags where
  "own_flags =
     [''metrics-bind-address'' \<mapsto> text_flag, ''health-probe-bind-address'' \<mapsto> text_flag, ''leader-elect'' \<mapsto> bool_flag]"

definition own_names :: "string list" where
  "own_names = [''metrics-bind-address'', ''health-probe-bind-address'', ''leader-elect'']"

definition set_flag :: "setting \<Rightarrow> Config \<Rightarrow> Config" where
  "set_flag = (\<lambda>(name, x) c.
     if name = ''metrics-bind-address'' then c\<lparr>metricsAddr := x\<rparr>
     else if name = ''health-probe-bind-address'' then c\<lparr>probeAddr := x\<rparr>
     else if name = ''leader-elect'' then c\<lparr>enableLeaderElection := ParseBool x = Some True\<rparr>
     else c)"

section \<open>The manager\<close>

record GroupVersion =
  gv_Group :: string
  gv_Version :: string

definition aom_GroupVersion :: GroupVersion where
  "aom_GroupVersion = \<lparr>gv_Group = ''automation.buaa.io'', gv_Version = ''v1''\<rparr>"

text \<open>What \<open>SchemeBuilder.Register\<close> collects.\<close>

definition registered_types :: "string list" where
  "registered_types = [''AOM'', ''AOMList'']"

record 's Options =
  opt_Scheme :: 's
  MetricsBindAddress :: string
  Port :: int
  HealthProbeBindAddress :: string
  LeaderElection :: bool
  LeaderElectionID :: string

record ('c, 's) AOMReconciler =
  rec_Client :: 'c
  rec_Scheme :: 's

text \<open>
  The functions of apimachinery and controller-runtime. \<open>GetConfig\<close> is \<open>None\<close> when
  \<open>GetConfigOrDie\<close> finds no configuration, which may depend on the imported flags;
  \<open>Start\<close> is \<open>None\<close> when the manager runs without end.
\<close>

record ('cfg, 's, 'c, 'm) manager_libs =
  NewScheme :: 's
  AddClientTypes :: "'s \<Rightarrow> gerr + 's"
  AddKnownTypes :: "GroupVersion \<Rightarrow> string list \<Rightarrow> 's \<Rightarrow> gerr + 's"
  GetConfig :: "setting list \<Rightarrow> 'cfg option"
  NewManager :: "'cfg \<Rightarrow> 's Options \<Rightarrow> gerr + 'm"
  GetClient :: "'m \<Rightarrow> 'c"
  GetScheme :: "'m \<Rightarrow> 's"
  Complete :: "string \<Rightarrow> ('c, 's) AOMReconciler \<Rightarrow> 'm \<Rightarrow> gerr + 'm"
  AddHealthzCheck :: "string \<Rightarrow> 'm \<Rightarrow> gerr + 'm"
  AddReadyzCheck :: "string \<Rightarrow> 'm \<Rightarrow> gerr + 'm"
  Start :: "'m \<Rightarrow> gerr option option"

text \<open>How the process ends: with an exit status, by a panic, or not.\<close>

datatype ending = Exit int | Crashed | Serving

text \<open>A call followed by \<open>if err != nil { os.Exit(1) }\<close>.\<close>

definition or_exit :: "gerr + 'a \<Rightarrow> ('a \<Rightarrow> ending) \<Rightarrow> ending" where
  "or_exit r f = (case r of Inl _ \<Rightarrow> Exit 1 | Inr x \<Rightarrow> f x)"

definition startup_init :: "('cfg, 's, 'c, 'm) manager_libs \<Rightarrow> gerr + 's" where
  "startup_init lib =
     (case AddClientTypes lib (NewScheme lib) of
        Inl e \<Rightarrow> Inl e
      | Inr s \<Rightarrow> AddKnownTypes lib aom_GroupVersion registered_types s)"

definition SetupWithManager ::
  "('cfg, 's, 'c, 'm) manager_libs \<Rightarrow> ('c, 's) AOMReconciler \<Rightarrow> 'm \<Rightarrow> gerr + 'm" where
  "SetupWithManager lib r mgr = Complete lib ''AOM'' r mgr"

definition manager_options :: "'s \<Rightarrow> Config \<Rightarrow> 's Options" where
  "manager_options scheme c =
     \<lparr>opt_Scheme = scheme, MetricsBindAddress = metricsAddr c, Port = 9443,
      HealthProbeBindAddress = probeAddr c, LeaderElection = enableLeaderElection c,
      LeaderElectionID = ''e4937f65.buaa.io''\<rparr>"

definition run_manager ::
  "('cfg, 's, 'c, 'm) manager_libs \<Rightarrow> 's \<Rightarrow> setting list \<Rightarrow> ending" where
  "run_manager lib scheme ss =
     (case GetConfig lib ss of
        None \<Rightarrow> Exit 1
      | Some cfg \<Rightarrow>
          or_exit (NewManager lib cfg (manager_options scheme (fold set_flag ss default_config))) (\<lambda>mgr.
          or_exit (SetupWithManager lib \<lparr>rec_Client = GetClient lib mgr, rec_Scheme = GetScheme lib mgr\<rparr> mgr) (\<lambda>mgr.
          or_exit (AddHealthzCheck lib ''healthz'' mgr) (\<lambda>mgr.
          or_exit (AddReadyzCheck lib ''readyz'' mgr) (\<lambda>mgr.
          case Start lib mgr of None \<Rightarrow> Serving | Some (Some e) \<Rightarrow> Exit 1 | Some None \<Rightarrow> Exit 0)))))"

text \<open>Defining a flag twice panics; a bad command line ends the process with status 2, a call for help with 0.\<close>

definition main :: "('cfg, 's, 'c, 'm) manager_libs \<Rightarrow> flags \<Rightarrow> string list \<Rightarrow> ending" where
  "main lib imported args =
     (case startup_init lib of
        Inl _ \<Rightarrow> Crashed
      | Inr scheme \<Rightarrow>
          if \<exists>name \<in> set own_names. imported name \<noteq> None then Crashed
          else (case parse_flags (imported ++ own_flags) args of
                  (_, HelpAsked) \<Rightarrow> Exit 0
                | (_, BadFlags) \<Rightarrow> Exit 2
                | (ss, Parsed _) \<Rightarrow> run_manager lib scheme ss))"

section \<open>Command lines as they are written\<close>

text \<open>
  The ways to write a setting: \<open>-name=value\<close>, \<open>-name value\<close> and, for a flag without a value, \<open>-name\<close>;
  each with one or two dashes.
\<close>

datatype writing = Joined bool string string | Apart bool string string | Bare bool string

definition dashes :: "bool \<Rightarrow> string" where
  "dashes two = (if two then ''--'' else ''-'')"

fun written :: "writing \<Rightarrow> string list" where
  "written (Joined two name x) = [dashes two @ name @ CHR ''='' # x]"
| "written (Apart two name x) = [dashes two @ name, x]"
| "written (Bare two name) = [dashes two @ name]"

fun meant :: "writing \<Rightarrow> setting" where
  "meant (Joined two name x) = (name, x)"
| "meant (Apart two name x) = (name, x)"
| "meant (Bare two name) = (name, ''true'')"

definition plain_name :: "string \<Rightarrow> bool" where
  "plain_name name \<longleftrightarrow> name \<noteq> [] \<and> hd name \<noteq> CHR ''-'' \<and> CHR ''='' \<notin> set name"

fun well_written :: "flags \<Rightarrow> writing \<Rightarrow> bool" where
  "well_written F (Joined two name x) =
     (plain_name name \<and> (case F name of None \<Rightarrow> False | Some f \<Rightarrow> accepts f x))"
| "well_written F (Apart two name x) =
     (plain_name name \<and> (case F name of None \<Rightarrow> False | Some f \<Rightarrow> \<not> is_bool f \<and> accepts f x))"
| "well_written F (Bare two name) =
     (plain_name name \<and> (case F name of None \<Rightarrow> False | Some f \<Rightarrow> is_bool f \<and> accepts f ''true''))"

text \<open>The first argument that is no flag ends the parsing, and so does \<open>--\<close>, which is dropped.\<close>

fun operands :: "string list \<Rightarrow> string list option" where
  "operands [] = Some []"
| "operands (s # args) = (if is_operand s then Some (s # args) else if s = ''--'' then Some args else None)"

lemma cut_value_plain:
  "CHR ''='' \<notin> set name \<Longrightarrow> cut_value name = (name, None)"
  "CHR ''='' \<notin> set name \<Longrightarrow> cut_value (name @ CHR ''='' # x) = (name, Some x)"
  by (induction name) auto

lemma dashed:
  assumes "plain_name name"
  shows "\<not> is_operand (dashes two @ name @ x)" and "dashes two @ name @ x \<noteq> ''--''"
    and "strip_minus (dashes two @ name @ x) = name @ x"
  using assms by (cases name; auto simp: plain_name_def dashes_def is_operand_def strip_minus_def)+

lemma plain_start: "plain_name name \<Longrightarrow> name \<noteq> [] \<and> hd (name @ x) \<noteq> CHR ''-'' \<and> hd (name @ x) \<noteq> CHR ''=''"
  by (cases name) (auto simp: plain_name_def)

lemma parse_operands: "operands args = Some rest \<Longrightarrow> parse_flags F args = ([], Parsed rest)"
  by (cases args) (auto split: if_splits)

lemma parse_writing:
  assumes "well_written F w"
  shows "parse_flags F (written w @ args) = and_set (meant w) (parse_flags F args)"
proof (cases w)
  case (Joined two name x)
  with assms dashed [of name two "CHR ''='' # x"] plain_start [of name "CHR ''='' # x"] show ?thesis
    by (auto simp: cut_value_plain plain_name_def split: option.splits)
next
  case (Apart two name x)
  with assms dashed [of name two "[]"] plain_start [of name "[]"] show ?thesis
    by (auto simp: cut_value_plain plain_name_def split: option.splits)
next
  case (Bare two name)
  with assms dashed [of name two "[]"] plain_start [of name "[]"] show ?thesis
    by (auto simp: cut_value_plain plain_name_def split: option.splits)
qed

lemma parse_writings:
  assumes "\<forall>w \<in> set ws. well_written F w"
  shows "parse_flags F (concat (List.map written ws) @ args) =
    (List.map meant ws @ fst (parse_flags F args), snd (parse_flags F args))"
  using assms
proof (induction ws)
  case (Cons w ws)
  then show ?case using parse_writing [of F w "concat (List.map written ws) @ args"]
    by (simp add: and_set_def)
qed simp

section \<open>The settings that count\<close>

text \<open>The value a flag ends up with: the last one given, or the default.\<close>

definition given :: "string \<Rightarrow> string \<Rightarrow> setting list \<Rightarrow> string" where
  "given name d ss = fold (\<lambda>(n, x) v. if n = name then x else v) ss d"

definition given_config :: "setting list \<Rightarrow> Config \<Rightarrow> Config" where
  "given_config ss c =
     \<lparr>metricsAddr = given ''metrics-bind-address'' (metricsAddr c) ss,
      probeAddr = given ''health-probe-bind-address'' (probeAddr c) ss,
      enableLeaderElection =
        (ParseBool (given ''leader-elect'' (if enableLeaderElection c then ''true'' else ''false'') ss) = Some True)\<rparr>"

lemma given_simps:
  "given name d [] = d" "given name d ((n, x) # ss) = given name (if n = name then x else d) ss"
  by (simp_all add: given_def)

lemma ParseBool_false [simp]: "ParseBool ''false'' = Some False"
  by (simp add: ParseBool_def)

lemma given_election:
  "(ParseBool d = Some True) = (ParseBool d' = Some True) \<Longrightarrow>
    (ParseBool (given name d ss) = Some True) = (ParseBool (given name d' ss) = Some True)"
proof (induction ss arbitrary: d d')
  case Nil
  then show ?case by (simp add: given_simps)
next
  case (Cons s ss)
  obtain n x where s: "s = (n, x)" by force
  show ?case unfolding s given_simps by (rule Cons.IH) (simp add: Cons.prems)
qed

lemma given_config_set: "given_config ss (set_flag (n, x) c) = given_config ((n, x) # ss) c"
proof (cases "n = ''leader-elect''")
  case True
  have "(ParseBool (given n (if ParseBool x = Some True then ''true'' else ''false'') ss) = Some True) =
      (ParseBool (given n x ss) = Some True)"
    by (rule given_election) simp
  with True show ?thesis by (simp add: given_config_def given_simps set_flag_def)
qed (simp add: given_config_def given_simps set_flag_def)

lemma fold_set_flag: "fold set_flag ss c = given_config ss c"
proof (induction ss arbitrary: c)
  case Nil
  then show ?case by (simp add: given_config_def given_simps)
next
  case (Cons s ss)
  obtain n x where "s = (n, x)" by force
  then show ?case by (simp only: fold_simps Cons.IH given_config_set)
qed

section \<open>Properties\<close>

lemma main_parsed:
  assumes "startup_init lib = Inr scheme" and "\<forall>name \<in> set own_names. imported name = None"
    and "parse_flags (imported ++ own_flags) args = (ss, Parsed rest)"
  shows "main lib imported args = run_manager lib scheme ss"
  using assms by (auto simp: main_def)

lemma main_written:
  assumes "startup_init lib = Inr scheme" and "\<forall>name \<in> set own_names. imported name = None"
    and "\<forall>w \<in> set ws. well_written (imported ++ own_flags) w" and "operands args = Some rest"
  shows "main lib imported (concat (List.map written ws) @ args) = run_manager lib scheme (List.map meant ws)"
  by (rule main_parsed [OF assms(1,2)])
    (simp add: parse_writings [OF assms(3)] parse_operands [OF assms(4)])

lemma default_options:
  "manager_options scheme (given_config ss default_config) =
    \<lparr>opt_Scheme = scheme, MetricsBindAddress = given ''metrics-bind-address'' '':8080'' ss, Port = 9443,
     HealthProbeBindAddress = given ''health-probe-bind-address'' '':8081'' ss,
     LeaderElection = (ParseBool (given ''leader-elect'' ''false'' ss) = Some True), LeaderElectionID = ''e4937f65.buaa.io''\<rparr>"
  by (simp add: manager_options_def given_config_def default_config_def)

text \<open>C39: the operator runs with the settings of its command line: whatever settings it holds, of its own flags and
  of the imported ones, in any order and in any of the ways to write them, with the operands ignored.
  The manager is made with the last address given for the metrics and for the probes (\<open>:8080\<close> and \<open>:8081\<close> when
  none is), with leader election exactly if the last value given for it is true, on the scheme of the
  operator's types; the reconciler gets that manager's own client and scheme; and when the checks are
  in place the process serves until the manager stops, with status 0 or, on an error, 1. It ends with status 1
  when any of these steps fails.\<close>

theorem main_runs_with_its_settings:
  assumes "startup_init lib = Inr scheme" and "\<forall>name \<in> set own_names. imported name = None"
    and "\<forall>w \<in> set ws. well_written (imported ++ own_flags) w" and "operands args = Some rest"
    and "ss = List.map meant ws"
  shows "main lib imported (concat (List.map written ws) @ args) =
    (case GetConfig lib ss of
       None \<Rightarrow> Exit 1
     | Some cfg \<Rightarrow>
         (case NewManager lib cfg
             \<lparr>opt_Scheme = scheme, MetricsBindAddress = given ''metrics-bind-address'' '':8080'' ss, Port = 9443,
              HealthProbeBindAddress = given ''health-probe-bind-address'' '':8081'' ss,
              LeaderElection = (ParseBool (given ''leader-elect'' ''false'' ss) = Some True),
              LeaderElectionID = ''e4937f65.buaa.io''\<rparr> of
            Inl e \<Rightarrow> Exit 1
          | Inr mgr \<Rightarrow>
              (case Complete lib ''AOM'' \<lparr>rec_Client = GetClient lib mgr, rec_Scheme = GetScheme lib mgr\<rparr> mgr of
                 Inl e \<Rightarrow> Exit 1
               | Inr m1 \<Rightarrow>
                   (case AddHealthzCheck lib ''healthz'' m1 of
                      Inl e \<Rightarrow> Exit 1
                    | Inr m2 \<Rightarrow>
                        (case AddReadyzCheck lib ''readyz'' m2 of
                           Inl e \<Rightarrow> Exit 1
                         | Inr ready \<Rightarrow>
                             (case Start lib ready of None \<Rightarrow> Serving | Some None \<Rightarrow> Exit 0 | Some (Some e) \<Rightarrow> Exit 1))))))"
  unfolding main_written [OF assms(1-4)] assms(5) [symmetric] run_manager_def fold_set_flag default_options or_exit_def
    SetupWithManager_def
  by (simp split: option.splits sum.splits)

definition demo_imported :: flags where
  "demo_imported = [''kubeconfig'' \<mapsto> text_flag]"

definition demo_manager_libs :: "(unit, nat, unit, string \<times> string \<times> bool) manager_libs" where
  "demo_manager_libs =
     \<lparr>NewScheme = 0, AddClientTypes = (\<lambda>s. Inr (s + 1)), AddKnownTypes = (\<lambda>_ ts s. Inr (s + length ts)),
      GetConfig = (\<lambda>_. Some ()), NewManager = (\<lambda>_ opts. Inr (MetricsBindAddress opts, HealthProbeBindAddress opts, LeaderElection opts)),
      GetClient = (\<lambda>_. ()), GetScheme = (\<lambda>_. 0), Complete = (\<lambda>_ _ m. Inr m), AddHealthzCheck = (\<lambda>_ m. Inr m),
      AddReadyzCheck = (\<lambda>_ m. Inr m),
      Start = (\<lambda>m. if m = (''127.0.0.1:8080'', '':8081'', True) then None else Some (Some (NewError ''unexpected'')))\<rparr>"

lemmas startup_eval = startup_init_def demo_manager_libs_def demo_imported_def own_names_def own_flags_def text_flag_def bool_flag_def
  plain_name_def is_operand_def registered_types_def

text \<open>The command line of the deployment, config/default/manager_auth_proxy_patch.yaml.\<close>

theorem main_runs_with_its_settings_witness:
  "main demo_manager_libs demo_imported
     [''--health-probe-bind-address=:8081'', ''--metrics-bind-address=127.0.0.1:8080'', ''--leader-elect''] = Serving"
proof -
  let ?ws = "[Joined True ''health-probe-bind-address'' '':8081'', Joined True ''metrics-bind-address'' ''127.0.0.1:8080'',
    Bare True ''leader-elect'']"
  have init: "startup_init demo_manager_libs = Inr 3" by (simp add: startup_eval)
  have own: "\<forall>name \<in> set own_names. demo_imported name = None" by (simp add: startup_eval)
  have ws: "\<forall>w \<in> set ?ws. well_written (demo_imported ++ own_flags) w" by (simp add: startup_eval)
  have "operands [] = Some []" by simp
  from main_runs_with_its_settings [OF init own ws this refl] show ?thesis
    by (simp add: dashes_def given_simps demo_manager_libs_def)
qed

text \<open>\<open>--leader-elect\<close> takes no value from the next argument: \<open>--leader-elect false\<close> turns the election on, and
  everything after it on the command line is ignored.\<close>

lemma leader_elect_takes_no_value:
  assumes "startup_init lib = Inr scheme" and "\<forall>name \<in> set own_names. imported name = None"
    and "\<forall>w \<in> set ws. well_written (imported ++ own_flags) w" and "is_operand v"
  shows "main lib imported (concat (List.map written ws) @ ''--leader-elect'' # v # args) =
      run_manager lib scheme (List.map meant ws @ [(''leader-elect'', ''true'')]) \<and>
    LeaderElection (manager_options scheme (fold set_flag (List.map meant ws @ [(''leader-elect'', ''true'')]) default_config))"
proof
  let ?ws = "ws @ [Bare True ''leader-elect'']"
  have "well_written (imported ++ own_flags) (Bare True ''leader-elect'')"
    by (simp add: plain_name_def own_flags_def bool_flag_def)
  then have "\<forall>w \<in> set ?ws. well_written (imported ++ own_flags) w" using assms(3) by simp
  moreover have "operands (v # args) = Some (v # args)" using assms(4) by simp
  ultimately have "parse_flags (imported ++ own_flags) (concat (List.map written ?ws) @ v # args) = (List.map meant ?ws, Parsed (v # args))"
    by (simp only: parse_writings parse_operands fst_conv snd_conv append_Nil2)
  then show "main lib imported (concat (List.map written ws) @ ''--leader-elect'' # v # args) =
      run_manager lib scheme (List.map meant ws @ [(''leader-elect'', ''true'')])"
    by (intro main_parsed [OF assms(1,2)]) (simp add: dashes_def)
qed (simp add: manager_options_def set_flag_def)

lemma leader_elect_takes_no_value_witness:
  "main demo_manager_libs demo_imported
     [''-metrics-bind-address'', ''127.0.0.1:8080'', ''--leader-elect'', ''false'', ''--health-probe-bind-address='', ''junk''] = Serving"
proof -
  let ?ws = "[Apart False ''metrics-bind-address'' ''127.0.0.1:8080'']"
  have "startup_init demo_manager_libs = Inr 3" by (simp add: startup_eval)
  moreover have "\<forall>name \<in> set own_names. demo_imported name = None" by (simp add: startup_eval)
  moreover have "\<forall>w \<in> set ?ws. well_written (demo_imported ++ own_flags) w" by (simp add: startup_eval)
  moreover have "is_operand ''false''" by (simp add: is_operand_def)
  ultimately have "main demo_manager_libs demo_imported (concat (List.map written ?ws) @ ''--leader-elect'' # ''false'' #
       [''--health-probe-bind-address='', ''junk'']) = run_manager demo_manager_libs 3 (List.map meant ?ws @ [(''leader-elect'', ''true'')])"
    by (rule leader_elect_takes_no_value [THEN conjunct1])
  then show ?thesis
    by (simp add: dashes_def run_manager_def or_exit_def manager_options_def SetupWithManager_def set_flag_def
        default_config_def demo_manager_libs_def)
qed

end
