(* ===== verification/TickSteps.thy ===== *)
theory TickSteps
  imports NilSafety
begin

text \<open>
  The loop \<open>Run\<close> of scheduler/scheduler.go in small steps, between which the other goroutines run: the
  start of a tick, the turns of its loop over the predictors, each prediction and each training, the
  aggregation, each weighting with its own look at the map of the metrics, and the write. A tick that
  nobody interrupts is the \<open>tick\<close> of theory Scheduler.
\<close>

section \<open>Where a tick stands\<close>

text \<open>
  \<open>Starting\<close> is the loop over the predictors, which holds the lock of \<open>PredictorMap\<close>: the scaler, the
  predictors it has not visited, the one it is training, the goroutines it has started and the
  results they have sent. \<open>Waiting\<close> is \<open>waitGroup.Wait\<close>, \<open>Weighing\<close> the loop over the counts of the metrics.
\<close>

datatype run_pc =
    AtTicker
  | Starting "Scaler option" "(string \<times> addr) list" "addr option" "task list" "ResPair list"
  | Waiting "Scaler option" "task list" "ResPair list"
  | Weighing "Scaler option" "(string \<times> int32 list) list" "int32 list list"

fun holds_lock :: "run_pc \<Rightarrow> bool" where
  "holds_lock (Starting scr todo tr live results) = True"
| "holds_lock _ = False"

fun started :: "task list \<Rightarrow> task list" where
  "started [] = []"
| "started (PredictTask k a m # ts) = PredictTask k a m # started ts"
| "started (TrainTask a # ts) = started ts"

fun training :: "task list \<Rightarrow> addr option" where
  "training [] = None"
| "training (PredictTask k a m # ts) = training ts"
| "training (TrainTask a # ts) = Some a"

section \<open>The steps\<close>

definition begin_tick :: "'c tick_env \<Rightarrow> NamespacedName \<Rightarrow> 'c state \<Rightarrow> run_pc go \<times> 'c state" where
  "begin_tick env name st =
     (let (w, cl) = st; w = snd (GetHide name w); h = the_hide name w
      in (Ret (Starting (hide_Scaler h) (entries (tick_iter env) 20 (cm_data (PredictorMap h))) None [] []), (w, cl)))"

definition visit ::
  "'c tick_env \<Rightarrow> NamespacedName \<Rightarrow> Scaler option \<Rightarrow> string \<times> addr \<Rightarrow> (string \<times> addr) list \<Rightarrow> task list \<Rightarrow> ResPair list \<Rightarrow>
    'c world \<Rightarrow> run_pc go" where
  "visit env name scr entry todo live results w =
     map_go (\<lambda>ts. Starting scr todo (training ts) (live @ started ts) results)
       (tasks_for (tick_now env) w (the_hide name w) entry)"

definition aggregate :: "iter \<Rightarrow> Scaler option \<Rightarrow> ResPair list \<Rightarrow> run_pc go" where
  "aggregate it scr results =
     (if results = [] then Ret AtTicker
      else map_go (\<lambda>metricReplicas. Weighing scr (entries it 22 metricReplicas) [])
             (metric_replicas it (model_replicas results)))"

definition weigh :: "NamespacedName \<Rightarrow> string \<times> int32 list \<Rightarrow> 'c world \<Rightarrow> int32 list list \<Rightarrow> int32 list list go" where
  "weigh name entry w mReplicas =
     (let (noModelKey, metricReplica) = entry
      in case cm_Load (MetricMap (the_hide name w)) noModelKey of
           Ret a \<Rightarrow>
             (case deref (metric_vars w) a of
                None \<Rightarrow> Panic NilDereference
              | Some metric \<Rightarrow> Ret (mReplicas @ [MulSlice (Weight metric) metricReplica]))
         | _ \<Rightarrow> Ret mReplicas)"

definition select :: "int32 list list \<Rightarrow> int32 go" where
  "select mReplicas =
     and_then (AddSlice mReplicas) (\<lambda>objSet.
     and_then (GetScaleReplica objSet SelectMax) (\<lambda>targetReplica. quot32 targetReplica 100))"

definition write_count :: "'c tick_env \<Rightarrow> Scaler option \<Rightarrow> int32 list list \<Rightarrow> 'c state \<Rightarrow> run_pc go \<times> 'c state" where
  "write_count env scr mReplicas st =
     (let (w, cl) = st
      in case select mReplicas of
           Err e \<Rightarrow> (Err e, (w, cl))
         | Panic x \<Rightarrow> (Panic x, (w, cl))
         | Ret replica \<Rightarrow>
             (case UpTo (tick_k8s env) (k8s_client w) scr replica cl of
                (Panic x, cl') \<Rightarrow> (Panic x, (w, cl'))
              | (_, cl') \<Rightarrow> (Ret AtTicker, (w, cl'))))"

text \<open>One step of the loop itself; \<open>None\<close> when it waits for its goroutines.\<close>

fun loop_move :: "'c tick_env \<Rightarrow> NamespacedName \<Rightarrow> run_pc \<Rightarrow> 'c state \<Rightarrow> (run_pc go \<times> 'c state) option" where
  "loop_move env name AtTicker st = Some (begin_tick env name st)"
| "loop_move env name (Starting scr todo (Some a) live results) st =
     (let (r, st') = train_task env a st
      in Some (map_go (\<lambda>rs. Starting scr todo None live (results @ rs)) r, st'))"
| "loop_move env name (Starting scr (entry # todo) None live results) st =
     Some (visit env name scr entry todo live results (fst st), st)"
| "loop_move env name (Starting scr [] None live results) st = Some (Ret (Waiting scr live results), st)"
| "loop_move env name (Waiting scr (t # live) results) st = None"
| "loop_move env name (Waiting scr [] results) st = Some (aggregate (tick_iter env) scr results, st)"
| "loop_move env name (Weighing scr (entry # todo) mReplicas) st =
     Some (map_go (Weighing scr todo) (weigh name entry (fst st) mReplicas), st)"
| "loop_move env name (Weighing scr [] mReplicas) st = Some (write_count env scr mReplicas st)"

text \<open>The goroutine at position \<open>i\<close> of those that have been started runs to its end. \<open>None\<close> when there is no such
  goroutine, or when it does not return.\<close>

definition delete_at :: "nat \<Rightarrow> 'a list \<Rightarrow> 'a list" where
  "delete_at i xs = take i xs @ drop (Suc i) xs"

fun live_of :: "run_pc \<Rightarrow> (Scaler option \<times> task list) option" where
  "live_of (Starting scr todo tr live results) = Some (scr, live)"
| "live_of (Waiting scr live results) = Some (scr, live)"
| "live_of _ = None"

fun sent :: "nat \<Rightarrow> ResPair list \<Rightarrow> run_pc \<Rightarrow> run_pc" where
  "sent i rs (Starting scr todo tr live results) = Starting scr todo tr (delete_at i live) (results @ rs)"
| "sent i rs (Waiting scr live results) = Waiting scr (delete_at i live) (results @ rs)"
| "sent i rs pc = pc"

definition task_move :: "'c tick_env \<Rightarrow> nat \<Rightarrow> run_pc \<Rightarrow> 'c state \<Rightarrow> (run_pc go \<times> 'c state) option" where
  "task_move env i pc st =
     (case live_of pc of
        None \<Rightarrow> None
      | Some (scr, live) \<Rightarrow>
          if i < length live then
            (case run_task env scr (live ! i) st of
               None \<Rightarrow> None
             | Some (r, st') \<Rightarrow> Some (map_go (\<lambda>rs. sent i rs pc) r, st'))
          else None)"

datatype move = LoopMove | TaskMove nat

fun run_move :: "'c tick_env \<Rightarrow> NamespacedName \<Rightarrow> move \<Rightarrow> run_pc \<Rightarrow> 'c state \<Rightarrow> (run_pc go \<times> 'c state) option" where
  "run_move env name LoopMove pc st = loop_move env name pc st"
| "run_move env name (TaskMove i) pc st = task_move env i pc st"

section \<open>A tick that nobody interrupts\<close>

text \<open>The moves of one tick, from the ticker back to it; \<open>None\<close> when they are not exactly that.\<close>

fun one_round :: "'c tick_env \<Rightarrow> NamespacedName \<Rightarrow> move list \<Rightarrow> run_pc \<Rightarrow> 'c state \<Rightarrow> (unit go \<times> 'c state) option" where
  "one_round env name [] pc st = None"
| "one_round env name (mv # mvs) pc st =
     (case run_move env name mv pc st of
        None \<Rightarrow> None
      | Some (Err e, st') \<Rightarrow> Some (Err e, st')
      | Some (Panic x, st') \<Rightarrow> Some (Panic x, st')
      | Some (Ret pc', st') \<Rightarrow>
          if pc' = AtTicker then (if mvs = [] then Some (Ret (), st') else None) else one_round env name mvs pc' st')"

definition schedule :: "'c tick_env \<Rightarrow> 'c world \<Rightarrow> Hide \<Rightarrow> (string \<times> addr) list \<Rightarrow> task list go" where
  "schedule env w h es = fold_go (\<lambda>entry ts. map_go (\<lambda>new. ts @ new) (tasks_for (tick_now env) w h entry)) es []"

lemma scheduled_schedule:
  "scheduled env w h = schedule env w h (entries (tick_iter env) 20 (cm_data (PredictorMap h)))"
  by (simp add: scheduled_def schedule_def)

lemma schedule_snoc:
  "schedule env w h es = Ret past \<Longrightarrow> tasks_for (tick_now env) w h e = Ret ts \<Longrightarrow> schedule env w h (es @ [e]) = Ret (past @ ts)"
  by (simp add: schedule_def fold_go_append)

lemma weighted_weigh:
  "weighted it w (the_hide name w) mr = fold_go (\<lambda>e ms. weigh name e w ms) (entries it 22 mr) []"
proof -
  have "(\<lambda>(noModelKey, metricReplica) mReplicas. weigh name (noModelKey, metricReplica) w mReplicas) = (\<lambda>e ms. weigh name e w ms)"
    by (auto simp: fun_eq_iff)
  then show ?thesis by (simp add: weighted_def weigh_def Let_def)
qed

lemma decide_select:
  "metric_replicas it (model_replicas results) = Ret mr \<Longrightarrow>
    fold_go (\<lambda>e ms. weigh name e w ms) (entries it 22 mr) [] = Ret ms \<Longrightarrow>
    decide it w (the_hide name w) results = select ms"
  by (simp add: decide_def weighted_weigh select_def)

lemma run_tasks_snoc:
  "run_tasks env scr ex acc st = Some (Ret results, st') \<Longrightarrow> run_task env scr t st' = Some (Ret rs, st'') \<Longrightarrow>
    run_tasks env scr (ex @ [t]) acc st = Some (Ret (results @ rs), st'')"
  by (induction ex arbitrary: acc st) (auto split: option.splits prod.splits go.splits)

lemma tasks_split:
  "tasks_for now w h e = Ret ts \<Longrightarrow> mset ts = mset (started ts) + (case training ts of None \<Rightarrow> {#} | Some a \<Rightarrow> {#TrainTask a#})"
  by (auto simp: tasks_for_def Let_def split: prod.splits go.splits option.splits if_splits)

lemma tasks_for_samples: "only_samples w w' \<Longrightarrow> tasks_for now w' h e = tasks_for now w h e"
  unfolding tasks_for_def by (drule only_samplesD(4)) (simp only:)

lemma mset_delete_at: "i < length xs \<Longrightarrow> mset xs = add_mset (xs ! i) (mset (delete_at i xs))"
  by (metis delete_at_def id_take_nth_drop mset.simps(2) mset_append union_mset_add_mset_right)

text \<open>The work done so far, as the tasks \<open>ex\<close> that have been run one after the other from the state the tick started in.\<close>

definition did :: "'c tick_env \<Rightarrow> NamespacedName \<Rightarrow> 'c state \<Rightarrow> task list \<Rightarrow> ResPair list \<Rightarrow> 'c state \<Rightarrow> bool" where
  "did env name st0 ex results st \<longleftrightarrow>
     run_tasks env (hide_Scaler (the_hide name (fst st0))) ex [] st0 = Some (Ret results, st)"

definition in_training :: "addr option \<Rightarrow> task list" where
  "in_training tr = (case tr of None \<Rightarrow> [] | Some a \<Rightarrow> [TrainTask a])"

fun tick_inv :: "'c tick_env \<Rightarrow> NamespacedName \<Rightarrow> 'c state \<Rightarrow> run_pc \<Rightarrow> 'c state \<Rightarrow> bool" where
  "tick_inv env name st0 AtTicker st = False"
| "tick_inv env name st0 (Starting scr todo tr live results) st =
     (let h = the_hide name (fst st0)
      in scr = hide_Scaler h \<and>
         (\<exists>visited past ex. entries (tick_iter env) 20 (cm_data (PredictorMap h)) = visited @ todo \<and>
            schedule env (fst st0) h visited = Ret past \<and> mset past = mset (ex @ live @ in_training tr) \<and>
            did env name st0 ex results st))"
| "tick_inv env name st0 (Waiting scr live results) st =
     (let h = the_hide name (fst st0)
      in scr = hide_Scaler h \<and>
         (\<exists>past ex. scheduled env (fst st0) h = Ret past \<and> mset past = mset (ex @ live) \<and> did env name st0 ex results st))"
| "tick_inv env name st0 (Weighing scr todo mReplicas) st =
     (let h = the_hide name (fst st0)
      in scr = hide_Scaler h \<and>
         (\<exists>past ex results mr weighted. scheduled env (fst st0) h = Ret past \<and> mset past = mset ex \<and> did env name st0 ex results st \<and>
            results \<noteq> [] \<and> metric_replicas (tick_iter env) (model_replicas results) = Ret mr \<and>
            entries (tick_iter env) 22 mr = weighted @ todo \<and>
            fold_go (\<lambda>e ms. weigh name e (fst st) ms) weighted [] = Ret mReplicas))"

lemma StartingI:
  "entries (tick_iter env) 20 (cm_data (PredictorMap (the_hide name (fst st0)))) = visited @ todo \<Longrightarrow>
    schedule env (fst st0) (the_hide name (fst st0)) visited = Ret past \<Longrightarrow> mset past = mset (ex @ live @ in_training tr) \<Longrightarrow>
    scr = hide_Scaler (the_hide name (fst st0)) \<Longrightarrow> did env name st0 ex results st \<Longrightarrow>
    tick_inv env name st0 (Starting scr todo tr live results) st"
  unfolding tick_inv.simps Let_def by blast

lemma WaitingI:
  "scheduled env (fst st0) (the_hide name (fst st0)) = Ret past \<Longrightarrow> mset past = mset (ex @ live) \<Longrightarrow>
    scr = hide_Scaler (the_hide name (fst st0)) \<Longrightarrow> did env name st0 ex results st \<Longrightarrow>
    tick_inv env name st0 (Waiting scr live results) st"
  unfolding tick_inv.simps Let_def by blast

lemma did_samples: "did env name (w0, cl0) ex results (w, cl) \<Longrightarrow> only_samples w0 w"
  unfolding did_def by (rule run_tasks_samples)

lemma did_task:
  "did env name st0 ex results st \<Longrightarrow> run_task env (hide_Scaler (the_hide name (fst st0))) t st = Some (Ret rs, st') \<Longrightarrow>
    did env name st0 (ex @ [t]) (results @ rs) st'"
  unfolding did_def by (rule run_tasks_snoc)

lemma begin_inv:
  "begin_tick env name (w, cl) = (Ret pc, st) \<Longrightarrow> tick_inv env name (snd (GetHide name w), cl) pc st"
  by (auto simp: begin_tick_def schedule_def in_training_def did_def Let_def)

lemma inv_task_move:
  assumes "tick_inv env name st0 pc st" and "task_move env i pc st = Some (Ret pc', st')"
  shows "tick_inv env name st0 pc' st'"
proof -
  obtain scr live rs where live: "live_of pc = Some (scr, live)" "i < length live" "pc' = sent i rs pc"
    and run: "run_task env scr (live ! i) st = Some (Ret rs, st')"
    using assms(2) by (auto simp: task_move_def go_simps split: option.splits if_splits prod.splits)
  note add = mset_delete_at [OF live(2)]
  show ?thesis
  proof (cases pc)
    case (Starting scr' todo tr live' results)
    with assms(1) live obtain visited past ex where
      v: "entries (tick_iter env) 20 (cm_data (PredictorMap (the_hide name (fst st0)))) = visited @ todo"
      "schedule env (fst st0) (the_hide name (fst st0)) visited = Ret past" "mset past = mset (ex @ live @ in_training tr)"
      "scr = hide_Scaler (the_hide name (fst st0))" and so_far: "did env name st0 ex results st"
      by (auto simp: Let_def)
    have "did env name st0 (ex @ [live ! i]) (results @ rs) st'" using did_task [OF so_far] run v(4) by simp
    from StartingI [OF v(1,2) _ v(4) this, of "delete_at i live" tr] show ?thesis
      using v(3) live Starting add by simp
  next
    case (Waiting scr' live' results)
    with assms(1) live obtain past ex where
      v: "scheduled env (fst st0) (the_hide name (fst st0)) = Ret past" "mset past = mset (ex @ live)"
      "scr = hide_Scaler (the_hide name (fst st0))" and so_far: "did env name st0 ex results st"
      by (auto simp: Let_def)
    have "did env name st0 (ex @ [live ! i]) (results @ rs) st'" using did_task [OF so_far] run v(3) by simp
    from WaitingI [OF v(1) _ v(3) this, of "delete_at i live"] show ?thesis
      using v(2) live Waiting add by simp
  qed (use live in simp_all)
qed

lemma inv_train:
  assumes "tick_inv env name st0 (Starting scr todo (Some a) live results) st" and "train_task env a st = (Ret rs, st')"
  shows "tick_inv env name st0 (Starting scr todo None live (results @ rs)) st'"
proof -
  obtain visited past ex where
    v: "entries (tick_iter env) 20 (cm_data (PredictorMap (the_hide name (fst st0)))) = visited @ todo"
    "schedule env (fst st0) (the_hide name (fst st0)) visited = Ret past" "mset past = mset (ex @ live @ in_training (Some a))"
    "scr = hide_Scaler (the_hide name (fst st0))" and so_far: "did env name st0 ex results st"
    using assms(1) by (auto simp: Let_def)
  have "did env name st0 (ex @ [TrainTask a]) (results @ rs) st'" using did_task [OF so_far, of "TrainTask a"] assms(2) by simp
  from StartingI [OF v(1,2) _ v(4) this, of live None] show ?thesis using v(3) by (simp add: in_training_def)
qed

lemma inv_visit:
  assumes "tick_inv env name (w0, cl0) (Starting scr (e # todo) None live results) (w, cl)"
    and "visit env name scr e todo live results w = Ret pc'"
  shows "tick_inv env name (w0, cl0) pc' (w, cl)"
proof -
  let ?h = "the_hide name w0"
  obtain visited past ex where
    v: "entries (tick_iter env) 20 (cm_data (PredictorMap ?h)) = visited @ e # todo"
    "schedule env w0 ?h visited = Ret past" "mset past = mset (ex @ live)"
    "scr = hide_Scaler ?h" and so_far: "did env name (w0, cl0) ex results (w, cl)"
    using assms(1) by (auto simp: Let_def in_training_def)
  note w = did_samples [OF so_far]
  obtain ts where ts: "tasks_for (tick_now env) w0 ?h e = Ret ts" "pc' = Starting scr todo (training ts) (live @ started ts) results"
    using assms(2) only_samplesD(6) [OF w, of name] tasks_for_samples [OF w] by (auto simp: visit_def go_simps)
  have "schedule env w0 ?h (visited @ [e]) = Ret (past @ ts)" by (rule schedule_snoc [OF v(2) ts(1)])
  moreover have "mset (past @ ts) = mset (ex @ (live @ started ts) @ in_training (training ts))"
    using v(3) tasks_split [OF ts(1)] by (simp add: in_training_def split: option.splits)
  moreover have "entries (tick_iter env) 20 (cm_data (PredictorMap ?h)) = (visited @ [e]) @ todo" using v(1) by simp
  ultimately show ?thesis unfolding ts(2)
    by (intro StartingI [where visited = "visited @ [e]" and past = "past @ ts", OF _ _ _ _ so_far]) (simp_all add: v(4))
qed

lemma inv_aggregate:
  assumes "tick_inv env name st0 (Waiting scr [] results) st" and "aggregate (tick_iter env) scr results = Ret pc'" and "pc' \<noteq> AtTicker"
  shows "tick_inv env name st0 pc' st"
proof -
  obtain mr where "results \<noteq> []" "metric_replicas (tick_iter env) (model_replicas results) = Ret mr"
    "pc' = Weighing scr (entries (tick_iter env) 22 mr) []"
    using assms(2,3) by (auto simp: aggregate_def go_simps split: if_splits)
  with assms(1) show ?thesis by (fastforce simp: Let_def)
qed

lemma inv_weigh:
  assumes "tick_inv env name st0 (Weighing scr (e # todo) ms) st" and "weigh name e (fst st) ms = Ret ms'"
  shows "tick_inv env name st0 (Weighing scr todo ms') st"
proof -
  obtain past ex results mr seen where
    v: "scheduled env (fst st0) (the_hide name (fst st0)) = Ret past" "mset past = mset ex" "did env name st0 ex results st"
      "results \<noteq> []" "metric_replicas (tick_iter env) (model_replicas results) = Ret mr"
      "entries (tick_iter env) 22 mr = seen @ e # todo" "scr = hide_Scaler (the_hide name (fst st0))"
    and ms: "fold_go (\<lambda>e ms. weigh name e (fst st) ms) seen [] = Ret ms"
    using assms(1) by (auto simp: Let_def)
  have "fold_go (\<lambda>e ms. weigh name e (fst st) ms) (seen @ [e]) [] = Ret ms'"
    using ms assms(2) by (simp add: fold_go_append)
  moreover have "entries (tick_iter env) 22 mr = (seen @ [e]) @ todo" using v(6) by simp
  ultimately show ?thesis using v unfolding tick_inv.simps Let_def by blast
qed

text \<open>The last step of a tick that keeps the invariant to its end: the tick's results have been acted on.\<close>

definition finishes :: "'c tick_env \<Rightarrow> NamespacedName \<Rightarrow> 'c state \<Rightarrow> 'c state \<Rightarrow> bool" where
  "finishes env name st0 st' \<longleftrightarrow>
     (let h = the_hide name (fst st0)
      in \<exists>past ex results st. scheduled env (fst st0) h = Ret past \<and> mset past = mset ex \<and> did env name st0 ex results st \<and>
           act_on env name (hide_Scaler h) results st = (Ret (), st'))"

lemma finishesI:
  "scheduled env (fst st0) (the_hide name (fst st0)) = Ret past \<Longrightarrow> mset past = mset ex \<Longrightarrow> did env name st0 ex results st \<Longrightarrow>
    act_on env name (hide_Scaler (the_hide name (fst st0))) results st = (Ret (), st') \<Longrightarrow> finishes env name st0 st'"
  unfolding finishes_def Let_def by blast

lemma inv_write:
  assumes "tick_inv env name st0 (Weighing scr [] ms) st" and "write_count env scr ms st = (Ret pc', st')"
  shows "pc' = AtTicker \<and> finishes env name st0 st'"
proof -
  obtain past ex results mr where
    v: "scheduled env (fst st0) (the_hide name (fst st0)) = Ret past" "mset past = mset ex" "did env name st0 ex results st"
      "results \<noteq> []" "scr = hide_Scaler (the_hide name (fst st0))"
    and mr: "metric_replicas (tick_iter env) (model_replicas results) = Ret mr"
      "fold_go (\<lambda>e ms. weigh name e (fst st) ms) (entries (tick_iter env) 22 mr) [] = Ret ms"
    using assms(1) by (auto simp: Let_def)
  have "decide (tick_iter env) (fst st) (the_hide name (fst st)) results = select ms" by (rule decide_select [OF mr])
  then have "pc' = AtTicker \<and> act_on env name scr results st = (Ret (), st')"
    using assms(2) v(4) by (cases st) (auto simp: act_on_def write_count_def split: go.splits prod.splits)
  then show ?thesis using finishesI [OF v(1-3)] v(5) by simp
qed

lemma inv_done:
  "tick_inv env name st0 (Waiting scr [] results) st \<Longrightarrow> aggregate (tick_iter env) scr results = Ret AtTicker \<Longrightarrow>
    finishes env name st0 st"
  by (auto simp: aggregate_def act_on_def go_simps Let_def split: if_splits intro: finishesI)

lemma inv_starting:
  assumes "tick_inv env name st0 (Starting scr todo tr live results) st"
    and "loop_move env name (Starting scr todo tr live results) st = Some (Ret pc', st')"
  shows "pc' \<noteq> AtTicker \<and> tick_inv env name st0 pc' st'"
proof (cases tr)
  case (Some a)
  with assms(2) obtain rs where
    "train_task env a st = (Ret rs, st')" "pc' = Starting scr todo None live (results @ rs)"
    by (auto simp: go_simps split: prod.splits)
  with inv_train [OF assms(1) [unfolded Some]] show ?thesis by (simp del: tick_inv.simps(2))
next
  case None
  show ?thesis
  proof (cases todo)
    case Nil
    with None assms show ?thesis by (auto simp: Let_def in_training_def scheduled_schedule)
  next
    case (Cons e rest)
    with None assms(2) have v: "visit env name scr e rest live results (fst st) = Ret pc'" "st' = st" by auto
    then have "pc' \<noteq> AtTicker" by (auto simp: visit_def go_simps)
    with v show ?thesis
      using inv_visit [of env name "fst st0" "snd st0" scr e rest live results "fst st" "snd st" pc'] assms(1) None Cons
      by (simp del: tick_inv.simps)
  qed
qed

lemma inv_loop_move:
  assumes "tick_inv env name st0 pc st" and "loop_move env name pc st = Some (Ret pc', st')"
  shows "if pc' = AtTicker then finishes env name st0 st' else tick_inv env name st0 pc' st'"
proof (cases pc)
  case (Starting scr todo tr live results)
  show ?thesis using inv_starting [OF assms [unfolded Starting]] by (simp del: tick_inv.simps)
next
  case (Waiting scr live results)
  then show ?thesis
    using assms inv_aggregate [of env name st0 scr results st pc'] inv_done [of env name st0 scr results st]
    by (cases live) (auto simp del: tick_inv.simps)
next
  case (Weighing scr todo ms)
  show ?thesis
  proof (cases todo)
    case Nil
    with Weighing assms inv_write [of env name st0 scr ms st pc' st'] show ?thesis by (auto simp del: tick_inv.simps)
  next
    case (Cons e rest)
    have "map_go (Weighing scr rest) (weigh name e (fst st) ms) = Ret pc'" and st: "st' = st"
      using assms(2) unfolding Weighing Cons loop_move.simps option.inject prod.inject by blast+
    then obtain ms' where ms': "weigh name e (fst st) ms = Ret ms'" "pc' = Weighing scr rest ms'"
      by (cases "weigh name e (fst st) ms") simp_all
    from inv_weigh [OF assms(1) [unfolded Weighing Cons] ms'(1)] show ?thesis
      unfolding ms'(2) st by (simp del: tick_inv.simps)
  qed
qed (use assms in simp)

lemma inv_run_move:
  assumes "tick_inv env name st0 pc st" and "run_move env name mv pc st = Some (Ret pc', st')"
  shows "if pc' = AtTicker then finishes env name st0 st' else tick_inv env name st0 pc' st'"
proof (cases mv)
  case (TaskMove i)
  then have "tick_inv env name st0 pc' st'" using inv_task_move [OF assms(1)] assms(2) by simp
  then show ?thesis by auto
qed (use inv_loop_move [OF assms(1)] assms(2) in simp)

lemma one_round_finishes:
  "tick_inv env name st0 pc st \<Longrightarrow> one_round env name mvs pc st = Some (Ret (), st') \<Longrightarrow> finishes env name st0 st'"
proof (induction mvs arbitrary: pc st)
  case (Cons mv mvs)
  then obtain pc1 st1 where mv: "run_move env name mv pc st = Some (Ret pc1, st1)"
    by (auto split: option.splits prod.splits go.splits)
  note inv = inv_run_move [OF Cons.prems(1) mv]
  show ?case
  proof (cases "pc1 = AtTicker")
    case True
    then show ?thesis using inv Cons.prems(2) mv by (simp split: if_splits)
  next
    case False
    then show ?thesis using inv Cons.prems(2) mv by (intro Cons.IH [of pc1 st1]) simp_all
  qed
qed simp

lemma run_task_order: "run_task (env\<lparr>tick_order := f\<rparr>) scr t st = run_task env scr t st"
proof (cases env, cases t)
qed (simp_all only: run_task.simps, unfold predict_task_def train_task_def tick_env.select_convs tick_env.update_convs, simp_all)

lemma run_tasks_order: "run_tasks (env\<lparr>tick_order := f\<rparr>) scr ts acc st = run_tasks env scr ts acc st"
proof (induction ts arbitrary: acc st)
  case (Cons t ts)
  show ?case unfolding run_tasks.simps run_task_order Cons.IH by (rule refl)
qed simp

lemma tick_finishes:
  assumes "finishes env (sched_Name s) (snd (GetHide (sched_Name s) w), cl) st'"
  shows "\<exists>f. fair_order (env\<lparr>tick_order := f\<rparr>) \<and> tick (env\<lparr>tick_order := f\<rparr>) s (w, cl) = Some (Ret (), st')"
proof -
  let ?n = "sched_Name s" and ?w0 = "snd (GetHide (sched_Name s) w)"
  obtain past ex results st where v: "scheduled env ?w0 (the_hide ?n w) = Ret past" "mset past = mset ex"
    "run_tasks env (hide_Scaler (the_hide ?n w)) ex [] (?w0, cl) = Some (Ret results, st)"
    "act_on env ?n (hide_Scaler (the_hide ?n w)) results st = (Ret (), st')"
    using assms by (auto simp: finishes_def did_def Let_def)
  define f where "f ts = (if ts = past then ex else ts)" for ts
  let ?env = "env\<lparr>tick_order := f\<rparr>"
  have "fair_order ?env" using v(2) by (simp add: fair_order_def f_def)
  moreover have "tick ?env s (w, cl) = Some (act_on ?env ?n (hide_Scaler (the_hide ?n w)) results st)"
    using v(1,3) by (simp add: tick_halves Let_def scheduled_def run_tasks_order f_def)
  moreover have "act_on ?env ?n scr results st = act_on env ?n scr results st" for scr
    by (cases env, hypsubst) (unfold act_on_def tick_env.select_convs tick_env.update_convs, rule refl)
  ultimately show ?thesis using v(4) by auto
qed

section \<open>What a tick holds between its steps\<close>

fun pc_ok :: "'c world \<Rightarrow> run_pc \<Rightarrow> bool" where
  "pc_ok w AtTicker = True"
| "pc_ok w (Starting scr todo tr live results) =
     (scr \<noteq> None \<and> (\<forall>e \<in> set todo. task_ok w (TrainTask (snd e))) \<and> (\<forall>t \<in> set (live @ in_training tr). task_ok w t))"
| "pc_ok w (Waiting scr live results) = (scr \<noteq> None \<and> (\<forall>t \<in> set live. task_ok w t))"
| "pc_ok w (Weighing scr todo mReplicas) = (scr \<noteq> None)"

lemma pc_ok_mono: "(\<And>t. task_ok w t \<Longrightarrow> task_ok w' t) \<Longrightarrow> pc_ok w pc \<Longrightarrow> pc_ok w' pc"
  by (cases pc) auto

lemma set_started: "set (started ts @ in_training (training ts)) \<subseteq> set ts"
  by (induction ts rule: started.induct) (auto simp: in_training_def split: option.splits)

lemma tasks_for_ok:
  assumes "hide_ok w h" and "task_ok w (TrainTask (snd e))"
  shows "\<exists>ts. tasks_for now w h e = Ret ts \<and> (\<forall>t \<in> set ts. task_ok w t)"
proof -
  have model: "deref (model_vars w) m \<noteq> None" if "cm_Load (ModelMap h) k = Ret m" for k m
    using entries_ok_Load [OF hide_ok_entries(2) [OF assms(1)] that] by (simp add: model_cell_def deref_def)
  have metric: "m < length (metric_vars w)" if "cm_Load (MetricMap h) k = Ret m" for k m
    using entries_ok_Load [OF hide_ok_entries(1) [OF assms(1)] that] by (simp add: metric_cell_def)
  show ?thesis
    using assms(2) by (auto simp: tasks_for_def task_ok_def Let_def dest: model metric split: prod.splits go.splits option.splits)
qed

lemma begin_ok:
  assumes "world_ok w" and "has_scaler name w" and "fair_iter (tick_iter env)" and "begin_tick env name (w, cl) = (r, (w', cl'))"
  shows "\<exists>pc. r = Ret pc \<and> pc_ok w' pc"
proof -
  have "world_ok w'" and w': "w' = snd (GetHide name w)"
    using GetHide_triple [of name "shape_of name w" w] assms(1,4) by (auto simp: in_shape_def begin_tick_def Let_def)
  then have "hide_ok w' (the_hide name w')" by (simp add: world_ok_def)
  then have "task_ok w' (TrainTask a)" if "map_of (cm_data (PredictorMap (the_hide name w'))) k = Some a" for k a
    using that hide_ok_entries(3) unfolding entries_ok_def by (fastforce simp: pred_cell_def task_ok_def)
  then show ?thesis using assms(2-4) w' entries_map_of
    by (fastforce simp: begin_tick_def Let_def in_training_def has_scaler_def)
qed

lemma visit_ok:
  assumes "world_ok w" and "pc_ok w (Starting scr (e # todo) None live results)"
  shows "\<exists>pc. visit env name scr e todo live results w = Ret pc \<and> pc_ok w pc"
proof -
  obtain ts where ts: "tasks_for (tick_now env) w (the_hide name w) e = Ret ts" "\<forall>t \<in> set ts. task_ok w t"
    using tasks_for_ok [OF world_okD [OF assms(1), of name], where e = e and now = "tick_now env"] assms(2) by auto
  with assms(2) set_started [of ts] show ?thesis by (auto simp: visit_def)
qed

lemma weigh_no_nil: "world_ok w \<Longrightarrow> no_nil (weigh name e w ms)"
  using entries_ok_Load [OF hide_ok_entries(1) [OF world_okD]]
  by (fastforce simp: weigh_def metric_cell_def deref_def split: prod.splits go.splits)

lemma aggregate_no_nil: "no_nil (aggregate it scr results)"
proof -
  have "no_nil (metric_replicas it mr)" for mr
    unfolding metric_replicas_def GetMetricReplica_def by (intro no_nil_fold) (auto intro!: nil_rules)
  then show ?thesis by (simp add: aggregate_def)
qed

lemma aggregate_ok: "scr \<noteq> None \<Longrightarrow> aggregate it scr results = Ret pc \<Longrightarrow> pc_ok w pc"
  by (auto simp: aggregate_def go_simps split: if_splits)

lemma write_no_nil:
  assumes "client_set w" and "scr \<noteq> None"
  shows "no_nil (fst (write_count env scr ms (w, cl)))"
proof -
  have "no_nil (select ms)" unfolding select_def GetScaleReplica_def SelectMax_def by (intro nil_rules)
  then have "select ms = Panic x \<Longrightarrow> x \<noteq> NilDereference" for x by (metis no_nil_simps(3))
  moreover obtain sc where "scr = Some sc" using assms(2) by auto
  moreover have "UpTo lib (k8s_client w) (Some sc) n cl = (Panic x, cl') \<Longrightarrow> x \<noteq> NilDereference" for lib n x cl'
    using client_calls_no_nil(2) [OF assms(1), of lib sc n cl] by simp
  ultimately show ?thesis by (auto simp: write_count_def split: go.splits prod.splits)
qed

lemma live_ok: "pc_ok w pc \<Longrightarrow> live_of pc = Some (scr, live) \<Longrightarrow> scr \<noteq> None \<and> (\<forall>t \<in> set live. task_ok w t)"
  by (cases pc) auto

lemma set_delete_at: "set (delete_at i xs) \<subseteq> set xs"
  by (auto simp: delete_at_def dest: in_set_takeD in_set_dropD)

lemma sent_ok: "pc_ok w pc \<Longrightarrow> pc_ok w (sent i rs pc)"
  using set_delete_at by (cases pc) fastforce+

lemma task_move_step:
  assumes "task_move env i pc (w, cl) = Some (r, (w', cl'))" and "pc_ok w pc"
  shows "\<exists>sc t rs. run_task env (Some sc) t (w, cl) = Some (rs, (w', cl')) \<and> task_ok w t \<and> r = map_go (\<lambda>rs. sent i rs pc) rs"
proof -
  obtain scr live where live: "live_of pc = Some (scr, live)" "i < length live"
    using assms(1) by (auto simp: task_move_def split: option.splits if_splits)
  with live_ok [OF assms(2) live(1)] obtain sc where "scr = Some sc" "task_ok w (live ! i)" by auto
  with assms(1) live show ?thesis by (auto simp: task_move_def split: option.splits)
qed

lemma run_move_samples:
  assumes "run_move env name mv pc (w, cl) = Some (r, (w', cl'))"
  shows "only_samples w w' \<or> w' = snd (GetHide name w)"
proof (cases mv)
  case (TaskMove i)
  with assms obtain scr t q where "run_task env scr t (w, cl) = Some (q, (w', cl'))"
    by (auto simp: task_move_def split: option.splits if_splits)
  from run_task_samples [OF this] show ?thesis by blast
next
  case LoopMove
  then have "loop_move env name pc (w, cl) = Some (r, (w', cl'))" using assms by simp
  then show ?thesis
    by (induction env name pc "(w, cl)" rule: loop_move.induct)
      (auto simp: begin_tick_def Let_def write_count_def split: prod.splits go.splits dest!: train_task_samples)
qed

lemma run_task_no_nil:
  "task_ok w t \<Longrightarrow> client_set w \<Longrightarrow> run_task env (Some sc) t (w, cl) = Some (r, st) \<Longrightarrow> no_nil r"
  using predict_task_no_nil [of w _ _ _ env sc cl r st] train_task_no_nil [of w _ env cl] by (cases t) (auto, metis fst_conv)

lemma run_move_no_nil:
  assumes "world_ok w" and "pc_ok w pc" and "client_set w" and "run_move env name mv pc (w, cl) = Some (r, (w', cl'))"
  shows "no_nil r"
proof (cases mv)
  case (TaskMove i)
  with assms obtain sc t rs where run: "run_task env (Some sc) t (w, cl) = Some (rs, (w', cl'))" "task_ok w t"
    and r: "r = map_go (\<lambda>rs. sent i rs pc) rs" using task_move_step [of env i pc w cl r w' cl'] by auto
  have "no_nil rs" by (rule run_task_no_nil [OF run(2) assms(3) run(1)])
  then show ?thesis by (simp add: r)
next
  case LoopMove
  then have "loop_move env name pc (w, cl) = Some (r, (w', cl'))" using assms(4) by simp
  then show ?thesis using assms(2)
  proof (induction env name pc "(w, cl)" rule: loop_move.induct)
    case (1 env name)
    then show ?case by (auto simp: begin_tick_def Let_def)
  next
    case (2 env name scr todo a live results)
    then have "no_nil (fst (train_task env a (w, cl)))" by (intro train_task_no_nil) (simp add: in_training_def)
    with 2 show ?case by (auto split: prod.splits)
  next
    case (3 env name scr e todo live results)
    then show ?case using visit_ok [OF assms(1), of scr e todo live results env name] by auto
  next
    case (6 env name scr results)
    then show ?case using aggregate_no_nil by auto
  next
    case (7 env name scr e todo ms)
    then show ?case using weigh_no_nil [OF assms(1), of name e ms] by auto
  next
    case (8 env name scr ms)
    then show ?case using write_no_nil [OF assms(3), of scr env ms cl] by (cases "write_count env scr ms (w, cl)") auto
  qed auto
qed

lemma run_move_ok:
  assumes "world_ok w" and "has_scaler name w" and "fair_iter (tick_iter env)" and "pc_ok w pc"
    and "run_move env name mv pc (w, cl) = Some (Ret pc', (w', cl'))"
  shows "pc_ok w' pc'"
proof (cases mv)
  case (TaskMove i)
  with assms obtain sc t rs where run: "run_task env (Some sc) t (w, cl) = Some (Ret rs, (w', cl'))" "pc' = sent i rs pc"
    using task_move_step [of env i pc w cl "Ret pc'" w' cl'] by (auto simp: go_simps)
  from run_task_samples [OF run(1)] assms(4) show ?thesis
    unfolding run(2) using pc_ok_mono task_ok_samples sent_ok by metis
next
  case LoopMove
  then have "loop_move env name pc (w, cl) = Some (Ret pc', (w', cl'))" using assms(5) by simp
  then show ?thesis using assms(2-4)
  proof (induction env name pc "(w, cl)" rule: loop_move.induct)
    case (1 env name)
    then show ?case using begin_ok [OF assms(1), of name env cl] by auto
  next
    case (2 env name scr todo a live results)
    then obtain rs where run: "train_task env a (w, cl) = (Ret rs, (w', cl'))" "pc' = Starting scr todo None live (results @ rs)"
      by (auto simp: go_simps split: prod.splits)
    have "pc_ok w pc'" using 2(4) by (simp add: run(2) in_training_def)
    moreover have "only_samples w w'" using train_task_samples [OF run(1)] by simp
    ultimately show ?case using pc_ok_mono task_ok_samples by metis
  next
    case (3 env name scr e todo live results)
    then show ?case using visit_ok [OF assms(1), of scr e todo live results env name] by auto
  next
    case (6 env name scr results)
    then show ?case using aggregate_ok [of scr "tick_iter env" results pc' w] by auto
  next
    case (8 env name scr ms)
    then have "pc' = AtTicker" by (auto simp: write_count_def split: go.splits prod.splits)
    then show ?case by simp
  qed (auto simp: in_training_def go_simps)
qed

section \<open>One metric, one Holt-Winters model\<close>

lemma forecast_moves:
  assumes it: "fair_iter (tick_iter env)" and f: "one_forecast w (the_hide name w) k p wk m"
    and "hide_Scaler (the_hide name w) = Some sc"
    and served: "serves_target (tick_k8s env) (k8s_client w) view sc cl cur" and t: "ParseFloat (Target m) = Ret t"
  shows "\<exists>e task rest w'. rest \<noteq> [] \<and> only_samples (snd (GetHide name w)) w' \<and>
    run_move env name LoopMove AtTicker (w, cl) = Some (Ret (Starting (Some sc) [e] None [] []), (snd (GetHide name w), cl)) \<and>
    run_move env name LoopMove (Starting (Some sc) [e] None [] []) (snd (GetHide name w), cl) =
      Some (Ret (Starting (Some sc) [] None [task] []), (snd (GetHide name w), cl)) \<and>
    run_move env name (TaskMove 0) (Waiting (Some sc) [task] []) (snd (GetHide name w), cl) =
      Some (Ret (Waiting (Some sc) []
        [\<lparr>modelReplica = count_for (tick_oob env) t (oldest p wk) # rest, rp_withModelKey = k\<rparr>]), (w', cl))"
proof -
  let ?w0 = "snd (GetHide name w)"
  have "one_forecast ?w0 (the_hide name w) k p wk m" "serves_target (tick_k8s env) (k8s_client ?w0) view sc cl cur"
    using f served by (simp_all add: one_forecast_GetHide tick_GetHide)
  from one_forecast_task [OF this t] obtain a mt rest w' where task: "cm_data (PredictorMap (the_hide name w)) = [(k, a)]"
    "tasks_for (tick_now env) ?w0 (the_hide name w) (k, a) = Ret [PredictTask k a mt]" "rest \<noteq> []" "only_samples ?w0 w'"
    "run_task env (Some sc) (PredictTask k a mt) (?w0, cl) =
      Some (Ret [\<lparr>modelReplica = count_for (tick_oob env) t (oldest p wk) # rest, rp_withModelKey = k\<rparr>], (w', cl))" by blast
  then show ?thesis using it assms(3)
    by (intro exI [of _ "(k, a)"] exI [of _ "PredictTask k a mt"] exI [of _ rest] exI [of _ w'])
      (simp add: begin_tick_def Let_def visit_def task_move_def delete_at_def)
qed

text \<open>The counts of one metric's only model, aggregated.\<close>

lemma aggregate_one:
  "fair_iter it \<Longrightarrow> aggregate it scr [\<lparr>modelReplica = c # rest, rp_withModelKey = k\<rparr>] =
    Ret (Weighing scr [(GetNoModelKey k, map (\<lambda>r. max32 r 0) (c # rest))] [])"
  by (simp add: aggregate_def model_replicas_def add_result_def Let_def metric_replicas_def GetMetricReplica_def MaxStrategy_single)

section \<open>Property\<close>

text \<open>C4: the atomic tick is an abstraction of the loop in small steps: whatever moves the loop and its
  goroutines make between two ticks of the ticker, predictions and trainings at any point after
  their start, if no other goroutine runs in between and they do not panic, they end in a state in
  which \<open>tick\<close> ends, for some order of the tasks.\<close>

theorem uninterrupted_round_is_tick:
  assumes "one_round env (sched_Name s) mvs AtTicker (w, cl) = Some (Ret (), st')"
  shows "\<exists>f. fair_order (env\<lparr>tick_order := f\<rparr>) \<and> tick (env\<lparr>tick_order := f\<rparr>) s (w, cl) = Some (Ret (), st')"
proof (rule tick_finishes, cases mvs)
  case (Cons mv rest)
  obtain pc st where begins: "begin_tick env (sched_Name s) (w, cl) = (Ret pc, st)" and pc: "pc \<noteq> AtTicker"
    by (simp add: begin_tick_def Let_def)
  have "mv = LoopMove" using assms Cons by (cases mv) (auto simp: task_move_def)
  then have "one_round env (sched_Name s) rest pc st = Some (Ret (), st')"
    using assms Cons begins pc by simp
  with one_round_finishes [OF begin_inv [OF begins]]
  show "finishes env (sched_Name s) (snd (GetHide (sched_Name s) w), cl) st'" by blast
qed (use assms in simp)

text \<open>The moves of a tick with one prediction.\<close>

theorem uninterrupted_round_is_tick_witness:
  "\<exists>st' f. one_round hw_env (sched_Name demo_sched)
       [LoopMove, LoopMove, LoopMove, TaskMove 0, LoopMove, LoopMove, LoopMove] AtTicker (hw_world, \<lambda>_. 1) = Some (Ret (), st') \<and>
     tick (hw_env\<lparr>tick_order := f\<rparr>) demo_sched (hw_world, \<lambda>_. 1) = Some (Ret (), st')"
proof -
  let ?n = "sched_Name demo_sched" and ?m = "sample_metric ''cpu'' ''5'' 100"
  let ?w0 = "snd (GetHide ?n hw_world)" and ?c = "count_for (tick_oob hw_env) (Fin False 5) (oldest demo_hw sampled)"
  from forecast_moves [OF hw_env_fair(1) hw_one_forecast hw_hide hw_served hw_target] obtain e task rest w' where
    mv: "rest \<noteq> []" "only_samples ?w0 w'"
    "run_move hw_env ?n LoopMove AtTicker (hw_world, \<lambda>_. 1) = Some (Ret (Starting (Some demo_scaler) [e] None [] []), (?w0, \<lambda>_. 1))"
    "run_move hw_env ?n LoopMove (Starting (Some demo_scaler) [e] None [] []) (?w0, \<lambda>_. 1) =
      Some (Ret (Starting (Some demo_scaler) [] None [task] []), (?w0, \<lambda>_. 1))"
    "run_move hw_env ?n (TaskMove 0) (Waiting (Some demo_scaler) [task] []) (?w0, \<lambda>_. 1) =
      Some (Ret (Waiting (Some demo_scaler) [] [\<lparr>modelReplica = ?c # rest, rp_withModelKey = demo_key\<rparr>]), (w', \<lambda>_. 1))" by blast
  have "metric_at hw_world (the_hide ?n hw_world) (GetNoModelKey demo_key) ?m"
    using hw_one_forecast by (simp add: one_forecast_def)
  then have "metric_at w' (the_hide ?n w') (GetNoModelKey demo_key) ?m"
    using only_samplesD(3,6) [OF mv(2)] by (simp add: metric_at_def tick_GetHide)
  then have weigh: "weigh ?n (GetNoModelKey demo_key, r) w' [] = Ret [MulSlice (Weight ?m) r]" for r
    by (auto simp: weigh_def metric_at_def)
  have k8s: "k8s_client w' = k8s_client hw_world" using only_samplesD(2) [OF mv(2)] by (simp add: tick_GetHide)
  obtain v where sel: "select [MulSlice (Weight ?m) (map (\<lambda>r. max32 r 0) (?c # rest))] = Ret v"
    by (simp add: select_def MulSlice_def AddSlice_single GetScaleReplica_def SelectMax_zeros quot32_100)
  obtain r cl' where up: "UpTo (tick_k8s hw_env) (k8s_client w') (Some demo_scaler) v (\<lambda>_. 1) = (r, cl')" "\<not> (\<exists>x. r = Panic x)"
    using UpTo_served [OF hw_served, of v] k8s by auto
  have "one_round hw_env ?n [LoopMove, LoopMove, LoopMove, TaskMove 0, LoopMove, LoopMove, LoopMove] AtTicker (hw_world, \<lambda>_. 1) =
      Some (Ret (), (w', cl'))"
    using mv(3-5) weigh sel up aggregate_one [OF hw_env_fair(1)]
    by (cases r) (simp_all add: write_count_def)
  with uninterrupted_round_is_tick [OF this] show ?thesis by blast
qed

end
