(* ===== verification/Stages.thy ===== *)
theory Stages
  imports NilSafety
begin

text \<open>
  A reconciliation in stages, between which the other goroutines run: its start, the four handlers, and
  its end. Run one after the other the stages are \<open>Handle\<close>.
\<close>

section \<open>The stages\<close>

text \<open>Where the only worker of the controller stands: it is idle, or next runs the handler of that name for an
  instance, with what the handlers before it have left in local variables and in the status.\<close>

datatype stage =
    NoReconcile
  | AtMetrics AOM
  | AtModels AOM
  | AtCollectors AOM "(string, Model) gomap"
  | AtPredictors AOM "(string, Model) gomap" "StatusCollector list"
  | AtEnd AOM "StatusCollector list"

definition open_instance :: "'c env \<Rightarrow> AOM \<Rightarrow> ('c world, unit) act" where
  "open_instance env inst =
     bind_act (modify init_promc) (\<lambda>_.
     bind_act (set_server_address (env_prom env) (CollectorAddress (Spec inst))) (\<lambda>_.
     bind_act (GetHide (aom_name inst)) (\<lambda>_.
       modify (put_hide (aom_name inst) (hide_Scaler_update (\<lambda>_. Some
         (Scaler_New (nn_Namespace (aom_name inst)) (spec_ScaleTargetRef (Spec inst)) (MaxReplicas (Spec inst))
            (MinReplicas (Spec inst)))))))))"

definition start_stage :: "'c env \<Rightarrow> AOM \<Rightarrow> ('c world, stage) act" where
  "start_stage env inst =
     (if StatusGeneration inst = Generation inst then return_act NoReconcile
      else
        bind_act (new_client env) (\<lambda>_.
          if StatusGeneration inst = 0 then bind_act (open_instance env inst) (\<lambda>_. return_act (AtMetrics inst))
          else if StatusGeneration inst < Generation inst then return_act (AtMetrics inst)
          else return_act (AtEnd inst (StatusCollectors inst))))"

definition start_scheduler :: "AOM \<Rightarrow> ('c world, unit) act" where
  "start_scheduler inst =
     bind_act (GetOrNew (aom_name inst) (seconds (spec_Interval (Spec inst)))) (\<lambda>schdlr.
       modify (\<lambda>w. w\<lparr>goroutines := goroutines w @ [RunLoop schdlr]\<rparr>))"

definition store_status :: "'c env \<Rightarrow> AOM \<Rightarrow> StatusCollector list \<Rightarrow> stage go" where
  "store_status env inst cs =
     (case Status_Update env (inst\<lparr>StatusCollectors := cs, StatusGeneration := Generation inst\<rparr>) of
        None \<Rightarrow> Ret NoReconcile | Some e \<Rightarrow> Err e)"

fun next_stage :: "'c env \<Rightarrow> iter \<Rightarrow> stage \<Rightarrow> ('c world, stage) act" where
  "next_stage env it NoReconcile = return_act NoReconcile"
| "next_stage env it (AtMetrics inst) =
     bind_act (handleMetrics it (aom_name inst) (Spec inst)) (\<lambda>_. return_act (AtModels inst))"
| "next_stage env it (AtModels inst) =
     bind_act (handleModels it (aom_name inst) (Spec inst)) (\<lambda>changes. return_act (AtCollectors inst changes))"
| "next_stage env it (AtCollectors inst changes) =
     bind_act (handleCollector it (aom_name inst) (Spec inst)) (\<lambda>cs. return_act (AtPredictors inst changes cs))"
| "next_stage env it (AtPredictors inst changes cs) =
     bind_act (handlePredictor it (aom_name inst) (Spec inst) changes) (\<lambda>_. return_act (AtEnd inst cs))"
| "next_stage env it (AtEnd inst cs) =
     bind_act (if StatusGeneration inst = 0 then start_scheduler inst else return_act ())
       (\<lambda>_. lift_go (\<lambda>_. store_status env inst cs))"

section \<open>The stages make up the handler\<close>

fun stages :: "'c env \<Rightarrow> iter \<Rightarrow> nat \<Rightarrow> stage \<Rightarrow> ('c world, stage) act" where
  "stages env it 0 s = return_act s"
| "stages env it (Suc n) s = bind_act (next_stage env it s) (stages env it n)"

lemma bind_act_assoc: "bind_act (bind_act m f) g = bind_act m (\<lambda>a. bind_act (f a) g)"
  by (rule ext) (simp add: bind_act_def split: prod.splits go.splits)

lemma bind_return [simp]: "bind_act (return_act a) f = f a"
  by (rule ext) (simp add: bind_act_def return_act_def)

lemma bind_if: "bind_act (if b then m else n) f = (if b then bind_act m f else bind_act n f)"
  by simp

lemma bind_lift: "bind_act (lift_go g) f = (\<lambda>w. case g w of Ret a \<Rightarrow> f a w | Err e \<Rightarrow> (Err e, w) | Panic x \<Rightarrow> (Panic x, w))"
  by (rule ext) (simp add: bind_act_def lift_go_def split: go.splits)

lemma stages_idle [simp]: "stages env it n NoReconcile = return_act NoReconcile"
  by (induction n) simp_all

lemma stages_end:
  "stages env it (Suc n) (AtEnd inst cs) = (next_stage env it (AtEnd inst cs) :: ('c world, stage) act)"
proof -
  have "bind_act (lift_go (\<lambda>_. store_status env inst cs)) (stages env it n) =
      (lift_go (\<lambda>_. store_status env inst cs) :: ('c world, stage) act)"
  proof (cases "Status_Update env (inst\<lparr>StatusCollectors := cs, StatusGeneration := Generation inst\<rparr>)")
    case None
    then show ?thesis by (intro ext) (simp add: bind_lift store_status_def return_act_def lift_go_def)
  next
    case (Some e)
    then show ?thesis by (intro ext) (simp add: bind_lift store_status_def lift_go_def)
  qed
  then show ?thesis by (simp add: bind_act_assoc)
qed

lemma stages_handlers:
  "stages env it 5 (AtMetrics inst) =
     bind_act (handleUpdate it (aom_name inst) (Spec inst)) (\<lambda>cs. next_stage env it (AtEnd inst cs))"
proof -
  have "stages env it 5 (AtMetrics inst) = stages env it (Suc (Suc (Suc (Suc (Suc 0))))) (AtMetrics inst)"
    by (simp add: eval_nat_numeral)
  also have "\<dots> = bind_act (handleMetrics it (aom_name inst) (Spec inst)) (\<lambda>_.
      bind_act (handleModels it (aom_name inst) (Spec inst)) (\<lambda>changes.
      bind_act (handleCollector it (aom_name inst) (Spec inst)) (\<lambda>cs.
      bind_act (handlePredictor it (aom_name inst) (Spec inst) changes) (\<lambda>_.
        stages env it (Suc 0) (AtEnd inst cs)))))"
    by (simp only: stages.simps(2) next_stage.simps(2-5) bind_act_assoc bind_return)
  finally show ?thesis by (simp only: stages_end handleUpdate_def bind_act_assoc bind_return)
qed

lemma handleCreate_stages:
  "bind_act (handleCreate env it (aom_name inst) (Spec inst)) f =
     bind_act (open_instance env inst) (\<lambda>_. bind_act (handleUpdate it (aom_name inst) (Spec inst)) (\<lambda>cs.
       bind_act (start_scheduler inst) (\<lambda>_. f cs)))"
  by (simp only: handleCreate_def open_instance_def start_scheduler_def bind_act_assoc bind_return)

lemma status_lift:
  "bind_act (lift_go (\<lambda>_. case Status_Update env (inst\<lparr>StatusCollectors := cs, StatusGeneration := Generation inst\<rparr>) of
      None \<Rightarrow> Ret () | Some e \<Rightarrow> Err e)) (\<lambda>_. return_act NoReconcile) = lift_go (\<lambda>_. store_status env inst cs)"
  by (rule ext) (simp add: bind_act_def return_act_def lift_go_def store_status_def split: option.splits)

text \<open>A reconciliation whose stages run one after the other is the handler.\<close>

lemma Handle_in_stages:
  "bind_act (start_stage env inst) (stages env it 5) = bind_act (Handle env it inst) (\<lambda>_. return_act NoReconcile)"
proof (cases "StatusGeneration inst = Generation inst")
  case False
  show ?thesis
  proof (cases "StatusGeneration inst = 0")
    case True
    then show ?thesis using False
      by (simp add: start_stage_def Handle_def bind_act_assoc stages_handlers handleCreate_stages status_lift)
  next
    case created: False
    have five: "stages env it 5 (AtEnd inst cs) = next_stage env it (AtEnd inst cs)" for cs
      using stages_end [of env it 4] by (simp add: eval_nat_numeral)
    show ?thesis
      by (cases "StatusGeneration inst < Generation inst")
        (simp_all only: start_stage_def Handle_def False created if_False if_True bind_act_assoc stages_handlers status_lift five
          bind_return next_stage.simps(6))
  qed
qed (simp add: start_stage_def Handle_def)

section \<open>What the stages keep\<close>

definition opened :: "'c world \<Rightarrow> AOM \<Rightarrow> bool" where
  "opened w inst \<longleftrightarrow> StatusGeneration inst \<noteq> 0 \<or> has_scaler (aom_name inst) w"

definition changes_ok :: "AOM \<Rightarrow> (string, Model) gomap \<Rightarrow> bool" where
  "changes_ok inst changes \<longleftrightarrow> wf_map changes \<and> set changes \<subseteq> model_pairs (Spec inst)"

fun stage_ok :: "'c world \<Rightarrow> stage \<Rightarrow> bool" where
  "stage_ok w NoReconcile = True"
| "stage_ok w (AtMetrics inst) = (wf_spec (Spec inst) \<and> opened w inst)"
| "stage_ok w (AtModels inst) = (wf_spec (Spec inst) \<and> opened w inst)"
| "stage_ok w (AtCollectors inst changes) = (wf_spec (Spec inst) \<and> opened w inst \<and> changes_ok inst changes)"
| "stage_ok w (AtPredictors inst changes cs) = (wf_spec (Spec inst) \<and> opened w inst \<and> changes_ok inst changes)"
| "stage_ok w (AtEnd inst cs) = opened w inst"

lemma stage_ok_mono: "evolves w w' \<Longrightarrow> stage_ok w s \<Longrightarrow> stage_ok w' s"
  by (cases s) (auto simp: opened_def dest: evolves_scaler)

lemma kept_good:
  assumes "triple (in_shape name (shape_of name w)) m (\<lambda>_. world_ok) world_ok" and "keeps (background name) m" and "good w"
  shows "good (snd (m w))"
proof -
  have "world_ok (snd (m w))"
    using triple_state [OF assms(1)] assms(3) by (simp add: good_def in_shape_def)
  moreover have "background name (snd (m w)) = background name w" by (rule keeps_snd [OF assms(2)])
  ultimately show ?thesis using assms(3) by (simp add: good_def promc_ready_def background_def)
qed

lemma handler_good:
  fixes w :: "'c world"
  assumes it: "fair_iter it" and spec: "wf_spec spec" and w: "good w"
  shows "good (snd (handleMetrics it name spec w))" "good (snd (handleModels it name spec w))"
    "good (snd (handleCollector it name spec w))"
    "wf_map ch \<and> set ch \<subseteq> model_pairs spec \<Longrightarrow> good (snd (handlePredictor it name spec ch w))"
proof -
  let ?s = "shape_of name w"
  show "good (snd (handleMetrics it name spec w))"
    by (rule kept_good [OF _ background_handlers(1) w], rule triple_weaken [OF handleMetrics_triple [OF it spec, where E = world_ok]])
      (auto simp: in_shape_def)
  show "good (snd (handleModels it name spec w))"
    by (rule kept_good [OF _ background_handlers(2) w], rule triple_weaken [OF handleModels_triple [OF it spec, where E = world_ok]])
      (auto simp: in_shape_def)
  show "good (snd (handleCollector it name spec w))"
    by (rule kept_good [OF _ background_handlers(4) w], rule triple_weaken [OF handleCollector_triple [OF it spec, where E = world_ok]])
      (auto simp: in_shape_def can_start_def)
  show "good (snd (handlePredictor it name spec ch w))" if "wf_map ch \<and> set ch \<subseteq> model_pairs spec"
    by (rule kept_good [OF _ background_handlers(3) w],
        rule triple_weaken [OF handlePredictor_triple [OF it spec conjunct1 [OF that] conjunct2 [OF that], where E = world_ok]])
      (auto simp: in_shape_def)
qed

lemma handleModels_changes:
  assumes "fair_iter it" and "wf_spec (Spec inst)" and "good w" and "handleModels it name (Spec inst) w = (Ret ch, w')"
  shows "changes_ok inst ch"
proof -
  have "in_shape name (shape_of name w) w" using assms(3) by (simp add: good_def in_shape_def)
  from triple_Ret [OF handleModels_triple [OF assms(1,2), where E = world_ok] this assms(4)] show ?thesis
    by (simp add: changes_ok_def)
qed

lemma always_open: "always evolves (open_instance env inst)"
proof -
  have "always evolves (modify init_promc)" "always evolves (set_server_address lib url)" for lib url
    by (auto simp: always_def init_promc_def set_server_address_def intro!: evolves_same split: option.splits prod.splits)
  moreover have "always evolves (modify (put_hide name (hide_Scaler_update (\<lambda>_. Some sc))))" for name sc
    by (auto simp: always_def intro!: evolves_put)
  ultimately show ?thesis
    unfolding open_instance_def by (intro always_bind evolves_GetHide)
qed

lemma open_instance_good:
  fixes w :: "'c world"
  assumes "good w"
  shows "good (snd (open_instance env inst w))" "open_instance env inst w = (Ret u, w') \<Longrightarrow> has_scaler (aom_name inst) w'"
proof -
  let ?n = "aom_name inst" and ?s = "shape_of (aom_name inst) w"
  have get: "triple (\<lambda>w. in_shape ?n ?s w \<and> pCollector w \<noteq> None) (GetHide ?n)
      (\<lambda>_ w. in_shape ?n ?s w \<and> pCollector w \<noteq> None) good"
    using triple_frame [OF background_GetHide triple_GetHide, where F = "\<lambda>b. fst (snd b)"] by (simp add: background_def)
  have addr: "triple (\<lambda>w. in_shape ?n ?s w \<and> pCollector w \<noteq> None)
      (set_server_address (env_prom env) (CollectorAddress (Spec inst)))
      (\<lambda>_ w. in_shape ?n ?s w \<and> pCollector w \<noteq> None) (good :: 'c world \<Rightarrow> bool)"
    by (rule set_server_address_triple) (simp add: good_def promc_ready_def)
  have run: "triple (\<lambda>w. in_shape ?n ?s w \<and> promc_ready w) (open_instance env inst)
      (\<lambda>_ w. good w \<and> has_scaler ?n w) (good :: 'c world \<Rightarrow> bool)"
    unfolding open_instance_def the_scaler_def [symmetric]
    by (rule triple_bind [OF init_promc_triple], rule triple_bind [OF addr], rule triple_bind [OF get],
        rule triple_weaken [OF put_scaler_triple])
      (auto simp: good_def in_shape_def promc_ready_def has_scaler_def)
  have pre: "in_shape ?n ?s w \<and> promc_ready w" using assms good_shape by blast
  have "triple (\<lambda>w. in_shape ?n ?s w \<and> promc_ready w) (open_instance env inst) (\<lambda>_. good) (good :: 'c world \<Rightarrow> bool)"
    by (rule triple_weaken [OF run]) auto
  from triple_state [OF this pre] show "good (snd (open_instance env inst w))" .
  show "has_scaler ?n w'" if "open_instance env inst w = (Ret u, w')"
    using triple_Ret [OF run pre that] by simp
qed

lemma always_scheduler: "has_scaler (aom_name inst) w \<Longrightarrow> evolves w (snd (start_scheduler inst w))"
proof -
  assume w: "has_scaler (aom_name inst) w"
  let ?i = "seconds (spec_Interval (Spec inst))"
  obtain s u where g: "GetOrNew (aom_name inst) ?i w = (Ret s, u)"
    by (cases "map_of (schedulers w) (aom_name inst)") (auto simp: GetOrNew_def Let_def)
  with evolves_run [OF g w] show ?thesis by (simp add: start_scheduler_def)
qed

lemma good_scheduler: "good w \<Longrightarrow> good (snd (start_scheduler inst w))"
proof -
  assume w: "good w"
  let ?t = "snd (start_scheduler inst w)"
  have "globalStore ?t = globalStore w \<and> grows w ?t \<and> pCollector ?t = pCollector w \<and> promcDone ?t = promcDone w"
    by (cases "map_of (schedulers w) (aom_name inst)") (auto simp: start_scheduler_def GetOrNew_def Let_def grows_def cells)
  with w world_ok_grow [of w ?t] show ?thesis by (simp add: good_def promc_ready_def)
qed

lemma start_stage_step:
  assumes "start_stage env inst w = (r, w')" and "wf_spec (Spec inst)" and "good w"
  shows "good w' \<and> evolves w w' \<and> (\<forall>s. r = Ret s \<longrightarrow> stage_ok w' s)"
proof (cases "StatusGeneration inst = Generation inst")
  case True
  then show ?thesis using assms by (auto simp: start_stage_def)
next
  case False
  obtain q v where client: "new_client env w = (q, v)" by force
  then obtain c where "v = w\<lparr>k8s_client := c\<rparr>" using new_client_world by blast
  then have v: "good v" "evolves w v" using good_client [OF assms(3)] by (auto intro!: evolves_same)
  obtain p u where opn: "open_instance env inst v = (p, u)" by force
  have u: "good u" "evolves v u" "\<And>x. p = Ret x \<Longrightarrow> has_scaler (aom_name inst) u"
    using open_instance_good [OF v(1), of env inst] always_snd [OF always_open, of v env inst] opn by auto
  show ?thesis
    using assms(1,2) False client v opn u evolves_trans [OF v(2) u(2)]
    by (cases q; cases p) (auto simp: start_stage_def opened_def split: if_splits)
qed

lemma bind_return_state: "snd (bind_act m (\<lambda>a. return_act (f a)) w) = snd (m w)"
  by (auto simp: bind_act_def split: prod.splits go.splits)

lemma next_stage_good:
  assumes "fair_iter it" and "good w" and "stage_ok w s"
  shows "good (snd (next_stage env it s w)) \<and> evolves w (snd (next_stage env it s w))"
proof (cases s)
  case (AtEnd inst cs)
  have "good (snd (start_scheduler inst w)) \<and> (StatusGeneration inst = 0 \<longrightarrow> evolves w (snd (start_scheduler inst w)))"
    using good_scheduler [OF assms(2)] always_scheduler assms(3) AtEnd by (auto simp: opened_def)
  then show ?thesis using AtEnd assms(2)
    by (auto simp: bind_act_def return_act_def lift_go_def split: prod.splits go.splits)
qed (use assms handler_good [OF assms(1) _ assms(2)] in
      \<open>auto simp: bind_return_state changes_ok_def intro!: always_snd [OF evolves_handlers(1)] always_snd [OF evolves_handlers(2)]
        always_snd [OF evolves_handlers(3)] always_snd [OF evolves_handlers(4)]\<close>)

lemma next_stage_ok:
  assumes "fair_iter it" and "good w" and "stage_ok w s" and "next_stage env it s w = (Ret s', w')"
  shows "stage_ok w' s'"
proof -
  have e: "evolves w w'" using next_stage_good [OF assms(1-3), of env] assms(4) by simp
  have "stage_ok w s'"
  proof (cases s)
    case (AtModels inst)
    then obtain ch where "handleModels it (aom_name inst) (Spec inst) w = (Ret ch, w')" "s' = AtCollectors inst ch"
      using assms(4) by (auto simp: bind_act_Ret return_act_def)
    with AtModels handleModels_changes [OF assms(1) _ assms(2)] assms(3) show ?thesis by simp
  next
    case (AtEnd inst cs)
    then have "s' = NoReconcile"
      using assms(4) by (auto simp: bind_act_Ret store_status_def lift_go_def split: option.splits if_splits)
    then show ?thesis by simp
  qed (use assms(3,4) in \<open>auto simp: bind_act_Ret return_act_def\<close>)
  then show ?thesis by (rule stage_ok_mono [OF e])
qed

end
