(* ===== verification/Interleaved.thy ===== *)
theory Interleaved
  imports TickSteps Stages EndToEnd
begin

text \<open>
  The whole operator with its goroutines interleaved between the stages of a reconciliation and between
  the steps of a tick. What holds of every reachable state of theory System holds here too; what does
  not is that a tick acts on the metrics it predicted.
\<close>

section \<open>The system\<close>

text \<open>A goroutine that has not run yet, a collector's loop (with the variable \<open>end\<close>), a scheduler's loop, and one
  that is done.\<close>

datatype iphase = Unstarted | Looping bool | InRun run_pc | Finished

text \<open>The world, the cluster, the worker of the controller, and the goroutines by their position in the world.\<close>

type_synonym 'c isys = "'c world \<times> 'c \<times> stage \<times> (nat \<Rightarrow> iphase)"

text \<open>Whether a tick holds the lock of the instance's \<open>PredictorMap\<close>.\<close>

definition predictors_locked :: "'c world \<Rightarrow> (nat \<Rightarrow> iphase) \<Rightarrow> NamespacedName \<Rightarrow> bool" where
  "predictors_locked w ph name \<longleftrightarrow>
     (\<exists>i \<in> set [0..<length (goroutines w)]. case (goroutines w ! i, ph i) of
        (RunLoop s, InRun pc) \<Rightarrow> sched_Name s = name \<and> holds_lock pc | _ \<Rightarrow> False)"

text \<open>
  Whether the next stage takes this lock: the handler of the predictors does, unless it calls no method of
  \<open>PredictorMap\<close>. It looks one up for every model it visits before a metric is missing, and when it has visited
  all of the spec without a model, it deletes all there are.
\<close>

fun wants_lock :: "iter \<Rightarrow> 'c world \<Rightarrow> stage \<Rightarrow> NamespacedName option" where
  "wants_lock it w (AtPredictors inst changes cs) =
     (let es = entries it 10 (Models (Spec inst));
          visited = takeWhile (\<lambda>(key, ms). key \<in> set (keys (Metrics (Spec inst)))) es
      in if (\<exists>(key, ms) \<in> set visited. ms \<noteq> []) \<or>
            visited = es \<and> cm_data (PredictorMap (the_hide (aom_name inst) w)) \<noteq> []
         then Some (aom_name inst) else None)"
| "wants_lock it w sg = None"

definition may_lock :: "'c world \<Rightarrow> (nat \<Rightarrow> iphase) \<Rightarrow> NamespacedName option \<Rightarrow> bool" where
  "may_lock w ph wanted = (case wanted of None \<Rightarrow> True | Some name \<Rightarrow> \<not> predictors_locked w ph name)"

text \<open>
  As in theory System a step that panics ends the process and is no step, and everything outside the
  program is chosen anew at each step. A stage that errs ends its reconciliation.
\<close>

inductive isys_step :: "'c isys \<Rightarrow> 'c isys \<Rightarrow> bool" where
  begin_reconcile: "wf_spec (Spec inst) \<Longrightarrow> start_stage env inst w = (r, w') \<Longrightarrow> (\<And>x. r \<noteq> Panic x) \<Longrightarrow>
    isys_step (w, cl, NoReconcile, ph) (w', cl, (case r of Ret sg \<Rightarrow> sg | _ \<Rightarrow> NoReconcile), ph)"
| stage: "fair_iter it \<Longrightarrow> sg \<noteq> NoReconcile \<Longrightarrow> may_lock w ph (wants_lock it w sg) \<Longrightarrow>
    next_stage env it sg w = (r, w') \<Longrightarrow> (\<And>x. r \<noteq> Panic x) \<Longrightarrow>
    isys_step (w, cl, sg, ph) (w', cl, (case r of Ret sg' \<Rightarrow> sg' | _ \<Rightarrow> NoReconcile), ph)"
| istart_worker: "i < length (goroutines w) \<Longrightarrow> goroutines w ! i = StartWorkerLoop name a ch iv \<Longrightarrow> ph i = Unstarted \<Longrightarrow>
    StartWorker_start iv = Ret () \<Longrightarrow> GetHide name w = (Ret h, w') \<Longrightarrow>
    isys_step (w, cl, sg, ph) (w', cl, sg, ph(i := Looping False))"
| iturn: "i < length (goroutines w) \<Longrightarrow> goroutines w ! i = StartWorkerLoop name a ch iv \<Longrightarrow> ph i = Looping ended \<Longrightarrow>
    worker_turn lib now ctx_done name a ch ended w = (Ret t, w') \<Longrightarrow>
    isys_step (w, cl, sg, ph) (w', cl, sg, ph(i := (case t of Going e \<Rightarrow> Looping e | Ended \<Rightarrow> Finished)))"
| istart_run: "i < length (goroutines w) \<Longrightarrow> goroutines w ! i = RunLoop s \<Longrightarrow> ph i = Unstarted \<Longrightarrow>
    Run_start s = Ret () \<Longrightarrow> isys_step (w, cl, sg, ph) (w, cl, sg, ph(i := InRun AtTicker))"
| run: "i < length (goroutines w) \<Longrightarrow> goroutines w ! i = RunLoop s \<Longrightarrow> ph i = InRun pc \<Longrightarrow>
    fair_iter (tick_iter tenv) \<Longrightarrow> (pc = AtTicker \<Longrightarrow> \<not> predictors_locked w ph (sched_Name s)) \<Longrightarrow>
    run_move tenv (sched_Name s) mv pc (w, cl) = Some (Ret pc', (w', cl')) \<Longrightarrow>
    isys_step (w, cl, sg, ph) (w', cl', sg, ph(i := InRun pc'))"
| itrained: "i < length (goroutines w) \<Longrightarrow> goroutines w ! i = WaitLoop a \<Longrightarrow> ph i = Unstarted \<Longrightarrow>
    deref (predictors w) a = Some (GruPredictor g) \<Longrightarrow> WaitAndUpdate glib l g = Some (r, g') \<Longrightarrow> \<not> (\<exists>x. r = Panic x) \<Longrightarrow>
    isys_step (w, cl, sg, ph)
      (w\<lparr>predictors := assign a (GruPredictor g') (predictors w)\<rparr>, cl, sg, ph(i := Finished))"
| icluster: "isys_step (w, cl, sg, ph) (w, cl', sg, ph)"

text \<open>A scheduler's goroutine whose next move panics, which ends the process.\<close>

definition run_panics :: "'c isys \<Rightarrow> panic \<Rightarrow> bool" where
  "run_panics st x \<longleftrightarrow>
     (case st of (w, cl, sg, ph) \<Rightarrow> \<exists>i s pc tenv mv st'. i < length (goroutines w) \<and> goroutines w ! i = RunLoop s \<and>
        ph i = InRun pc \<and> fair_iter (tick_iter tenv) \<and> (pc = AtTicker \<longrightarrow> \<not> predictors_locked w ph (sched_Name s)) \<and>
        run_move tenv (sched_Name s) mv pc (w, cl) = Some (Panic x, st'))"

section \<open>The invariant\<close>

definition isys_ok :: "'c isys \<Rightarrow> bool" where
  "isys_ok st =
     (case st of (w, cl, sg, ph) \<Rightarrow> good w \<and> procs_ok w \<and> stage_ok w sg \<and> (\<forall>i pc. ph i = InRun pc \<longrightarrow> pc_ok w pc))"

lemma isys_okI:
  assumes "isys_ok (w, cl, sg, ph)" and "good w'" and "evolves w w'"
    and "stage_ok w' sg'" and "\<And>i pc. ph' i = InRun pc \<Longrightarrow> ph i = InRun pc \<or> pc_ok w' pc"
  shows "isys_ok (w', cl', sg', ph')"
proof -
  have "pc_ok w' pc" if "pc_ok w pc" for pc
    using pc_ok_mono [OF _ that, of w'] assms(3) by (simp add: evolves_def)
  with assms show ?thesis by (fastforce simp: isys_ok_def evolves_def)
qed

lemma run_evolves:
  assumes "run_move env name mv pc (w, cl) = Some (r, (w', cl'))" and "good w"
  shows "good w' \<and> evolves w w'"
  using run_move_samples [OF assms(1)] only_samples_good only_samples_evolves good_GetHide [OF assms(2)]
    always_snd [OF evolves_GetHide, of w name] assms(2) by blast

lemma run_scaler:
  assumes "procs_ok w" and "i < length (goroutines w)" and "goroutines w ! i = RunLoop s"
  shows "has_scaler (sched_Name s) w"
  using assms nth_mem [OF assms(2)] by (fastforce simp: procs_ok_def gor_ok_def has_scaler_def)

lemma isys_step_keeps: "isys_step st st' \<Longrightarrow> isys_ok st \<Longrightarrow> isys_ok st'"
proof (induction rule: isys_step.induct)
  case (begin_reconcile inst env w r w' cl ph)
  then have "good w" by (simp add: isys_ok_def)
  from start_stage_step [OF begin_reconcile(2,1) this] begin_reconcile(4) show ?case
    by (intro isys_okI [OF begin_reconcile(4)]) (auto split: go.splits)
next
  case (stage it sg w ph env r w' cl)
  then have ok: "good w" "stage_ok w sg" by (simp_all add: isys_ok_def)
  have "good w'" "evolves w w'" using next_stage_good [OF stage(1) ok, of env] stage(4) by simp_all
  moreover have "stage_ok w' (case r of Ret sg' \<Rightarrow> sg' | _ \<Rightarrow> NoReconcile)"
    using next_stage_ok [OF stage(1) ok, of env _ w'] stage(4) by (auto split: go.splits)
  ultimately show ?case using stage(6) by (intro isys_okI [OF stage(6)]) auto
next
  case (istart_worker i w name a ch iv ph h w' cl sg)
  then have "good w'" "evolves w w'"
    using good_GetHide [of w name] always_snd [OF evolves_GetHide, of w name] by (auto simp: isys_ok_def)
  then show ?case using istart_worker(6) stage_ok_mono
    by (intro isys_okI [OF istart_worker(6)]) (auto simp: isys_ok_def split: if_splits)
next
  case (iturn i w name a ch iv ph ended lib now ctx_done t w' cl sg)
  from worker_turn_samples [OF iturn(4)] have "evolves w w'" "good w \<Longrightarrow> good w'"
    using only_samples_good only_samples_evolves by blast+
  then show ?case using iturn(5) stage_ok_mono
    by (intro isys_okI [OF iturn(5)]) (auto simp: isys_ok_def split: if_splits turn.splits)
next
  case (istart_run i w s ph cl sg)
  then show ?case by (auto simp: isys_ok_def)
next
  case (run i w s ph pc tenv mv cl pc' w' cl' sg)
  then have ok: "good w" "procs_ok w" "pc_ok w pc" by (simp_all add: isys_ok_def)
  have "pc_ok w' pc'"
    using run_move_ok [OF _ run_scaler [OF ok(2) run(1,2)] run(4) ok(3) run(6)] ok(1) by (simp add: good_def)
  then show ?case using run(7) run_evolves [OF run(6) ok(1)] stage_ok_mono
    by (intro isys_okI [OF run(7)]) (auto simp: isys_ok_def split: if_splits)
next
  case (itrained i w a ph g glib l r g' cl sg)
  then have "good w" by (simp add: isys_ok_def)
  from trained_good [OF this itrained(4,5)] show ?case using itrained(7) stage_ok_mono
    by (intro isys_okI [OF itrained(7)]) (auto simp: isys_ok_def split: if_splits)
qed (simp add: isys_ok_def)

definition istart :: "'c \<Rightarrow> 'c isys" where
  "istart cl = (start_world, cl, NoReconcile, \<lambda>_. Unstarted)"

lemma ireachable_ok: "isys_step\<^sup>*\<^sup>* (istart cl) st \<Longrightarrow> isys_ok st"
proof (induction rule: rtranclp_induct)
  case base
  then show ?case using start_good by (simp add: isys_ok_def istart_def procs_ok_def) (simp add: start_world_def)
qed (use isys_step_keeps in blast)

section \<open>Runs without interruption\<close>

lemma stage_step: "fair_iter it \<Longrightarrow> sg \<noteq> NoReconcile \<Longrightarrow> may_lock w ph (wants_lock it w sg) \<Longrightarrow>
    next_stage env it sg w = (Ret sg', w') \<Longrightarrow> isys_step (w, cl, sg, ph) (w', cl, sg', ph)"
  using stage [of it sg w ph env "Ret sg'" w' cl] by simp

lemma begin_step: "wf_spec (Spec inst) \<Longrightarrow> start_stage env inst w = (Ret sg, w') \<Longrightarrow>
    isys_step (w, cl, NoReconcile, ph) (w', cl, sg, ph)"
  using begin_reconcile [of inst env w "Ret sg" w' cl ph] by simp

lemma never_locked: "(\<And>i pc. ph i = InRun pc \<Longrightarrow> \<not> holds_lock pc) \<Longrightarrow> \<not> predictors_locked w ph name"
  by (auto simp: predictors_locked_def split: goroutine.splits iphase.splits)

lemma stages_steps:
  assumes it: "fair_iter it" and free: "\<And>i pc. ph i = InRun pc \<Longrightarrow> \<not> holds_lock pc"
  shows "stages env it n sg w = (Ret sg', w') \<Longrightarrow> isys_step\<^sup>*\<^sup>* (w, cl, sg, ph) (w', cl, sg', ph)"
proof (induction n arbitrary: sg w)
  case 0
  then show ?case by (simp add: return_act_def)
next
  case (Suc n)
  then obtain sg1 w1 where s: "next_stage env it sg w = (Ret sg1, w1)" "stages env it n sg1 w1 = (Ret sg', w')"
    by (auto simp: bind_act_Ret)
  have "\<not> predictors_locked w ph name" for name by (rule never_locked [OF free])
  then have "may_lock w ph (wants_lock it w sg)" by (simp add: may_lock_def split: option.splits)
  then have "isys_step\<^sup>*\<^sup>* (w, cl, sg, ph) (w1, cl, sg1, ph)"
    using s(1) stage_step [OF it _ _ s(1), of ph cl] by (cases "sg = NoReconcile") (auto simp: return_act_def)
  with Suc.IH [OF s(2)] show ?case by simp
qed

text \<open>A successful reconciliation is a run of the system.\<close>

lemma Handle_steps:
  assumes it: "fair_iter it" and free: "\<And>i pc. ph i = InRun pc \<Longrightarrow> \<not> holds_lock pc"
    and "wf_spec (Spec inst)" and "Handle env it inst w = (Ret (), w')"
  shows "isys_step\<^sup>*\<^sup>* (w, cl, NoReconcile, ph) (w', cl, NoReconcile, ph)"
proof -
  have "bind_act (start_stage env inst) (stages env it 5) w = (Ret NoReconcile, w')"
    unfolding Handle_in_stages using assms(4) by (simp add: bind_act_def return_act_def)
  then obtain sg w1 where "start_stage env inst w = (Ret sg, w1)" "stages env it 5 sg w1 = (Ret NoReconcile, w')"
    by (auto simp: bind_act_Ret)
  from begin_step [where ph = ph and cl = cl, OF assms(3) this(1)] stages_steps [where ph = ph and cl = cl, OF it free this(2)]
  show ?thesis by (rule converse_rtranclp_into_rtranclp)
qed

lemma evolves_nth:
  "evolves w w' \<Longrightarrow> i < length (goroutines w) \<Longrightarrow> i < length (goroutines w') \<and> goroutines w' ! i = goroutines w ! i"
  by (auto simp: evolves_def nth_append)

section \<open>A metric that is removed during a tick\<close>

text \<open>The scheduler's goroutine \<open>i\<close> makes a move while the other goroutines stand.\<close>

lemma move_step:
  assumes "i < length (goroutines w)" and "goroutines w ! i = RunLoop s" and "fair_iter (tick_iter env)" and "pc \<noteq> AtTicker"
    and "run_move env (sched_Name s) mv pc (w, cl) = Some (Ret pc', (w', cl'))"
  shows "isys_step (w, cl, sg, ph(i := InRun pc)) (w', cl', sg, ph(i := InRun pc'))"
  using run [OF assms(1,2) _ assms(3) _ assms(5), of "ph(i := InRun pc)" sg] assms(4) by simp

lemma move_panics:
  assumes "i < length (goroutines w)" and "goroutines w ! i = RunLoop s" and "fair_iter (tick_iter env)" and "pc \<noteq> AtTicker"
    and "run_move env (sched_Name s) mv pc (w, cl) = Some (Panic x, st')"
  shows "run_panics (w, cl, sg, ph(i := InRun pc)) x"
  unfolding run_panics_def prod.case using assms
  by (intro exI [of _ i] exI [of _ s] exI [of _ pc] exI [of _ env] exI [of _ mv] exI [of _ st']) simp

lemma weigh_gone: "k \<notin> cm_dom (MetricMap (the_hide name w)) \<Longrightarrow> weigh name (k, r) w ms = Ret ms"
  using cm_Load_dom [of "MetricMap (the_hide name w)" k] by (auto simp: weigh_def split: go.splits)

text \<open>From a tick whose results are in, all of them for a metric that is gone.\<close>

lemma gone_panics:
  fixes w :: "'c world" and env :: "'c tick_env"
  assumes i: "i < length (goroutines w)" "goroutines w ! i = RunLoop s" and it: "fair_iter (tick_iter env)"
    and gone: "GetNoModelKey k \<notin> cm_dom (MetricMap (the_hide (sched_Name s) w))"
  shows "\<exists>st. isys_step\<^sup>*\<^sup>* (w, cl, sg, ph(i := InRun (Waiting scr [] [\<lparr>modelReplica = c # rest, rp_withModelKey = k\<rparr>]))) st \<and>
    run_panics st IndexOutOfRange"
proof -
  let ?n = "sched_Name s" and ?e = "(GetNoModelKey k, map (\<lambda>r. max32 r 0) (c # rest))"
  let ?st = "\<lambda>pc. (w, cl, sg, ph(i := InRun pc))"
  have agg: "isys_step (?st (Waiting scr [] [\<lparr>modelReplica = c # rest, rp_withModelKey = k\<rparr>])) (?st (Weighing scr [?e] []))"
    by (rule move_step [OF i it, where mv = LoopMove]) (simp_all add: aggregate_one [OF it])
  have skip: "isys_step (?st (Weighing scr [?e] [])) (?st (Weighing scr [] []))"
    by (rule move_step [OF i it, where mv = LoopMove]) (simp_all add: weigh_gone [OF gone])
  have "isys_step\<^sup>*\<^sup>* (?st (Waiting scr [] [\<lparr>modelReplica = c # rest, rp_withModelKey = k\<rparr>])) (?st (Weighing scr [] []))"
    by (rule converse_rtranclp_into_rtranclp [where r = isys_step], rule agg, rule r_into_rtranclp, rule skip)
  moreover have "run_move env ?n LoopMove (Weighing scr [] []) (w, cl) = Some (Panic IndexOutOfRange, (w, cl))"
    by (simp add: write_count_def select_def AddSlice_def)
  then have "run_panics (?st (Weighing scr [] [])) IndexOutOfRange"
    by (intro move_panics [where mv = LoopMove, OF i it]) simp_all
  ultimately show ?thesis by blast
qed

lemma locked_idle: "predictors_locked w (ph(i := InRun AtTicker)) name \<Longrightarrow> predictors_locked w ph name"
proof -
  assume "predictors_locked w (ph(i := InRun AtTicker)) name"
  then obtain j where j: "j \<in> set [0..<length (goroutines w)]" "case (goroutines w ! j, (ph(i := InRun AtTicker)) j) of
      (RunLoop s, InRun pc) \<Rightarrow> sched_Name s = name \<and> holds_lock pc | _ \<Rightarrow> False"
    unfolding predictors_locked_def by blast
  then have "j \<noteq> i" by (auto split: goroutine.splits)
  with j show ?thesis unfolding predictors_locked_def by (intro bexI [of _ j]) simp_all
qed

text \<open>From the ticker to the result of the only prediction.\<close>

lemma forecast_steps:
  fixes w :: "'c world" and env :: "'c tick_env"
  assumes it: "fair_iter (tick_iter env)" and f: "one_forecast w (the_hide (sched_Name s) w) k p wk m"
    and sc: "hide_Scaler (the_hide (sched_Name s) w) = Some sc"
    and served: "serves_target (tick_k8s env) (k8s_client w) view sc cl cur" and t: "ParseFloat (Target m) = Ret t"
    and i: "i < length (goroutines w)" "goroutines w ! i = RunLoop s" and free: "\<not> predictors_locked w ph (sched_Name s)"
  shows "\<exists>rest w'. only_samples (snd (GetHide (sched_Name s) w)) w' \<and> evolves w w' \<and>
    isys_step\<^sup>*\<^sup>* (w, cl, sg, ph(i := InRun AtTicker)) (w', cl, sg, ph(i := InRun (Waiting (Some sc) []
      [\<lparr>modelReplica = count_for (tick_oob env) t (oldest p wk) # rest, rp_withModelKey = k\<rparr>])))"
proof -
  let ?n = "sched_Name s" and ?w0 = "snd (GetHide (sched_Name s) w)"
  from forecast_moves [OF it f sc served t] obtain e task rest w' where w': "only_samples ?w0 w'"
    and mv: "run_move env ?n LoopMove AtTicker (w, cl) = Some (Ret (Starting (Some sc) [e] None [] []), (?w0, cl))"
    "run_move env ?n LoopMove (Starting (Some sc) [e] None [] []) (?w0, cl) =
      Some (Ret (Starting (Some sc) [] None [task] []), (?w0, cl))"
    "run_move env ?n (TaskMove 0) (Waiting (Some sc) [task] []) (?w0, cl) = Some (Ret (Waiting (Some sc) []
        [\<lparr>modelReplica = count_for (tick_oob env) t (oldest p wk) # rest, rp_withModelKey = k\<rparr>]), (w', cl))" by blast
  have e0: "evolves w ?w0" by (rule always_snd [OF evolves_GetHide])
  note i0 = evolves_nth [OF e0 i(1), unfolded i(2)]
  have "isys_step (w, cl, sg, ph(i := InRun AtTicker)) (?w0, cl, sg, ph(i := InRun (Starting (Some sc) [e] None [] [])))"
    using run [OF i _ it _ mv(1), of "ph(i := InRun AtTicker)" sg] free locked_idle [of w ph i ?n] by auto
  moreover have "isys_step (?w0, cl, sg, ph(i := InRun (Starting (Some sc) [e] None [] [])))
      (?w0, cl, sg, ph(i := InRun (Starting (Some sc) [] None [task] [])))"
    by (rule move_step [OF conjunct1 [OF i0] conjunct2 [OF i0] it _ mv(2)]) simp
  moreover have "isys_step (?w0, cl, sg, ph(i := InRun (Starting (Some sc) [] None [task] [])))
      (?w0, cl, sg, ph(i := InRun (Waiting (Some sc) [task] [])))"
    by (rule move_step [OF conjunct1 [OF i0] conjunct2 [OF i0] it, where mv = LoopMove]) simp_all
  moreover have "isys_step (?w0, cl, sg, ph(i := InRun (Waiting (Some sc) [task] []))) (w', cl, sg, ph(i := InRun (Waiting (Some sc) []
      [\<lparr>modelReplica = count_for (tick_oob env) t (oldest p wk) # rest, rp_withModelKey = k\<rparr>])))"
    by (rule move_step [OF conjunct1 [OF i0] conjunct2 [OF i0] it _ mv(3)]) simp
  moreover have "evolves w w'" using evolves_trans [OF e0 only_samples_evolves [OF w']] .
  ultimately show ?thesis using w'
    by (intro exI [of _ rest] exI [of _ w']) (meson converse_rtranclp_into_rtranclp rtranclp.rtrancl_refl)
qed

text \<open>The start of an update and its first handler.\<close>

lemma removal_steps:
  fixes w :: "'c world" and env :: "'c env"
  assumes "good w" and wf: "wf_spec (Spec inst)"
    and gen: "0 < StatusGeneration inst" "StatusGeneration inst < Generation inst" and client: "fst (new_client env w) = Ret ()"
  shows "\<exists>u. evolves w u \<and> cm_dom (MetricMap (the_hide (aom_name inst) u)) = metric_keys (Spec inst) \<and>
    isys_step\<^sup>*\<^sup>* (w, cl, NoReconcile, ph) (u, cl, AtModels inst, ph)"
proof -
  let ?n = "aom_name inst"
  obtain v where v: "new_client env w = (Ret (), v)" using client by (cases "new_client env w") auto
  then have start: "start_stage env inst w = (Ret (AtMetrics inst), v)" using gen by (simp add: start_stage_def)
  from start_stage_step [OF this wf assms(1)] have vok: "good v" "evolves w v" "stage_ok v (AtMetrics inst)" by auto
  have "in_shape ?n (shape_of ?n v) v" using vok(1) by (simp add: good_def in_shape_def)
  from triple_returnsD [OF handleMetrics_triple [OF fair_iter_id wf] this] obtain u where
    u: "handleMetrics (\<lambda>_ ks. ks) ?n (Spec inst) v = (Ret (), u)"
    "in_shape ?n ((shape_of ?n v)\<lparr>metric_dom := metric_keys (Spec inst)\<rparr>) u" by auto
  then have metrics: "next_stage env (\<lambda>_ ks. ks) (AtMetrics inst) v = (Ret (AtModels inst), u)" by simp
  have "isys_step\<^sup>*\<^sup>* (w, cl, NoReconcile, ph) (u, cl, AtModels inst, ph)"
    by (rule converse_rtranclp_into_rtranclp [where r = isys_step], rule begin_step [OF wf start], rule r_into_rtranclp,
        rule stage_step [OF fair_iter_id _ _ metrics]) (simp_all add: may_lock_def)
  moreover have "evolves w u"
    using evolves_trans [OF vok(2)] next_stage_good [OF fair_iter_id vok(1,3), of env] metrics by simp
  moreover have "cm_dom (MetricMap (the_hide ?n u)) = metric_keys (Spec inst)"
    using arg_cong [of _ _ metric_dom, OF conjunct2 [OF u(2) [unfolded in_shape_def]]] by (simp add: shape_of_def shape_hide_def)
  ultimately show ?thesis by blast
qed

section \<open>An instance that is created and collects its samples\<close>

lemma running_GetHide: "running name m p sc wk a ch (snd (GetHide n w)) = running name m p sc wk a ch w"
proof -
  have "channels (snd (GetHide n w)) = channels w" by (simp add: GetHide_def Let_def split: option.splits)
  then show ?thesis by (simp add: running_def tick_GetHide)
qed

lemma turns_steps:
  assumes "turns lib name a ch nows w = Some w'" and "j < length (goroutines w)" and "goroutines w ! j = StartWorkerLoop name a ch iv"
    and "ph j = Looping False"
  shows "isys_step\<^sup>*\<^sup>* (w, cl, sg, ph) (w', cl, sg, ph) \<and> evolves w w'"
  using assms(1-3)
proof (induction nows arbitrary: w)
  case (Cons now nows)
  then obtain v where v: "worker_turn lib now False name a ch False w = (Ret (Going False), v)" "turns lib name a ch nows v = Some w'"
    by (auto split: prod.splits go.splits turn.splits bool.splits)
  have e: "evolves w v" by (rule only_samples_evolves [OF worker_turn_samples [OF v(1)]])
  have "isys_step (w, cl, sg, ph) (v, cl, sg, ph(j := Looping False))"
    using iturn [where ph = ph and i = j and t = "Going False", OF Cons.prems(2,3) assms(4) v(1)] by simp
  moreover have "ph(j := Looping False) = ph" using assms(4) by (rule fun_upd_idem)
  moreover have "isys_step\<^sup>*\<^sup>* (v, cl, sg, ph) (w', cl, sg, ph) \<and> evolves v w'"
    by (rule Cons.IH [OF v(2)]) (use evolves_nth [OF e Cons.prems(2)] Cons.prems(3) in simp_all)
  ultimately show ?case using evolves_trans [OF e] by (metis converse_rtranclp_into_rtranclp)
qed simp

text \<open>The start of the operator, with the Kubernetes client in any state.\<close>

definition start_with :: "'c k8s_state \<Rightarrow> 'c world" where
  "start_with k = start_world\<lparr>k8s_client := k\<rparr>"

lemma start_with_initial: "start_with \<lparr>GlobalClient = None, once_done = False\<rparr> = start_world"
  by (simp add: start_with_def start_world_def)

lemma hw_created:
  assumes "fst (NewClient demo_libs k) = Ret ()"
  shows "\<exists>w pc p a ch. Handle rising_env (\<lambda>_. rev) hw_inst (start_with k) = (Ret (), w) \<and> client pc = Some 0 \<and>
     running (aom_name hw_inst) (sample_metric ''cpu'' ''5'' 100) p (the_scaler (aom_name hw_inst) (Spec hw_inst))
       (worker_of (sample_metric ''cpu'' ''5'' 100) pc) a ch w \<and>
     StartWorkerLoop (aom_name hw_inst) a ch 15 \<in> set (goroutines w) \<and>
     RunLoop \<lparr>sched_Name = aom_name hw_inst, Interval = seconds 30\<rparr> \<in> set (goroutines w) \<and> k8s_client w = snd (NewClient demo_libs k) \<and> fits p 4"
proof -
  let ?m = "sample_metric ''cpu'' ''5'' 100" and ?w = "start_with k"
  obtain p where p: "hw_New (length (collectors ?w)) (attr_map hw_model) (WithModelKey ?m ''holt_winter'') = Ret p" "fits p 4"
    using hw_attr_fields [of "length (collectors ?w)" "WithModelKey ?m ''holt_winter''"] by (auto simp: attr_map_def hw_model_def)
  have spec: "one_model (Spec hw_inst) ?m hw_model" "ScrapeInterval (Spec hw_inst) = 15" "spec_Interval (Spec hw_inst) = 30"
    by (simp_all add: one_model_def hw_inst_def spec_of_def)
  have model: "Type hw_model = ''holt_winter''" "\<not> NeedTrain hw_model" by (simp_all add: hw_model_def)
  have gen: "StatusGeneration hw_inst = 0" "Generation hw_inst \<noteq> 0" by (simp_all add: hw_inst_def demo_inst_def)
  have fresh: "map_of (globalStore ?w) (aom_name hw_inst) = None" "map_of (schedulers ?w) (aom_name hw_inst) = None"
    by (simp_all add: start_with_def start_world_def)
  have env: "fst (new_client rising_env ?w) = Ret ()" "k8s_client (snd (new_client rising_env ?w)) = snd (NewClient demo_libs k)"
    "api_NewClient (env_prom rising_env) (CollectorAddress (Spec hw_inst)) = Inr 0" "accepts_status rising_env"
    using assms by (auto simp: new_client_def start_with_def rising_env_def demo_env_def accepts_status_def split: prod.splits)
  have "promc_ready ?w" using good_client [OF start_good [where 'a = "target \<Rightarrow> int32"]] by (simp add: good_def start_with_def)
  from one_Handle [OF fair_iter_rev spec(1) model this fresh gen env(1,3,4) p(1)] spec(2,3) env(2) p(2)
  show ?thesis by metis
qed

text \<open>From the start of the operator to a tick that is about to begin, with the readings 10, 11, 12 and 13.\<close>

lemma hw_reached_with:
  assumes "fst (NewClient demo_libs k) = Ret ()"
  shows "\<exists>w ph i s p wk a ch. isys_step\<^sup>*\<^sup>* (start_with k, \<lambda>_. 1, NoReconcile, \<lambda>_. Unstarted) (w, \<lambda>_. 1, NoReconcile, ph(i := InRun AtTicker)) \<and>
     running (aom_name hw_inst) (sample_metric ''cpu'' ''5'' 100) p (the_scaler (aom_name hw_inst) (Spec hw_inst)) wk a ch w \<and>
     enough_samples p wk \<and> k8s_client w = snd (NewClient demo_libs k) \<and> i < length (goroutines w) \<and> goroutines w ! i = RunLoop s \<and>
     sched_Name s = aom_name hw_inst \<and> \<not> predictors_locked w ph (aom_name hw_inst)"
proof -
  let ?n = "aom_name hw_inst" and ?m = "sample_metric ''cpu'' ''5'' 100" and ?sc = "the_scaler (aom_name hw_inst) (Spec hw_inst)"
  let ?cl = "(\<lambda>_. 1) :: target \<Rightarrow> int32" and ?s = "\<lparr>sched_Name = aom_name hw_inst, Interval = seconds 30\<rparr>"
  obtain w1 pc p a ch where w1: "Handle rising_env (\<lambda>_. rev) hw_inst (start_with k) = (Ret (), w1)" "client pc = Some 0"
    "running ?n ?m p ?sc (worker_of ?m pc) a ch w1" "StartWorkerLoop ?n a ch 15 \<in> set (goroutines w1)"
    "RunLoop ?s \<in> set (goroutines w1)" "k8s_client w1 = snd (NewClient demo_libs k)" and p: "fits p 4"
    using hw_created [OF assms] by blast
  obtain j where j: "j < length (goroutines w1)" "goroutines w1 ! j = StartWorkerLoop ?n a ch 15"
    using w1(4) by (auto simp: in_set_conv_nth)
  obtain i where i: "i < length (goroutines w1)" "goroutines w1 ! i = RunLoop ?s" using w1(5) by (auto simp: in_set_conv_nth)
  let ?ph = "(\<lambda>_. Unstarted)(j := Looping False)" and ?v = "snd (GetHide ?n w1)"
  have wf: "wf_spec (Spec hw_inst)" by (auto simp: wf_spec_def wf_map_def keys_def hw_inst_def spec_of_def)
  have "isys_step\<^sup>*\<^sup>* (start_with k, ?cl, NoReconcile, \<lambda>_. Unstarted) (w1, ?cl, NoReconcile, \<lambda>_. Unstarted)"
    by (rule Handle_steps [OF fair_iter_rev _ wf w1(1)]) simp
  moreover have "isys_step (w1, ?cl, NoReconcile, \<lambda>_. Unstarted) (?v, ?cl, NoReconcile, ?ph)"
    by (rule istart_worker [OF j])
      (simp_all add: StartWorker_start_def NewTicker_def seconds_def wrap64_id in64_def prod_eq_iff GetHide_returns)
  moreover have v: "evolves w1 ?v" by (rule always_snd [OF evolves_GetHide])
  have "running ?n ?m p ?sc ((worker_of ?m pc)\<lparr>data := []\<rparr>) a ch ?v"
    using w1(3) by (simp add: running_GetHide worker_of_def)
  from turns_running [OF this w1(2), of "env_prom rising_env" rising "[0, 1, 2, 3]"] obtain w2 where
    turns: "turns (env_prom rising_env) ?n a ch [0, 1, 2, 3] ?v = Some w2" and w2: "k8s_client w2 = k8s_client ?v"
    "running ?n ?m p ?sc ((worker_of ?m pc)\<lparr>data := map rising [0, 1, 2, 3]\<rparr>) a ch w2"
    by (auto simp: rising_env_def answers_def)
  have steps: "isys_step\<^sup>*\<^sup>* (?v, ?cl, NoReconcile, ?ph) (w2, ?cl, NoReconcile, ?ph)" "evolves ?v w2"
    using turns_steps [OF turns, of j 15 ?ph] evolves_nth [OF v j(1)] j(2) by auto
  note gi = evolves_nth [OF evolves_trans [OF v steps(2)] i(1), unfolded i(2)]
  have "i \<noteq> j" using i(2) j(2) by auto
  then have "isys_step (w2, ?cl, NoReconcile, ?ph) (w2, ?cl, NoReconcile, ?ph(i := InRun AtTicker))"
    by (intro istart_run [OF conjunct1 [OF gi] conjunct2 [OF gi]])
      (simp_all add: Run_start_def NewTicker_def seconds_def wrap64_id in64_def)
  ultimately have "isys_step\<^sup>*\<^sup>* (start_with k, ?cl, NoReconcile, \<lambda>_. Unstarted) (w2, ?cl, NoReconcile, ?ph(i := InRun AtTicker))"
    using steps(1) by (meson rtranclp.rtrancl_into_rtrancl rtranclp_trans)
  moreover have "enough_samples p ((worker_of ?m pc)\<lparr>data := map rising [0, 1, 2, 3]\<rparr>)"
    using p by (simp add: enough_samples_def fits_def)
  moreover have "k8s_client w2 = snd (NewClient demo_libs k)" using w2(1) w1(6) by (simp add: tick_GetHide)
  moreover have "\<not> predictors_locked w2 ?ph ?n" by (rule never_locked) (auto split: if_splits)
  ultimately show ?thesis using w2(2) gi
    by (intro exI [of _ w2] exI [of _ ?ph] exI [of _ i] exI [of _ ?s] exI [of _ p]
        exI [of _ "(worker_of ?m pc)\<lparr>data := map rising [0, 1, 2, 3]\<rparr>"] exI [of _ a] exI [of _ ch]) simp
qed

lemma hw_reached:
  "\<exists>w ph i s p wk a ch. isys_step\<^sup>*\<^sup>* (istart (\<lambda>_. 1)) (w, \<lambda>_. 1, NoReconcile, ph(i := InRun AtTicker)) \<and>
     running (aom_name hw_inst) (sample_metric ''cpu'' ''5'' 100) p (the_scaler (aom_name hw_inst) (Spec hw_inst)) wk a ch w \<and>
     enough_samples p wk \<and> k8s_client w = demo_k8s \<and> i < length (goroutines w) \<and> goroutines w ! i = RunLoop s \<and>
     sched_Name s = aom_name hw_inst \<and> \<not> predictors_locked w ph (aom_name hw_inst)"
proof -
  have "NewClient demo_libs \<lparr>GlobalClient = None, once_done = False\<rparr> = (Ret (), demo_k8s)"
    by (simp add: NewClient_def newClient_def demo_libs_def demo_k8s_def)
  then show ?thesis
    using hw_reached_with [of "\<lparr>GlobalClient = None, once_done = False\<rparr>"] by (simp add: start_with_initial istart_def)
qed

section \<open>The Kubernetes client\<close>

text \<open>One step of the system either leaves the client alone or is one more call of \<open>NewClient\<close>.\<close>

definition client_step :: "'c k8s_state \<Rightarrow> 'c k8s_state \<Rightarrow> bool" where
  "client_step k k' \<longleftrightarrow> k' = k \<or> (\<exists>lib. k' = snd (NewClient lib k))"

lemma client_GetHide [simp]: "k8s_client (snd (GetHide n w)) = k8s_client w"
  by (simp add: GetHide_def Let_def split: option.splits)

lemma keeps_open: "keeps k8s_client (open_instance env inst)"
proof -
  have "keeps k8s_client (modify init_promc)" "keeps k8s_client (modify (put_hide name f))"
    "keeps k8s_client (set_server_address lib url)" "keeps k8s_client (GetHide name)" for name f lib url
    by (auto simp: keeps_def init_promc_def set_server_address_def GetHide_def Let_def split: option.splits prod.splits)
  then show ?thesis unfolding open_instance_def by (intro keeps_bind)
qed

lemma start_stage_client:
  assumes "start_stage env inst w = (r, w')"
  shows "client_step (k8s_client w) (k8s_client w')"
proof (cases "StatusGeneration inst = Generation inst")
  case False
  obtain q v where v: "new_client env w = (q, v)" by force
  then have "k8s_client v = snd (NewClient (env_k8s env) (k8s_client w))"
    by (auto simp: new_client_def split: prod.splits)
  moreover have "k8s_client w' = k8s_client v"
    using assms False v keepsD [OF keeps_open]
    by (cases q) (auto simp: start_stage_def bind_act_def return_act_def split: if_splits prod.splits go.splits)
  ultimately show ?thesis by (auto simp: client_step_def)
qed (use assms in \<open>simp add: start_stage_def client_step_def\<close>)

lemma next_stage_client: "k8s_client (snd (next_stage env it sg w)) = k8s_client w"
proof -
  have sched: "k8s_client (snd (start_scheduler inst w)) = k8s_client w" for inst
    by (cases "map_of (schedulers w) (aom_name inst)") (simp_all add: start_scheduler_def GetOrNew_def Let_def)
  note handlers = background_handlers [THEN keeps_client, THEN keeps_snd]
  show ?thesis
  proof (cases sg)
    case (AtEnd inst cs)
    then show ?thesis using sched [of inst]
      by (auto simp: bind_act_def return_act_def lift_go_def split: prod.splits go.splits)
  qed (simp_all add: bind_return_state handlers)
qed

lemma isys_step_client:
  "isys_step st st' \<Longrightarrow> client_step (k8s_client (fst st)) (k8s_client (fst st'))"
proof (induction rule: isys_step.induct)
  case (begin_reconcile inst env w r w' cl ph)
  then show ?case using start_stage_client by simp
next
  case (stage it sg w ph env r w' cl)
  then show ?case using next_stage_client [of env it sg w] by (simp add: client_step_def)
next
  case (istart_worker i w name a ch iv ph h w' cl sg)
  then show ?case using client_GetHide [of name w] by (simp add: client_step_def)
next
  case (iturn i w name a ch iv ph ended lib now ctx_done t w' cl sg)
  from only_samplesD(2) [OF worker_turn_samples [OF iturn(4)]] show ?case by (simp add: client_step_def)
next
  case (run i w s ph pc tenv mv cl pc' w' cl' sg)
  from run_move_samples [OF run(6)] show ?case using only_samplesD(2) by (auto simp: client_step_def)
qed (simp_all add: client_step_def)

lemma isys_client:
  assumes "isys_step\<^sup>*\<^sup>* st st'"
  shows "GlobalClient (k8s_client (fst st)) \<noteq> None \<Longrightarrow> once_done (k8s_client (fst st)) \<Longrightarrow> GlobalClient (k8s_client (fst st')) \<noteq> None"
    and "once_done (k8s_client (fst st)) \<Longrightarrow> k8s_client (fst st') = k8s_client (fst st)"
proof -
  have step: "client_step k k' \<Longrightarrow> once_done k \<Longrightarrow> k' = k" for k k' :: "'a k8s_state"
    by (auto simp: client_step_def NewClient_def)
  show same: "once_done (k8s_client (fst st)) \<Longrightarrow> k8s_client (fst st') = k8s_client (fst st)"
    using assms
  proof (induction rule: rtranclp_induct)
    case (step u v)
    then show ?case using \<open>\<And>k' k. client_step k k' \<Longrightarrow> once_done k \<Longrightarrow> k' = k\<close> isys_step_client [OF step(2)] by metis
  qed simp
  show "GlobalClient (k8s_client (fst st')) \<noteq> None"
    if "GlobalClient (k8s_client (fst st)) \<noteq> None" "once_done (k8s_client (fst st))"
    using same that by simp
qed

lemma client_done:
  assumes "isys_step\<^sup>*\<^sup>* (istart cl) st"
  shows "GlobalClient (k8s_client (fst st)) \<noteq> None \<longrightarrow> once_done (k8s_client (fst st))"
  using assms
proof (induction rule: rtranclp_induct)
  case base
  then show ?case by (simp add: istart_def start_world_def)
next
  case (step u v)
  with isys_step_client [OF step(2)] show ?case using NewClient_once by (auto simp: client_step_def)
qed

section \<open>Properties\<close>

text \<open>C2: with the goroutines interleaved between the stages of a reconciliation and between the steps of a tick,
  every state the operator can reach is still safe: every pointer in the maps leads to an object of
  its kind filed under its own key, every goroutine holds what it works on, and so does every tick that is
  under way, with the predictors it has yet to visit and the predictions it has started, whatever a
  reconciliation has removed from the maps since.\<close>

theorem interleaved_safe:
  assumes "isys_step\<^sup>*\<^sup>* (istart cl0) (w, cl, sg, ph)"
  shows "world_ok w \<and> list_all (gor_ok w) (goroutines w) \<and> (\<forall>i pc. ph i = InRun pc \<longrightarrow> pc_ok w pc)"
  using ireachable_ok [OF assms] by (simp add: isys_ok_def good_def procs_ok_def list_all_iff)

theorem interleaved_safe_witness:
  "\<exists>(w :: (target \<Rightarrow> int32) world) s. world_ok w \<and> RunLoop s \<in> set (goroutines w) \<and> gor_ok w (RunLoop s) \<and>
     pc_ok w AtTicker"
proof -
  obtain w :: "(target \<Rightarrow> int32) world" and ph i s where
    w: "isys_step\<^sup>*\<^sup>* (istart (\<lambda>_. 1)) (w, \<lambda>_. 1, NoReconcile, ph(i := InRun AtTicker))" "i < length (goroutines w)"
    "goroutines w ! i = RunLoop s"
    using hw_reached by blast
  from interleaved_safe [OF w(1)] w(2,3) show ?thesis by (metis fun_upd_same list_all_length nth_mem)
qed

text \<open>C10: in this interleaving, from the moment the Kubernetes client has been made, no move of a scheduler
  or of one of its goroutines ever dereferences a nil pointer: the client stays, and everything else
  that a tick holds was made before it.\<close>

theorem interleaved_no_nil:
  assumes "isys_step\<^sup>*\<^sup>* (istart cl0) (w, cl, sg, ph)" and "client_set w" and "isys_step\<^sup>*\<^sup>* (w, cl, sg, ph) st"
  shows "\<not> run_panics st NilDereference"
proof
  obtain v cv sgv pv where st: "st = (v, cv, sgv, pv)" by (cases st) auto
  have reach: "isys_step\<^sup>*\<^sup>* (istart cl0) (v, cv, sgv, pv)" using rtranclp_trans [OF assms(1,3)] st by simp
  have "once_done (k8s_client w)" using client_done [OF assms(1)] assms(2) by (simp add: client_set_def)
  then have client: "client_set v" using isys_client(2) [OF assms(3)] assms(2) st by (simp add: client_set_def)
  assume "run_panics st NilDereference"
  then obtain i s pc tenv mv w' cl' where i: "pv i = InRun pc" "goroutines v ! i = RunLoop s"
    "run_move tenv (sched_Name s) mv pc (v, cv) = Some (Panic NilDereference, (w', cl'))"
    by (auto simp: run_panics_def st)
  have "world_ok v" "pc_ok v pc" using ireachable_ok [OF reach] i(1) by (auto simp: isys_ok_def good_def)
  from run_move_no_nil [OF this client i(3)] show False by simp
qed

theorem interleaved_no_nil_witness:
  "\<exists>(w :: (target \<Rightarrow> int32) world) ph i s. goroutines w ! i = RunLoop s \<and>
     \<not> run_panics (w, \<lambda>_. 1, NoReconcile, ph(i := InRun AtTicker)) NilDereference"
proof -
  obtain w :: "(target \<Rightarrow> int32) world" and ph i s where
    w: "isys_step\<^sup>*\<^sup>* (istart (\<lambda>_. 1)) (w, \<lambda>_. 1, NoReconcile, ph(i := InRun AtTicker))" "k8s_client w = demo_k8s"
    "goroutines w ! i = RunLoop s"
    using hw_reached by blast
  have "client_set w" using w(2) by (simp add: client_set_def demo_k8s_def)
  from interleaved_no_nil [OF w(1) this rtranclp.rtrancl_refl] w(3) show ?thesis by blast
qed

text \<open>C3: an update that removes the metric of an instance while a tick of the instance is waiting for its
  prediction crashes the operator. The tick that nobody interrupts returns; but if the update begins
  after the prediction and its first handler ends before the tick looks the metric up again to weight the
  counts, the tick has no list of counts left to add up, and the first access panics.\<close>

theorem removal_during_tick_panics:
  fixes w :: "'c world" and env :: "'c env" and tenv :: "'c tick_env" and inst :: AOM
  assumes "good w" and "running name m p sc wk a ch w" and "enough_samples p wk" and "ParseFloat (Target m) = Ret t"
    and "serves_target (tick_k8s tenv) (k8s_client w) view sc cl cur" and "fair_iter (tick_iter tenv)" and "fair_order tenv"
    and "i < length (goroutines w)" and "goroutines w ! i = RunLoop s" and "sched_Name s = name" and "\<not> predictors_locked w ph name"
    and "aom_name inst = name" and "wf_spec (Spec inst)" and "NoModelKey m \<notin> metric_keys (Spec inst)"
    and "0 < StatusGeneration inst" and "StatusGeneration inst < Generation inst" and "\<And>v. fst (new_client env v) = Ret ()"
  shows "(\<exists>st'. tick tenv s (w, cl) = Some (Ret (), st')) \<and>
    (\<exists>st. isys_step\<^sup>*\<^sup>* (w, cl, NoReconcile, ph(i := InRun AtTicker)) st \<and> run_panics st IndexOutOfRange)"
proof
  have f: "one_forecast w (the_hide name w) (WithModelKey m ''holt_winter'') p wk m" by (rule running_forecast [OF assms(2,3)])
  have sc: "hide_Scaler (the_hide name w) = Some sc" using assms(2) by (simp add: running_def Let_def)
  note f = f [folded assms(10)] and sc = sc [folded assms(10)]
  show "\<exists>st'. tick tenv s (w, cl) = Some (Ret (), st')"
    using tick_one_forecast [OF assms(6,7) f sc assms(5,4)] by blast
  let ?res = "\<lambda>rest. [\<lparr>modelReplica = count_for (tick_oob tenv) t (oldest p wk) # rest, rp_withModelKey = WithModelKey m ''holt_winter''\<rparr>]"
  obtain rest w' where w': "only_samples (snd (GetHide name w)) w'" "evolves w w'" and run:
    "isys_step\<^sup>*\<^sup>* (w, cl, NoReconcile, ph(i := InRun AtTicker)) (w', cl, NoReconcile, ph(i := InRun (Waiting (Some sc) [] (?res rest))))"
    using forecast_steps [OF assms(6) f sc assms(5,4,8,9)] assms(10,11) by blast
  have "good w'" using only_samples_good [OF w'(1) good_GetHide [OF assms(1)]] .
  from removal_steps [OF this assms(13,15,16,17)] obtain u where u: "evolves w' u"
    "cm_dom (MetricMap (the_hide name u)) = metric_keys (Spec inst)" and update:
    "isys_step\<^sup>*\<^sup>* (w', cl, NoReconcile, ph(i := InRun (Waiting (Some sc) [] (?res rest))))
       (u, cl, AtModels inst, ph(i := InRun (Waiting (Some sc) [] (?res rest))))"
    using assms(12) by blast
  note i = evolves_nth [OF evolves_trans [OF w'(2) u(1)] assms(8), unfolded assms(9)]
  have "GetNoModelKey (WithModelKey m ''holt_winter'') = NoModelKey m" by (simp add: WithModelKey_eq plain_def)
  then have "GetNoModelKey (WithModelKey m ''holt_winter'') \<notin> cm_dom (MetricMap (the_hide (sched_Name s) u))"
    using u(2) assms(10,14) by simp
  from gone_panics [OF conjunct1 [OF i] conjunct2 [OF i] assms(6) this]
  show "\<exists>st. isys_step\<^sup>*\<^sup>* (w, cl, NoReconcile, ph(i := InRun AtTicker)) st \<and> run_panics st IndexOutOfRange"
    using rtranclp_trans [OF rtranclp_trans [OF run update]] by blast
qed

text \<open>The whole way there from the start of the operator: the instance is created, collects four samples, a tick
  predicts them, and an update to a spec without metrics comes in between.\<close>

definition bare_inst :: AOM where
  "bare_inst = hw_inst\<lparr>Generation := 2, StatusGeneration := 1, Spec := spec_of [] []\<rparr>"

theorem removal_during_tick_panics_witness:
  "\<exists>st. isys_step\<^sup>*\<^sup>* (istart (\<lambda>_ :: target. 1 :: int32)) st \<and> run_panics st IndexOutOfRange"
proof -
  let ?n = "aom_name hw_inst" and ?cl = "(\<lambda>_. 1) :: target \<Rightarrow> int32" and ?sc = "the_scaler (aom_name hw_inst) (Spec hw_inst)"
  let ?m = "sample_metric ''cpu'' ''5'' 100"
  obtain w :: "(target \<Rightarrow> int32) world" and ph i s p wk a ch where
    w: "isys_step\<^sup>*\<^sup>* (istart ?cl) (w, ?cl, NoReconcile, ph(i := InRun AtTicker))"
    "running ?n ?m p ?sc wk a ch w" "enough_samples p wk" "k8s_client w = demo_k8s" "i < length (goroutines w)"
    "goroutines w ! i = RunLoop s" "sched_Name s = ?n" "\<not> predictors_locked w ph ?n"
    using hw_reached by blast
  have "good w" using ireachable_ok [OF w(1)] by (simp add: isys_ok_def)
  moreover have "serves_target (tick_k8s hw_env) (k8s_client w) demo_view ?sc ?cl 1"
    by (simp add: w(4) serves_target_def hw_env_def demo_view_def)
  moreover have "aom_name bare_inst = ?n" "wf_spec (Spec bare_inst)" "NoModelKey ?m \<notin> metric_keys (Spec bare_inst)"
    "0 < StatusGeneration bare_inst" "StatusGeneration bare_inst < Generation bare_inst"
    by (simp_all add: bare_inst_def wf_spec_def wf_map_def keys_def spec_of_def metric_keys_def)
  ultimately obtain st where "isys_step\<^sup>*\<^sup>* (w, ?cl, NoReconcile, ph(i := InRun AtTicker)) st" "run_panics st IndexOutOfRange"
    using removal_during_tick_panics [OF _ w(2,3) hw_target _ hw_env_fair w(5-8), of demo_view ?cl 1 bare_inst demo_env]
      demo_client_any by blast
  with rtranclp_trans [OF w(1)] show ?thesis by blast
qed

end
