(* ===== verification/TickEnds.thy ===== *)
theory TickEnds
  imports TickSteps
begin

text \<open>
  How long a tick takes: the loop \<open>Run\<close> makes a bounded number of moves between two ticks of the
  ticker, whatever the other goroutines do to the shared state between them.
\<close>

section \<open>The work left\<close>

text \<open>Moves that are left at most. A predictor that has not been visited stands for its visit, its training, its
  prediction and the weighting of the counts this sends.\<close>

fun work :: "run_pc \<Rightarrow> nat" where
  "work AtTicker = 0"
| "work (Starting scr todo tr live results) =
     4 * length todo + length (in_training tr) + 2 * length live + length results + 3"
| "work (Waiting scr live results) = 2 * length live + length results + 2"
| "work (Weighing scr todo mReplicas) = length todo + 1"

lemma predict_task_length:
  "predict_task env scr k p m st = Some (Ret rs, st') \<Longrightarrow> length rs \<le> 1"
  by (auto simp: predict_task_def Let_def split: prod.splits option.splits go.splits)

lemma train_task_sends_none: "train_task env a st = (Ret rs, st') \<Longrightarrow> rs = []"
  by (auto simp: train_task_def Let_def split: prod.splits option.splits go.splits)

lemma run_task_length: "run_task env scr t st = Some (Ret rs, st') \<Longrightarrow> length rs \<le> 1"
  by (cases t) (auto dest: predict_task_length train_task_sends_none)

lemma tasks_for_length:
  "tasks_for now w h e = Ret ts \<Longrightarrow> 2 * length (started ts) + length (in_training (training ts)) \<le> 3"
  by (auto simp: tasks_for_def in_training_def Let_def split: prod.splits go.splits option.splits if_splits)

lemma length_update_le: "length (AList.update k v m) \<le> Suc (length m)"
  by (induction m) auto

lemma model_replicas_length: "length (model_replicas results) \<le> length results"
proof -
  have step: "length (add_result pair m) \<le> Suc (length m)" for pair m
    by (auto simp: add_result_def Let_def length_update_le split: option.splits)
  have "length (fold add_result rs m) \<le> length m + length rs" for rs m
  proof (induction rs arbitrary: m)
    case (Cons r rs)
    show ?case using le_trans [OF Cons.IH [of "add_result r m"]] step [of r m] by simp
  qed simp
  from this [of results "[]"] show ?thesis by (simp add: model_replicas_def)
qed

lemma metric_replicas_length:
  assumes "fair_iter it" and "metric_replicas it m = Ret mr"
  shows "length mr \<le> length m"
proof -
  have "fold_go (\<lambda>(k, rs) acc. and_then (GetMetricReplica rs MaxStrategy) (\<lambda>r. Ret (AList.update k r acc))) es acc = Ret mr \<Longrightarrow>
      length mr \<le> length acc + length es" for es acc
  proof (induction es arbitrary: acc)
    case (Cons e es)
    then obtain r where "length mr \<le> length (AList.update (fst e) r acc) + length es"
      by (cases e) (auto simp: go_simps)
    then show ?case using length_update_le [of "fst e" r acc] by simp
  qed simp
  from this [of "entries it 21 m" "[]"] assms show ?thesis by (simp add: metric_replicas_def)
qed

lemma aggregate_work:
  assumes "fair_iter it" and "aggregate it scr results = Ret pc"
  shows "work pc < length results + 2"
  using assms metric_replicas_length [OF assms(1), of "model_replicas results"] model_replicas_length [of results]
  by (fastforce simp: aggregate_def go_simps split: if_splits)

lemma length_delete_at: "i < length xs \<Longrightarrow> Suc (length (delete_at i xs)) = length xs"
  by (simp add: delete_at_def)

lemma task_move_work:
  assumes "task_move env i pc st = Some (Ret pc', st')"
  shows "work pc' < work pc"
proof -
  obtain scr live rs where live: "live_of pc = Some (scr, live)" "i < length live" "pc' = sent i rs pc"
    and run: "run_task env scr (live ! i) st = Some (Ret rs, st')"
    using assms by (auto simp: task_move_def go_simps split: option.splits if_splits prod.splits)
  show ?thesis using live length_delete_at [OF live(2)] run_task_length [OF run] by (cases pc) auto
qed

lemma loop_move_work:
  assumes "fair_iter (tick_iter env)" and "pc \<noteq> AtTicker" and "loop_move env name pc st = Some (Ret pc', st')"
  shows "work pc' < work pc"
  using assms(2,3)
proof (cases "(env, name, pc, st)" rule: loop_move.cases)
  case (2 env' name' scr todo a live results st)
  then show ?thesis using assms(3) train_task_sends_none [of env a st]
    by (cases st') (auto simp: go_simps in_training_def split: prod.splits)
next
  case (3 env' name' scr entry todo live results st)
  then show ?thesis using assms(3) tasks_for_length by (fastforce simp: visit_def go_simps in_training_def)
next
  case (6 env' name' scr results st)
  then show ?thesis using assms(1,3) aggregate_work by fastforce
next
  case (8 env' name' scr mReplicas st)
  then have "pc' = AtTicker" using assms(3) by (auto simp: write_count_def split: prod.splits go.splits)
  with 8 show ?thesis by simp
qed (auto simp: go_simps in_training_def)

lemma run_move_work:
  "fair_iter (tick_iter env) \<Longrightarrow> pc \<noteq> AtTicker \<Longrightarrow> run_move env name mv pc st = Some (Ret pc', st') \<Longrightarrow> work pc' < work pc"
  by (cases mv) (simp_all add: loop_move_work task_move_work)

section \<open>A tick among others\<close>

text \<open>The moves of one tick, each from whatever state the others have left and in whatever environment.\<close>

fun interrupted :: "NamespacedName \<Rightarrow> ('c tick_env \<times> move \<times> 'c state) list \<Rightarrow> run_pc \<Rightarrow> run_pc option" where
  "interrupted name [] pc = Some pc"
| "interrupted name ((env, mv, st) # mvs) pc =
     (if pc = AtTicker then None
      else case run_move env name mv pc st of
             Some (Ret pc', st') \<Rightarrow> interrupted name mvs pc'
           | _ \<Rightarrow> None)"

lemma interrupted_work:
  "interrupted name mvs pc = Some pc' \<Longrightarrow> \<forall>(env, mv, st) \<in> set mvs. fair_iter (tick_iter env) \<Longrightarrow>
    length mvs + work pc' \<le> work pc"
proof (induction name mvs pc rule: interrupted.induct)
  case (2 name env mv st mvs pc)
  then obtain pc1 st1 where m: "pc \<noteq> AtTicker" "run_move env name mv pc st = Some (Ret pc1, st1)" "interrupted name mvs pc1 = Some pc'"
    by (auto split: if_splits option.splits prod.splits go.splits)
  have "length mvs + work pc' \<le> work pc1" using 2 m by auto
  with run_move_work [OF _ m(1,2)] 2(3) show ?case by force
qed simp

text \<open>The loop waits only for its goroutines.\<close>

lemma loop_move_None: "loop_move env name pc st = None \<longleftrightarrow> (\<exists>scr t live results. pc = Waiting scr (t # live) results)"
  by (cases "(env, name, pc, st)" rule: loop_move.cases) (auto split: prod.splits)

section \<open>Property\<close>

text \<open>C11: a tick that has begun over \<open>n\<close> predictors makes at most \<open>4 n + 3\<close> moves of its own until it is back at its
  ticker, whatever reconciliations, collectors and other ticks do to the maps between any two of
  them; and until then its loop can always go on, except while it waits for a prediction that has not returned.
  The dial and the write of a training, which the loop makes itself, are taken to return.\<close>

theorem tick_moves_bounded:
  assumes "fair_iter (tick_iter env)" and "begin_tick env name (w, cl) = (Ret pc, st)"
    and "interrupted name mvs pc = Some pc'" and "\<forall>(env, mv, st) \<in> set mvs. fair_iter (tick_iter env)"
  shows "length mvs \<le> 4 * length (cm_data (PredictorMap (the_hide name w))) + 3 \<and>
    (loop_move env' name pc' st' \<noteq> None \<or> (\<exists>scr t live results. pc' = Waiting scr (t # live) results))"
proof -
  have "work pc = 4 * length (cm_data (PredictorMap (the_hide name w))) + 3"
    using assms(1,2) by (auto simp: begin_tick_def Let_def in_training_def tick_GetHide)
  with interrupted_work [OF assms(3,4)] loop_move_None [of env' name pc' st'] show ?thesis by auto
qed

text \<open>The moves of a tick with one prediction, between the prediction and the weighting of which its metric
  disappears with everything else.\<close>

theorem tick_moves_bounded_witness:
  "\<exists>(mvs :: ((target \<Rightarrow> int32) tick_env \<times> move \<times> (target \<Rightarrow> int32) state) list) scr pc.
     begin_tick hw_env (sched_Name demo_sched) (hw_world, \<lambda>_. 1) = (Ret pc, (snd (GetHide (sched_Name demo_sched) hw_world), \<lambda>_. 1)) \<and>
     interrupted (sched_Name demo_sched) mvs pc = Some (Weighing scr [] []) \<and> length mvs = 5 \<and>
     length mvs \<le> 4 * length (cm_data (PredictorMap (the_hide (sched_Name demo_sched) hw_world))) + 3"
proof -
  let ?n = "sched_Name demo_sched" and ?st = "\<lambda>w. (w, (\<lambda>_. 1) :: target \<Rightarrow> int32)"
  let ?w0 = "snd (GetHide ?n hw_world)" and ?c = "count_for (tick_oob hw_env) (Fin False 5) (oldest demo_hw sampled)"
  from forecast_moves [OF hw_env_fair(1) hw_one_forecast hw_hide hw_served hw_target] obtain e task rest w' where
    mv: "run_move hw_env ?n LoopMove AtTicker (?st hw_world) = Some (Ret (Starting (Some demo_scaler) [e] None [] []), ?st ?w0)"
    "run_move hw_env ?n LoopMove (Starting (Some demo_scaler) [e] None [] []) (?st ?w0) =
      Some (Ret (Starting (Some demo_scaler) [] None [task] []), ?st ?w0)"
    "run_move hw_env ?n (TaskMove 0) (Waiting (Some demo_scaler) [task] []) (?st ?w0) =
      Some (Ret (Waiting (Some demo_scaler) [] [\<lparr>modelReplica = ?c # rest, rp_withModelKey = demo_key\<rparr>]), ?st w')" by blast
  have gone: "weigh ?n (k, r) (start_world :: (target \<Rightarrow> int32) world) [] = Ret []" for k r
    by (simp add: weigh_def start_world_def the_hide_def Hide_Init_def cm_init_def new_Hide_def cm_Load_def cm_data_def)
  let ?mvs = "[(hw_env, LoopMove, ?st ?w0), (hw_env, LoopMove, ?st ?w0), (hw_env, TaskMove 0, ?st ?w0), (hw_env, LoopMove, ?st w'),
      (hw_env, LoopMove, ?st start_world)]"
  have run: "interrupted ?n ?mvs (Starting (Some demo_scaler) [e] None [] []) = Some (Weighing (Some demo_scaler) [] [])"
    using mv(2,3) aggregate_one [OF hw_env_fair(1)] gone by simp
  have begins: "begin_tick hw_env ?n (?st hw_world) = (Ret (Starting (Some demo_scaler) [e] None [] []), ?st ?w0)"
    using mv(1) by simp
  have "length ?mvs \<le> 4 * length (cm_data (PredictorMap (the_hide ?n hw_world))) + 3"
    using tick_moves_bounded [OF hw_env_fair(1) begins run] hw_env_fair(1) by simp
  with begins run show ?thesis
    by (intro exI [of _ ?mvs] exI [of _ "Some demo_scaler"] exI [of _ "Starting (Some demo_scaler) [e] None [] []"] conjI) simp_all
qed

end
