(* ===== verification/SocketClient.thy ===== *)
theory SocketClient
  imports Socket
begin

text \<open>
  clients/socket: a sample client of a Unix socket, with the constructors that are placeholders.
  \<open>io.ReadAll\<close> is the standard library's loop of reads; the room its buffer has at each read is the choice
  of the run time, hence an argument. What the client logs and prints is its result.
\<close>

section \<open>The client\<close>

partial_function (option) ReadAll :: "(nat \<Rightarrow> int) \<Rightarrow> conn \<Rightarrow> string \<Rightarrow> nat \<Rightarrow> string \<Rightarrow> (string \<times> gerr option) option" where
  "ReadAll room c sent k b =
     (let (bytes, err) = conn_read c sent k (room k)
      in if err = Some EOF then Some (b @ bytes, None)
         else if err \<noteq> None then Some (b @ bytes, err)
         else ReadAll room c sent (k + 1) (b @ bytes))"

declare ReadAll.simps [code]

datatype line_out = Logged gerr | Printed gerr | Received string

text \<open>When the dial fails, the panic with its error runs the deferred function, which closes a nil connection:
  the process ends with that second panic. The error of the close is dropped.\<close>

definition client_main :: "dialer \<Rightarrow> (nat \<Rightarrow> int) \<Rightarrow> line_out list go option" where
  "client_main dial room =
     (case dial ''unix'' ''/tmp/uds_socket'' of
        Inl e \<Rightarrow> Some (Panic NilDereference)
      | Inr c \<Rightarrow>
          (let hello = ''hello server'' @ [CHR 0x0A] in case conn_write c hello of
             Some e \<Rightarrow> Some (Ret [Logged e])
           | None \<Rightarrow>
               (case ReadAll room c hello 0 [] of
                  None \<Rightarrow> None
                | Some (bs, err) \<Rightarrow>
                    Some (Ret ((case err of None \<Rightarrow> [] | Some e \<Rightarrow> [Printed e]) @ [Received bs])))))"

definition client_New :: "string \<Rightarrow> unit" where
  "client_New addr = ()"

definition NewServer :: "string \<Rightarrow> unit go" where
  "NewServer addr = Ret ()"

section \<open>What it prints\<close>

text \<open>A peer that sends \<open>chunks\<close>, cut in any way, and ends the stream with \<open>final\<close>.\<close>

definition sends :: "(nat \<Rightarrow> int) \<Rightarrow> string list \<Rightarrow> gerr \<Rightarrow> conn \<Rightarrow> string \<Rightarrow> bool" where
  "sends room chunks final c sent \<longleftrightarrow>
     (\<forall>k. conn_read c sent k (room k) = (if k < length chunks then (chunks ! k, None) else ([], Some final)))"

lemma ReadAll_sends:
  assumes "sends room chunks final c sent" and "k \<le> length chunks"
  shows "ReadAll room c sent k b =
    Some (b @ concat (drop k chunks), if final = EOF then None else Some final)"
  using assms(2)
proof (induction arbitrary: b rule: inc_induct)
  case base
  then show ?case using assms(1) by (subst ReadAll.simps) (simp add: sends_def)
next
  case (step k)
  have "concat (drop k chunks) = chunks ! k @ concat (drop (Suc k) chunks)"
    using step.hyps by (simp flip: Cons_nth_drop_Suc)
  then show ?case using step.hyps step.IH assms(1) by (subst ReadAll.simps) (simp add: sends_def)
qed

text \<open>The client prints all that the peer sent, also when the stream breaks, and then the error before it.\<close>

lemma client_prints:
  assumes "dial ''unix'' ''/tmp/uds_socket'' = Inr c" and "conn_write c (''hello server'' @ [CHR 0x0A]) = None"
    and "sends room chunks final c (''hello server'' @ [CHR 0x0A])"
  shows "client_main dial room =
    Some (Ret ((if final = EOF then [] else [Printed final]) @ [Received (concat chunks)]))"
  using assms(1,2) ReadAll_sends [OF assms(3), of 0 "[]"] by (simp add: client_main_def)

lemma client_without_server: "dial ''unix'' ''/tmp/uds_socket'' = Inl e \<Longrightarrow> client_main dial room = Some (Panic NilDereference)"
  by (simp add: client_main_def)

end
