(* ===== verification/Decision.thy ===== *)
theory Decision
  imports SchedulerSpec
begin

text \<open>
  The decision of a tick over several metrics: which replica counts it can reach from the same predictions. The
  lists of the metrics are added along their diagonal, so the decision depends on the order in which the
  run time visits a Go map.
\<close>

section \<open>Metrics with one result each\<close>

definition metric_of :: "ResPair \<Rightarrow> string" where
  "metric_of p = GetNoModelKey (rp_withModelKey p)"

definition counts_of :: "ResPair list \<Rightarrow> string \<Rightarrow> int32 list" where
  "counts_of results k = the (map_of (map (\<lambda>p. (metric_of p, modelReplica p)) results) k)"

lemma update_fresh: "k \<notin> fst ` set m \<Longrightarrow> AList.update k v m = m @ [(k, v)]"
  by (induction m) auto

lemma fold_add_result:
  "distinct (map metric_of results) \<Longrightarrow> fst ` set m \<inter> metric_of ` set results = {} \<Longrightarrow>
    fold add_result results m = m @ map (\<lambda>p. (metric_of p, [modelReplica p])) results"
proof (induction results arbitrary: m)
  case (Cons p results)
  then have new: "metric_of p \<notin> fst ` set m" by auto
  then have "map_of m (metric_of p) = None" by (simp add: map_of_eq_None_iff)
  with new have "add_result p m = m @ [(metric_of p, [modelReplica p])]"
    by (simp add: add_result_def metric_of_def [symmetric] update_fresh)
  moreover have "fst ` set (m @ [(metric_of p, [modelReplica p])]) \<inter> metric_of ` set results = {}"
    using Cons.prems by auto
  ultimately show ?case using Cons.IH [of "m @ [(metric_of p, [modelReplica p])]"] Cons.prems(1) by simp
qed simp

lemma model_replicas_distinct:
  "distinct (map metric_of results) \<Longrightarrow> model_replicas results = map (\<lambda>p. (metric_of p, [modelReplica p])) results"
  by (simp add: model_replicas_def fold_add_result)

lemma counts_of_eq: "distinct (map metric_of results) \<Longrightarrow> p \<in> set results \<Longrightarrow> counts_of results (metric_of p) = modelReplica p"
  unfolding counts_of_def by (subst map_of_is_SomeI [of _ _ "modelReplica p"]) (auto simp: comp_def)

text \<open>The aggregated counts: those of the only result, with negative ones raised to 0.\<close>

definition row :: "ResPair list \<Rightarrow> string \<Rightarrow> int32 list" where
  "row results k = map (\<lambda>r. max32 r 0) (counts_of results k)"

lemma fold_go_updates:
  assumes "distinct ks" and "fst ` set acc \<inter> set ks = {}" and "\<And>k. k \<in> set ks \<Longrightarrow> f (k, g k) = Ret (h k)"
  shows "fold_go (\<lambda>(k, v) m. and_then (f (k, v)) (\<lambda>r. Ret (AList.update k r m))) (map (\<lambda>k. (k, g k)) ks) acc =
    Ret (acc @ map (\<lambda>k. (k, h k)) ks)"
  using assms
proof (induction ks arbitrary: acc)
  case (Cons k ks)
  then have "AList.update k (h k) acc = acc @ [(k, h k)]" by (intro update_fresh) auto
  then show ?case using Cons.IH [of "acc @ [(k, h k)]"] Cons.prems by auto
qed simp

lemma metric_replicas_distinct:
  assumes "fair_iter it" and "distinct (map metric_of results)"
  shows "metric_replicas it (model_replicas results) = Ret (map (\<lambda>k. (k, row results k)) (it 21 (map metric_of results)))"
proof -
  let ?ks = "it 21 (map metric_of results)"
  have m: "model_replicas results = map (\<lambda>p. (metric_of p, [modelReplica p])) results"
    using assms(2) by (rule model_replicas_distinct)
  have "the (map_of (model_replicas results) k) = [counts_of results k]" if k: "k \<in> set ?ks" for k
  proof -
    obtain p where p: "p \<in> set results" "k = metric_of p" using k assms(1) by auto
    have "map_of (model_replicas results) k = Some [modelReplica p]"
      unfolding m p(2) by (rule map_of_is_SomeI) (use assms(2) p(1) in \<open>auto simp: comp_def\<close>)
    then show ?thesis using counts_of_eq [OF assms(2) p(1)] p(2) by simp
  qed
  then have "entries it 21 (model_replicas results) = map (\<lambda>k. (k, [counts_of results k])) ?ks"
    unfolding entries_def keys_def m by (simp add: comp_def)
  moreover have "distinct ?ks" using distinct_iter [OF assms] .
  ultimately show ?thesis
    unfolding metric_replicas_def
    using fold_go_updates [of ?ks "[]" "\<lambda>(k, v). GetMetricReplica v MaxStrategy" "\<lambda>k. [counts_of results k]" "row results"]
    by (simp add: GetMetricReplica_def MaxStrategy_single row_def)
qed

text \<open>The order in which the weights are applied: what the two iterations make of the metrics.\<close>

definition visited :: "iter \<Rightarrow> ResPair list \<Rightarrow> string list" where
  "visited it results = it 22 (it 21 (map metric_of results))"

lemma mset_visited: "fair_iter it \<Longrightarrow> mset (visited it results) = mset (map metric_of results)"
  by (simp add: visited_def fair_iter_def)

lemma entries_rows: "distinct ks \<Longrightarrow> fair_iter it \<Longrightarrow> entries it n (map (\<lambda>k. (k, f k)) ks) = map (\<lambda>k. (k, f k)) (it n ks)"
  by (simp add: entries_def keys_def comp_def map_of_map_restrict restrict_map_def)

lemma weighted_rows:
  assumes "\<And>k. k \<in> set ks \<Longrightarrow> metric_at w h k (metric k)"
  shows "fold_go (\<lambda>(noModelKey, metricReplica) mReplicas.
         case cm_Load (MetricMap h) noModelKey of
           Ret a \<Rightarrow>
             (case deref (metric_vars w) a of
                None \<Rightarrow> Panic NilDereference
              | Some metric \<Rightarrow> Ret (mReplicas @ [MulSlice (Weight metric) metricReplica]))
         | _ \<Rightarrow> Ret mReplicas) (map (\<lambda>k. (k, f k)) ks) acc =
    Ret (acc @ map (\<lambda>k. MulSlice (Weight (metric k)) (f k)) ks)"
  using assms
proof (induction ks arbitrary: acc)
  case (Cons k ks)
  obtain a where "cm_Load (MetricMap h) k = Ret a" "deref (metric_vars w) a = Some (metric k)"
    using Cons.prems [of k] by (auto simp: metric_at_def)
  then show ?case using Cons.IH [of "acc @ [MulSlice (Weight (metric k)) (f k)]"] Cons.prems by simp
qed simp

section \<open>The decision\<close>

text \<open>The largest of the weighted counts on the diagonal, and of the zeros behind it, divided by 100.\<close>

definition diagonal_count :: "ResPair list \<Rightarrow> (string \<Rightarrow> Metric) \<Rightarrow> nat \<Rightarrow> string list \<Rightarrow> int32" where
  "diagonal_count results metric n ks =
     (let on = map (\<lambda>i. max32 (counts_of results (ks ! i) ! i) 0 * Weight (metric (ks ! i))) [0..<length ks];
          all = on @ replicate (n - length ks) 0
      in word_of_int (sint (fold (\<lambda>y m. max32 m y) (tl all) (hd all)) sdiv 100))"

lemma SelectMax_max32: "xs \<noteq> [] \<Longrightarrow> SelectMax xs = Ret (fold (\<lambda>y m. max32 m y) (tl xs) (hd xs))"
  by (cases xs) (simp_all add: SelectMax_def utils_Max_def max32_def)

lemma decide_visited:
  assumes it: "fair_iter it" and dist: "distinct (map metric_of results)" and ne: "results \<noteq> []"
    and len: "\<forall>p \<in> set results. length (modelReplica p) = n" "length results \<le> n"
    and at: "\<forall>p \<in> set results. metric_at w h (metric_of p) (metric (metric_of p))"
  shows "decide it w h results = Ret (diagonal_count results metric n (visited it results))"
proof -
  let ?ks = "visited it results" and ?mul = "\<lambda>k. MulSlice (Weight (metric k)) (row results k)"
  have ks: "set ?ks = metric_of ` set results" "length ?ks = length results" "distinct ?ks"
    using mset_visited [OF it, of results] dist
    by (metis set_map set_mset_mset, metis length_map size_mset, metis mset_eq_imp_distinct_iff)
  have rows: "length (row results k) = n" if "k \<in> set ?ks" for k
    using that ks(1) counts_of_eq [OF dist] len(1) by (auto simp: row_def)
  have "weighted it w h (map (\<lambda>k. (k, row results k)) (it 21 (map metric_of results))) = Ret (map ?mul ?ks)"
  proof -
    have "metric_at w h k (metric k)" if "k \<in> set ?ks" for k using that at ks(1) by auto
    from weighted_rows [of ?ks w h metric "row results" "[]", OF this] show ?thesis
      using distinct_iter [OF it dist] it by (simp add: weighted_def entries_rows visited_def)
  qed
  moreover have len_mul: "length (?mul k) = n" if "k \<in> set ?ks" for k using rows [OF that] by (simp add: MulSlice_def)
  have ks_ne: "?ks \<noteq> []" using ks(2) ne by auto
  then have hd_len: "length (hd (map ?mul ?ks)) = n" using len_mul by (simp add: hd_map)
  have "AddSlice (map ?mul ?ks) = Ret (diagonal (map ?mul ?ks))"
    using ks(2) ks_ne len(2) hd_len len_mul nth_mem by (intro AddSlice_diagonal) auto
  moreover have diag: "diagonal (map ?mul ?ks) =
      map (\<lambda>i. max32 (counts_of results (?ks ! i) ! i) 0 * Weight (metric (?ks ! i))) [0..<length ?ks] @ replicate (n - length ?ks) 0"
    (is "_ = ?all")
  proof (rule nth_equalityI)
    show "length (diagonal (map ?mul ?ks)) = length ?all" using hd_len ks(2) len(2) by (simp add: diagonal_def)
    fix i assume "i < length (diagonal (map ?mul ?ks))"
    then have i: "i < n" using hd_len by (simp add: diagonal_def)
    show "diagonal (map ?mul ?ks) ! i = ?all ! i"
    proof (cases "i < length ?ks")
      case True
      have "length (counts_of results (?ks ! i)) = n" using rows [OF nth_mem [OF True]] by (simp add: row_def)
      with True i hd_len show ?thesis by (simp add: diagonal_def nth_append MulSlice_def row_def)
    next
      case False
      with i hd_len show ?thesis by (simp add: diagonal_def nth_append)
    qed
  qed
  moreover have "?all \<noteq> []" using ks_ne by simp
  then have "SelectMax ?all = Ret (fold (\<lambda>y m. max32 m y) (tl ?all) (hd ?all))" by (rule SelectMax_max32)
  ultimately show ?thesis
    by (simp add: decide_def metric_replicas_distinct [OF it dist] GetScaleReplica_def quot32_100 diagonal_count_def Let_def)
qed

section \<open>Property\<close>

text \<open>C22: with one prediction of \<open>n\<close> counts for each of at most \<open>n\<close> metrics, the replica counts a tick can decide on
  are exactly these, one for each order in which the run time may visit the metrics: of the metric
  that is visited first the first count is used, of the second the second, and so on along the diagonal, each raised to
  0 at least and multiplied by the weight of the metric; the largest of them (and of 0, when there are
  more counts than metrics) is divided by 100.\<close>

theorem decisions_over_iteration_orders:
  assumes "distinct (map metric_of results)" and "results \<noteq> []"
    and "\<forall>p \<in> set results. length (modelReplica p) = n" and "length results \<le> n"
    and "\<forall>p \<in> set results. metric_at w h (metric_of p) (metric (metric_of p))"
  shows "{decide it w h results | it. fair_iter it} =
    {Ret (diagonal_count results metric n ks) | ks. mset ks = mset (map metric_of results)}"
proof -
  have "\<exists>it. fair_iter it \<and> visited it results = ks" if ks: "mset ks = mset (map metric_of results)" for ks
  proof (intro exI conjI)
    let ?it = "\<lambda>j xs. if j = (22 :: nat) \<and> mset xs = mset ks then ks else xs"
    show "fair_iter ?it" by (simp add: fair_iter_def)
    show "visited ?it results = ks" using ks by (simp add: visited_def)
  qed
  note all = this
  show ?thesis
  proof (intro subset_antisym subsetI)
    fix r assume "r \<in> {decide it w h results | it. fair_iter it}"
    then obtain it where "fair_iter it" "r = decide it w h results" by blast
    with decide_visited [OF _ assms] mset_visited [of it results]
    show "r \<in> {Ret (diagonal_count results metric n ks) | ks. mset ks = mset (map metric_of results)}" by blast
  next
    fix r assume "r \<in> {Ret (diagonal_count results metric n ks) | ks. mset ks = mset (map metric_of results)}"
    then obtain ks where ks: "r = Ret (diagonal_count results metric n ks)" "mset ks = mset (map metric_of results)" by blast
    with all obtain it where "fair_iter it" "visited it results = ks" by blast
    with ks(1) decide_visited [OF _ assms, of it] have "r = decide it w h results" by simp
    with \<open>fair_iter it\<close> show "r \<in> {decide it w h results | it. fair_iter it}" by blast
  qed
qed

text \<open>Two metrics of equal weight, predicted at 1, 9 and at 5, 2 replicas: 1 or 4 replicas, as it happens.\<close>

theorem decisions_over_iteration_orders_witness:
  "\<exists>(w :: (target \<Rightarrow> int32) world) h results.
     {decide it w h results | it. fair_iter it} = {Ret 1, Ret 4}"
proof -
  let ?w = "start_world\<lparr>metric_vars := [sample_metric ''a'' ''50'' 50, sample_metric ''b'' ''50'' 50]\<rparr> :: (target \<Rightarrow> int32) world"
  let ?h = "(Hide_Init new_Hide)\<lparr>MetricMap := \<lparr>Data = Some [(''a'', 0), (''b'', 1)]\<rparr>\<rparr>"
  let ?results = "[\<lparr>modelReplica = [1, 9], rp_withModelKey = ''a$holt_winter''\<rparr>,
                   \<lparr>modelReplica = [5, 2], rp_withModelKey = ''b$holt_winter''\<rparr>]"
  let ?metric = "\<lambda>k. sample_metric k ''50'' 50"
  have keys: "map metric_of ?results = [''a'', ''b'']" by code_simp
  have at: "\<forall>p \<in> set ?results. metric_at ?w ?h (metric_of p) (?metric (metric_of p))"
    using keys by (simp add: metric_at_def cm_Load_def cm_data_def deref_def)
  have orders: "mset ks = mset [''a'', ''b''] \<longleftrightarrow> ks = [''a'', ''b''] \<or> ks = [''b'', ''a'']" for ks :: "string list"
  proof
    assume ks: "mset ks = mset [''a'', ''b'']"
    then have "length ks = 2" using size_mset [of ks] by simp
    then obtain x y where "ks = [x, y]" by (auto simp: numeral_2_eq_2 length_Suc_conv)
    with ks show "ks = [''a'', ''b''] \<or> ks = [''b'', ''a'']" by (auto simp: add_eq_conv_ex)
  qed auto
  have "diagonal_count ?results ?metric 2 [''a'', ''b''] = 1" "diagonal_count ?results ?metric 2 [''b'', ''a''] = 4"
    by code_simp+
  with decisions_over_iteration_orders [of ?results 2 ?w ?h ?metric] keys at orders
  have "{decide it ?w ?h ?results | it. fair_iter it} = {Ret 1, Ret 4}" by auto
  then show ?thesis by blast
qed

end
