(* ===== verification/ClientFailure.thy ===== *)
theory ClientFailure
  imports Interleaved
begin

text \<open>
  What a failed first attempt to make the Kubernetes client does to the operator: the reconciliations that
  follow succeed, and the first prediction that comes true ends the process.
\<close>

lemma forecast_without_client:
  assumes f: "one_forecast w h k p wk m" and none: "GlobalClient (k8s_client w) = None" and t: "ParseFloat (Target m) = Ret t"
  shows "\<exists>a mt w'. cm_data (PredictorMap h) = [(k, a)] \<and> tasks_for now w h (k, a) = Ret [PredictTask k a mt] \<and>
    run_task env (Some sc) (PredictTask k a mt) (w, cl) = Some (Panic NilDereference, (w', cl))"
proof -
  obtain a ma model mt where h: "cm_data (PredictorMap h) = [(k, a)]" "deref (predictors w) a = Some (HwPredictor p)"
    "cm_Load (ModelMap h) k = Ret ma" "deref (model_vars w) ma = Some model" "\<not> NeedTrain model"
    "cm_Load (MetricMap h) (GetNoModelKey k) = Ret mt" "deref (metric_vars w) mt = Some m"
    "deref (collectors w) (hw_collectorWorker p) = Some (PromWorker wk)" "enough_samples p wk"
    using f unfolding one_forecast_def metric_at_def by blast
  obtain r where "hw_Predict p (PromWorker wk) = (Ret r, PromWorker (wk\<lparr>data := []\<rparr>))"
    using hw_forecast [OF h(9)] by blast
  then show ?thesis using h t none
    by (simp add: tasks_for_def predict_task_def GetModelReplica_def GetReplica_def)
qed

section \<open>Property\<close>

text \<open>C12: when the first reconciliation that gets as far could not make the Kubernetes client, no later one makes
  it: from then on, as soon as an instance that was created all the same has collected enough samples, a tick of its
  scheduler reaches a prediction whose replica count it reads through the nil client, and the
  operator crashes.\<close>

theorem failed_client_crashes:
  fixes w :: "'c world" and tenv :: "'c tick_env"
  assumes "once_done (k8s_client w0)" and "\<not> client_set w0"
    and "isys_step\<^sup>*\<^sup>* (w0, cl0, sg0, ph0) (w, cl, sg, ph(i := InRun AtTicker))"
    and "running name m p sc wk a ch w" and "enough_samples p wk" and "ParseFloat (Target m) = Ret t"
    and it: "fair_iter (tick_iter tenv)"
    and "i < length (goroutines w)" and "goroutines w ! i = RunLoop s" and "sched_Name s = name" and "\<not> predictors_locked w ph name"
  shows "\<exists>st. isys_step\<^sup>*\<^sup>* (w, cl, sg, ph(i := InRun AtTicker)) st \<and> run_panics st NilDereference"
proof -
  let ?v = "snd (GetHide name w)"
  have none: "GlobalClient (k8s_client ?v) = None"
    using isys_client(2) [OF assms(3)] assms(1,2) by (simp add: client_set_def)
  have sc: "hide_Scaler (the_hide name w) = Some sc" using assms(4) by (simp add: running_def Let_def)
  have "one_forecast ?v (the_hide name w) (WithModelKey m ''holt_winter'') p wk m"
    using running_forecast [OF assms(4,5)] by (simp add: one_forecast_GetHide)
  from forecast_without_client [OF this none assms(6)] obtain b mt w' where task:
    "cm_data (PredictorMap (the_hide name w)) = [(WithModelKey m ''holt_winter'', b)]"
    "tasks_for (tick_now tenv) ?v (the_hide name w) (WithModelKey m ''holt_winter'', b) =
      Ret [PredictTask (WithModelKey m ''holt_winter'') b mt]"
    "run_task tenv (Some sc) (PredictTask (WithModelKey m ''holt_winter'') b mt) (?v, cl) = Some (Panic NilDereference, (w', cl))"
    by blast
  let ?e = "(WithModelKey m ''holt_winter'', b)" and ?t = "PredictTask (WithModelKey m ''holt_winter'') b mt"
  let ?st = "\<lambda>w pc. (w, cl, sg, ph(i := InRun pc))"
  have mv: "run_move tenv (sched_Name s) LoopMove AtTicker (w, cl) = Some (Ret (Starting (Some sc) [?e] None [] []), (?v, cl))"
    "run_move tenv (sched_Name s) LoopMove (Starting (Some sc) [?e] None [] []) (?v, cl) = Some (Ret (Starting (Some sc) [] None [?t] []), (?v, cl))"
    "run_move tenv (sched_Name s) (TaskMove 0) (Starting (Some sc) [] None [?t] []) (?v, cl) = Some (Panic NilDereference, (w', cl))"
    using task it sc assms(10) by (simp_all add: begin_tick_def Let_def visit_def task_move_def tick_GetHide)
  have v: "evolves w ?v" by (rule always_snd [OF evolves_GetHide])
  note i = evolves_nth [OF v assms(8), unfolded assms(9)]
  have "isys_step (?st w AtTicker) (?st ?v (Starting (Some sc) [?e] None [] []))"
    using run [OF assms(8,9) _ it _ mv(1), of "ph(i := InRun AtTicker)" sg] assms(10,11)
      locked_idle [of w ph i name] by auto
  moreover have "isys_step (?st ?v (Starting (Some sc) [?e] None [] [])) (?st ?v (Starting (Some sc) [] None [?t] []))"
    by (rule move_step [OF conjunct1 [OF i] conjunct2 [OF i] it _ mv(2)]) simp
  moreover have "run_panics (?st ?v (Starting (Some sc) [] None [?t] [])) NilDereference"
    by (rule move_panics [OF conjunct1 [OF i] conjunct2 [OF i] it _ mv(3)]) simp
  ultimately show ?thesis by (meson converse_rtranclp_into_rtranclp r_into_rtranclp)
qed

text \<open>The whole way there from the start of the operator: no kubeconfig at the first reconciliation, which fails; it is
  there when the reconciliation is repeated, which succeeds with the nil client.\<close>

definition no_config_env :: "(target \<Rightarrow> int32) env" where
  "no_config_env = demo_env\<lparr>env_k8s := demo_libs\<lparr>BuildConfigFromFlags := Inl (External ''no kubeconfig'')\<rparr>\<rparr>"

theorem failed_client_crashes_witness:
  "\<exists>st. isys_step\<^sup>*\<^sup>* (istart (\<lambda>_ :: target. 1 :: int32)) st \<and> run_panics st NilDereference"
proof -
  let ?k = "\<lparr>GlobalClient = None, once_done = True\<rparr> :: (target \<Rightarrow> int32) k8s_state" and ?cl = "(\<lambda>_. 1) :: target \<Rightarrow> int32"
  have "fst (NewClient demo_libs ?k) = Ret ()" "snd (NewClient demo_libs ?k) = ?k" by (simp_all add: NewClient_def)
  with hw_reached_with [of ?k] obtain w ph i s p wk a ch where
    w: "isys_step\<^sup>*\<^sup>* (start_with ?k, ?cl, NoReconcile, \<lambda>_. Unstarted) (w, ?cl, NoReconcile, ph(i := InRun AtTicker))"
    "running (aom_name hw_inst) (sample_metric ''cpu'' ''5'' 100) p (the_scaler (aom_name hw_inst) (Spec hw_inst)) wk a ch w"
    "enough_samples p wk" "i < length (goroutines w)" "goroutines w ! i = RunLoop s" "sched_Name s = aom_name hw_inst"
    "\<not> predictors_locked w ph (aom_name hw_inst)"
    by metis
  have "new_client no_config_env start_world = (Err (External ''no kubeconfig''), start_with ?k)"
    by (simp add: new_client_def NewClient_def newClient_def no_config_env_def demo_env_def demo_libs_def start_with_def start_world_def)
  then have "start_stage no_config_env hw_inst start_world = (Err (External ''no kubeconfig''), start_with ?k)"
    by (simp add: start_stage_def bind_act_def hw_inst_def demo_inst_def)
  moreover have "wf_spec (Spec hw_inst)" by (auto simp: wf_spec_def wf_map_def keys_def hw_inst_def spec_of_def)
  ultimately have "isys_step (istart ?cl) (start_with ?k, ?cl, NoReconcile, \<lambda>_. Unstarted)"
    using begin_reconcile [of hw_inst no_config_env start_world "Err (External ''no kubeconfig'')"] by (simp add: istart_def)
  moreover obtain st where "isys_step\<^sup>*\<^sup>* (w, ?cl, NoReconcile, ph(i := InRun AtTicker)) st" "run_panics st NilDereference"
    using failed_client_crashes [OF _ _ w(1-3) hw_target hw_env_fair(1) w(4-7)] by (auto simp: start_with_def client_set_def)
  ultimately show ?thesis using w(1) by (meson converse_rtranclp_into_rtranclp rtranclp_trans)
qed

end
