(* ===== verification/Spec2Isabelle.thy ===== *)
theory Spec2Isabelle
  imports HoltWinterSpec GruSpec Socket Utils Removal Aliasing SchedulerSpec System NilSafety Retry DeepCopy EndToEnd MapLocks Plot Startup Interleaved TickEnds SocketClient Decision ClientFailure
begin

text \<open>
  AOM is a Kubernetes operator that scales a workload ahead of its load: it collects metrics from a
  Prometheus server, predicts them, turns the predictions into replica counts and writes the count
  it selects to the scale subresource of the target.

  \<^bold>\<open>Parts.\<close> The manager calls \<open>AOMReconciler.Reconcile\<close> (controllers/aom_controller.go) with every change
  of an AOM object. The handler keeps a hidden state for each object (common/aomtype, common/store):
  concurrent maps (utils/concurrent_map.go) of metrics, models, collector workers and predictors,
  and a scaler. A goroutine of each worker (collector/prometheus_collector) appends samples; the
  predictors (predictor, predictor/GRU, algorithms/holt_winter) take them. A goroutine of each
  object, \<open>Scheduler.Run\<close> (scheduler/scheduler.go), asks the predictors at every tick, aggregates their
  answers by the strategies of scaler/strategy.go, and scales up (scaler/scaler.go) through the
  client of clients/k8s.

  \<^bold>\<open>Theories.\<close>
  \<^item> Prelude: results of Go functions (\<open>go\<close>: \<open>Ret\<close>, \<open>Err\<close>, \<open>Panic\<close>), maps as association lists with an
    iteration oracle (\<open>iter\<close>), stores of objects reached by pointers, wrapping conversions.
  \<^item> GoFloat and GoStrings: the float64 values as reals with the three special values and the parts of
    strconv and strings the source calls.
  \<^item> Basetype, Containers, Utils: common/basetype, utils/concurrent_map.go, utils/map.go,
    utils/common.go; the locale \<open>key_store\<close> is the contract of the two maps.
  \<^item> K8s, Strategy, ScalerModel: clients/k8s, scaler/strategy.go, scaler/scaler.go; the locale
    \<open>model_strategy\<close> is the contract of the three aggregation strategies.
  \<^item> Collector: collector/collector.go, the Prometheus collector and fake/collector_worker.go; the
    locales \<open>metric_collector\<close> and \<open>draining_collector\<close> are the contract of a worker.
  \<^item> HoltWinter, HoltWinterSpec: algorithms/holt_winter, with its smoothing loop refined to the textbook
    recurrence.
  \<^item> Socket: utils/socket.go, with the peer of the connection as what its reads return, in chunks of any
    size, to what it was sent; SocketClient: the sample client
    of clients/socket.
  \<^item> Gru, GruSpec: predictor/GRU, the client of the Python process; what that process answers is an
    argument.
  \<^item> Predictor: predictor/predictor.go; the locale \<open>predictor_identity\<close> is what the controller relies on.
  \<^item> World: common/aomtype, common/store, the shared state, and the triples the proofs about the
    controller use.
  \<^item> Controller: the handlers of controllers/aom_controller.go, as actions on the world that return, err
    or panic; a spec is the value of \<open>AOMSpec\<close>, the answers of the API server are arguments.
    ControllerSpec follows the keys of every map through each handler (\<open>shape_of\<close>), Frames says what a
    handler leaves alone, ReconcileSpec composes the handlers, HandleSpec has the creation of an
    instance and the invariant \<open>good\<close> of all the hidden states, Removal the updates and what goes wrong
    after a metric was removed, Aliasing the variables the maps of metrics and models point to.
  \<^item> Scheduler, SchedulerSpec: one tick of \<open>Scheduler.Run\<close>. Predictions and trainings are steps, run in
    the order the oracle \<open>tick_order\<close> gives, any permutation of them (\<open>fair_order\<close>).
    \<open>None\<close> is a tick that never ends because a prediction does not return. Decision: all the replica counts
    a tick over several metrics can decide on.
  \<^item> System, NilSafety: the loop of \<open>StartWorker\<close> and the whole operator as a step relation \<open>sys_step\<close>:
    reconciliations, ticks, turns of the collectors' loops and ends of trainings in any interleaving,
    with the answers of all peers chosen anew at each step; \<open>sys_ok\<close> is its invariant.
    EndToEnd follows one instance from its creation to its first scaling, with every state in full,
    and Retry a creation that is repeated because the API server refused the status.
  \<^item> TickSteps: the loop \<open>Run\<close> in small steps, with its place in the code as \<open>run_pc\<close>; TickEnds bounds its moves.
    Stages: \<open>Handle\<close> as a sequence of stages. Interleaved: the operator \<open>isys_step\<close> made of both, with the lock
    a tick holds on the predictors; its invariant, and the crash that it reaches when an update removes a metric
    during a tick. ClientFailure: the crash that follows when the Kubernetes client could not be made.
  \<^item> MapLocks: goroutines that call the methods of one concurrent map, at the level of its lock. Their
    interleavings are runs of atomic calls, as the other theories take them to be.
  \<^item> Plot: utils/plot.go.
  \<^item> Startup: main.go and api/v1/groupversion_info.go, with the package flag of the standard library; what
    controller-runtime does is a record of functions.
  \<^item> DeepCopy: api/v1/zz_generated.deepcopy.go, over a heap of the maps and slices an object points to;
    the locale \<open>deep_copier\<close> is the contract of a copy, \<open>heap_part\<close> that of a store of the heap.

  \<^bold>\<open>Bounds.\<close> Loops over Go maps visit the keys in the order of \<open>iter\<close>, any permutation of them
  (\<open>fair_iter\<close>), a different one at each numbered loop. Counts are 32-bit words, sizes and
  durations are wrapped to 64 bits where the code computes them. No fuel is used: the reads of a socket are
  as many as the peer makes them, and waiting without end is \<open>None\<close>.

  \<^bold>\<open>Atomicity.\<close> In \<open>sys_step\<close> a reconciliation, a tick, a training and a turn of a loop are each one step. In
  \<open>isys_step\<close> the goroutines also run between the handlers of a reconciliation and between the steps of a
  tick: the turns of its loop over the predictors, each prediction and training, each look at the map of
  the metrics. \<open>uninterrupted_round_is_tick\<close> and \<open>Handle_in_stages\<close> say that the large steps are runs of the
  small ones that nobody interrupts. One handler, one prediction and one turn remain single steps, and the
  calls on one concurrent map are in MapLocks.

  \<^bold>\<open>Taken for granted.\<close> The dial and the write of a training return. In the hypotheses about the scale API
  (\<open>scale_service\<close>) nothing else writes to the cluster during a call, so that an update meets no conflict. The
  predictors do not draw their debug plots, whose errors they would log, but whose panics would end the process.

  \<^bold>\<open>Not modelled.\<close> Logging, the manager of controller-runtime, which only calls \<open>Reconcile\<close>, and the
  Python programs under algorithms/DL.
\<close>

end
